(* ===== verification/Prelude.thy ===== *)
theory Prelude
  imports Main "HOL-Library.Word" "HOL-Library.Product_Lexorder" "HOL-Library.AList"
    "HOL-Library.Signed_Division"
begin

text \<open>
  What the components share. A Rust \<^verbatim>\<open>Vec<u8>\<close> / \<^verbatim>\<open>&[u8]\<close> is a list of
  \<^typ>\<open>char\<close> (a byte), and a Rust \<^verbatim>\<open>String\<close> / \<^verbatim>\<open>&str\<close> is the list of its UTF-8
  bytes, as it is in memory: \<^verbatim>\<open>len\<close>, slicing, equality and searches for ASCII patterns
  are list operations on the bytes, while operations on characters (\<^verbatim>\<open>trim\<close>,
  \<^verbatim>\<open>split_whitespace\<close>, \<^verbatim>\<open>chars\<close>) go through \<open>chars\<close>, which cuts the bytes at the
  code point boundaries. The rest of the theory is the part of the standard library that the
  sources use: ASCII case folding, trimming, splitting, lossy UTF-8 decoding, decimal printing
  and parsing, saturating counters, and an ordered map as a list sorted by key.
\<close>

type_synonym bytes = "char list"
type_synonym str = "char list"
type_synonym u16 = "16 word"
type_synonym u32 = "32 word"
type_synonym u64 = "64 word"

named_theorems str_defs \<open>definitions of string operations, for evaluating them\<close>
named_theorems io_defs \<open>definitions of stateful primitives, for unfolding a handler\<close>

section \<open>Bytes\<close>

definition byte :: "char \<Rightarrow> nat" where
  "byte c = of_char c"

abbreviation CR :: char where "CR \<equiv> CHR 0x0D"
abbreviation LF :: char where "LF \<equiv> CHR 0x0A"
abbreviation TAB :: char where "TAB \<equiv> CHR 0x09"
abbreviation NUL :: char where "NUL \<equiv> CHR 0x00"
abbreviation CRLF :: bytes where "CRLF \<equiv> [CR, LF]"
abbreviation DQ :: char where "DQ \<equiv> CHR 0x22"
abbreviation SQ :: char where "SQ \<equiv> CHR 0x27"
abbreviation BACKSLASH :: char where "BACKSLASH \<equiv> CHR 0x5C"
abbreviation BACKTICK :: char where "BACKTICK \<equiv> CHR 0x60"

definition ascii_lower :: "char \<Rightarrow> char" where
  "ascii_lower c = (if 65 \<le> byte c \<and> byte c \<le> 90 then char_of (byte c + 32) else c)"

definition ascii_upper :: "char \<Rightarrow> char" where
  "ascii_upper c = (if 97 \<le> byte c \<and> byte c \<le> 122 then char_of (byte c - 32) else c)"

definition is_digit_byte :: "char \<Rightarrow> bool" where
  "is_digit_byte c = (48 \<le> byte c \<and> byte c \<le> 57)"

definition is_alnum_byte :: "char \<Rightarrow> bool" where
  "is_alnum_byte c = (is_digit_byte c \<or> 65 \<le> byte c \<and> byte c \<le> 90 \<or> 97 \<le> byte c \<and> byte c \<le> 122)"

definition is_ascii :: "str \<Rightarrow> bool" where
  "is_ascii s = list_all (\<lambda>c. byte c < 128) s"

definition to_lower :: "str \<Rightarrow> str" where "to_lower s = map ascii_lower s"
definition to_upper :: "str \<Rightarrow> str" where "to_upper s = map ascii_upper s"

definition eq_ignore_case :: "str \<Rightarrow> str \<Rightarrow> bool" where
  "eq_ignore_case a b = (to_lower a = to_lower b)"

lemmas [str_defs] = byte_def ascii_lower_def ascii_upper_def is_digit_byte_def is_alnum_byte_def
  is_ascii_def to_lower_def to_upper_def eq_ignore_case_def

lemma byte_less: "byte c < 256"
  by (simp add: byte_def)

lemma byte_inject: "byte a = byte b \<longleftrightarrow> a = b"
  by (simp add: byte_def of_char_eq_iff)

lemma byte_char_of [simp]: "n < 256 \<Longrightarrow> byte (char_of n) = n"
  by (simp add: byte_def)

lemma ascii_lower_idem [simp]: "ascii_lower (ascii_lower c) = ascii_lower c"
  by (auto simp: ascii_lower_def)

lemma to_lower_idem [simp]: "to_lower (to_lower s) = to_lower s"
  by (simp add: to_lower_def comp_def)

lemma to_lower_append: "to_lower (a @ b) = to_lower a @ to_lower b"
  by (simp add: to_lower_def)

lemma length_to_lower [simp]: "length (to_lower s) = length s"
  by (simp add: to_lower_def)

lemma to_lower_Nil_iff [simp]: "to_lower s = [] \<longleftrightarrow> s = []"
  by (simp add: to_lower_def)

section \<open>Code points\<close>

text \<open>How many bytes the UTF-8 sequence starting with this byte has (\<^verbatim>\<open>str\<close> is valid
  UTF-8; a stray continuation byte counts as one).\<close>

definition utf8_width :: "char \<Rightarrow> nat" where
  "utf8_width c = (let n = byte c in if n < 192 then 1 else if n < 224 then 2 else if n < 240 then 3 else 4)"

fun chars :: "str \<Rightarrow> str list" where
  "chars [] = []"
| "chars (c # cs) = (c # take (utf8_width c - 1) cs) # chars (drop (utf8_width c - 1) cs)"

lemma concat_chars [simp]: "concat (chars s) = s"
  by (induction s rule: chars.induct) auto

lemma chars_nonempty: "x \<in> set (chars s) \<Longrightarrow> x \<noteq> []"
  by (induction s rule: chars.induct) auto

lemma chars_eq_Nil_iff [simp]: "chars s = [] \<longleftrightarrow> s = []"
  by (cases s) auto

lemma utf8_width_ascii: "byte c < 128 \<Longrightarrow> utf8_width c = 1"
  by (simp add: utf8_width_def Let_def)

lemma chars_ascii: "is_ascii s \<Longrightarrow> chars s = map (\<lambda>c. [c]) s"
  by (induction s) (auto simp: is_ascii_def utf8_width_ascii)

text \<open>\<^verbatim>\<open>char::is_whitespace\<close> (the Unicode White_Space property) and
  \<^verbatim>\<open>char::is_control\<close> (category Cc) of one encoded code point.\<close>

definition is_ws :: "str \<Rightarrow> bool" where
  "is_ws x = (case map byte x of
      [a] \<Rightarrow> 9 \<le> a \<and> a \<le> 13 \<or> a = 32
    | [a, b] \<Rightarrow> a = 194 \<and> (b = 133 \<or> b = 160)
    | [a, b, c] \<Rightarrow> a = 225 \<and> b = 154 \<and> c = 128
        \<or> a = 226 \<and> b = 128 \<and> (128 \<le> c \<and> c \<le> 138 \<or> c = 168 \<or> c = 169 \<or> c = 175)
        \<or> a = 226 \<and> b = 129 \<and> c = 159
        \<or> a = 227 \<and> b = 128 \<and> c = 128
    | _ \<Rightarrow> False)"

definition is_control :: "str \<Rightarrow> bool" where
  "is_control x = (case map byte x of
      [a] \<Rightarrow> a < 32 \<or> a = 127
    | [a, b] \<Rightarrow> a = 194 \<and> 128 \<le> b \<and> b \<le> 159
    | _ \<Rightarrow> False)"

lemmas [str_defs] = utf8_width_def is_ws_def is_control_def

abbreviation is_ws_byte :: "char \<Rightarrow> bool" where
  "is_ws_byte c \<equiv> is_ws [c]"

lemma is_ws_byte_iff: "is_ws [c] \<longleftrightarrow> 9 \<le> byte c \<and> byte c \<le> 13 \<or> byte c = 32"
  by (simp add: is_ws_def)

section \<open>Trimming and splitting\<close>

definition trim_start :: "str \<Rightarrow> str" where
  "trim_start s = concat (dropWhile is_ws (chars s))"

definition trim_end :: "str \<Rightarrow> str" where
  "trim_end s = concat (rev (dropWhile is_ws (rev (chars s))))"

definition trim :: "str \<Rightarrow> str" where
  "trim s = trim_end (trim_start s)"

text \<open>\<^verbatim>\<open>match s.find(char::is_whitespace)\<close>: the part before the first whitespace and
  the rest from it on.\<close>

definition span_ws :: "str \<Rightarrow> str \<times> str" where
  "span_ws s = (concat (takeWhile (\<lambda>x. \<not> is_ws x) (chars s)),
                concat (dropWhile (\<lambda>x. \<not> is_ws x) (chars s)))"

fun ws_tokens :: "str list \<Rightarrow> str \<Rightarrow> str list" where
  "ws_tokens [] acc = (if acc = [] then [] else [acc])"
| "ws_tokens (x # xs) acc =
     (if is_ws x then (if acc = [] then [] else [acc]) @ ws_tokens xs []
      else ws_tokens xs (acc @ x))"

definition split_whitespace :: "str \<Rightarrow> str list" where
  "split_whitespace s = ws_tokens (chars s) []"

text \<open>\<^verbatim>\<open>str::split_once(c)\<close> and \<^verbatim>\<open>str::rsplit_once(c)\<close> for an ASCII \<open>c\<close>.\<close>

fun split_once :: "char \<Rightarrow> str \<Rightarrow> (str \<times> str) option" where
  "split_once c [] = None"
| "split_once c (x # xs) =
     (if x = c then Some ([], xs)
      else map_option (\<lambda>(a, b). (x # a, b)) (split_once c xs))"

fun rsplit_once :: "char \<Rightarrow> str \<Rightarrow> (str \<times> str) option" where
  "rsplit_once c [] = None"
| "rsplit_once c (x # xs) =
     (case rsplit_once c xs of
        Some (a, b) \<Rightarrow> Some (x # a, b)
      | None \<Rightarrow> if x = c then Some ([], xs) else None)"

definition starts_with :: "str \<Rightarrow> str \<Rightarrow> bool" where
  "starts_with p s = (take (length p) s = p)"

definition ends_with :: "str \<Rightarrow> str \<Rightarrow> bool" where
  "ends_with p s = (length p \<le> length s \<and> drop (length s - length p) s = p)"

definition strip_prefix :: "str \<Rightarrow> str \<Rightarrow> str option" where
  "strip_prefix p s = (if starts_with p s then Some (drop (length p) s) else None)"

fun find_byte :: "(char \<Rightarrow> bool) \<Rightarrow> bytes \<Rightarrow> nat option" where
  "find_byte p [] = None"
| "find_byte p (x # xs) = (if p x then Some 0 else map_option Suc (find_byte p xs))"

text \<open>\<^verbatim>\<open>haystack.windows(n).position(|w| w == needle)\<close> for a non-empty needle.\<close>

fun find_sub :: "bytes \<Rightarrow> bytes \<Rightarrow> nat option" where
  "find_sub n [] = None"
| "find_sub n (x # xs) =
     (if starts_with n (x # xs) then Some 0 else map_option Suc (find_sub n xs))"

fun join :: "str \<Rightarrow> str list \<Rightarrow> str" where
  "join sep [] = []"
| "join sep [x] = x"
| "join sep (x # xs) = x @ sep @ join sep xs"

lemmas [str_defs] = trim_start_def trim_end_def trim_def span_ws_def split_whitespace_def
  starts_with_def ends_with_def strip_prefix_def

lemma span_ws_append: "span_ws s = (a, b) \<Longrightarrow> a @ b = s"
  unfolding span_ws_def by (metis Pair_inject concat_append concat_chars takeWhile_dropWhile_id)

lemma split_once_Some:
  "split_once c s = Some (a, b) \<longleftrightarrow> s = a @ c # b \<and> c \<notin> set a"
proof (induction s arbitrary: a)
  case (Cons x xs)
  then show ?case by (cases a) auto
qed simp

lemma split_once_None: "split_once c s = None \<longleftrightarrow> c \<notin> set s"
  by (induction s) auto

lemma rsplit_once_None: "rsplit_once c s = None \<longleftrightarrow> c \<notin> set s"
  by (induction s) (auto split: option.splits)

lemma rsplit_once_Some:
  "rsplit_once c s = Some (a, b) \<longleftrightarrow> s = a @ c # b \<and> c \<notin> set b"
proof (induction s arbitrary: a)
  case (Cons x xs)
  show ?case
  proof (cases a)
    case Nil
    then show ?thesis
      using rsplit_once_None[of c xs] by (auto split: option.splits)
  next
    case (Cons y ys)
    then show ?thesis
      using Cons.IH[of ys] rsplit_once_None[of c xs] by (auto split: option.splits)
  qed
qed simp

lemma find_byte_Some:
  "find_byte p s = Some i \<longleftrightarrow> i < length s \<and> p (s ! i) \<and> (\<forall>j<i. \<not> p (s ! j))"
  by (induction s arbitrary: i) (auto simp: nth_Cons less_Suc_eq_0_disj split: nat.splits)

lemma find_byte_None: "find_byte p s = None \<longleftrightarrow> (\<forall>x\<in>set s. \<not> p x)"
  by (induction s) auto

lemma find_byte_append:
  "find_byte p (a @ b) = (case find_byte p a of Some i \<Rightarrow> Some i
     | None \<Rightarrow> map_option ((+) (length a)) (find_byte p b))"
  by (induction a) (cases "find_byte p b"; auto split: option.splits)+

lemma find_sub_starts: "find_sub n s = Some i \<Longrightarrow> starts_with n (drop i s) \<and> i < length s"
  by (induction s arbitrary: i) (auto split: if_splits)

lemma starts_with_append [simp]: "starts_with p (p @ s)"
  by (simp add: starts_with_def)

lemma starts_with_iff: "starts_with p s \<longleftrightarrow> (\<exists>t. s = p @ t)"
  by (auto simp: starts_with_def) (metis append_take_drop_id)

section \<open>Lossy UTF-8 decoding\<close>

text \<open>\<^verbatim>\<open>String::from_utf8_lossy\<close>: a well-formed sequence is kept, and the longest prefix of
  a well-formed sequence that is cut short becomes one U+FFFD. \<open>utf8_step\<close> looks at the front
  of the input and says whether it is a code point, and how many bytes to consume.\<close>

definition cont :: "char \<Rightarrow> bool" where
  "cont c = (128 \<le> byte c \<and> byte c < 192)"

definition second_ok :: "nat \<Rightarrow> char \<Rightarrow> bool" where
  "second_ok lead c =
     (if lead = 224 then 160 \<le> byte c \<and> byte c < 192
      else if lead = 237 then 128 \<le> byte c \<and> byte c < 160
      else if lead = 240 then 144 \<le> byte c \<and> byte c < 192
      else if lead = 244 then 128 \<le> byte c \<and> byte c < 144
      else cont c)"

fun utf8_step :: "bytes \<Rightarrow> bool \<times> nat" where
  "utf8_step [] = (False, 0)"
| "utf8_step (c # cs) =
     (let n = byte c in
      if n < 128 then (True, 1)
      else if n < 194 then (False, 1)
      else case cs of
        [] \<Rightarrow> (False, 1)
      | d # ds \<Rightarrow>
          if n < 224 then (if cont d then (True, 2) else (False, 1))
          else if 245 \<le> n \<or> \<not> second_ok n d then (False, 1)
          else (case ds of
              [] \<Rightarrow> (False, 2)
            | e # es \<Rightarrow>
                if \<not> cont e then (False, 2)
                else if n < 240 then (True, 3)
                else (case es of
                    [] \<Rightarrow> (False, 3)
                  | f # _ \<Rightarrow> if cont f then (True, 4) else (False, 3))))"

abbreviation replacement :: str where
  "replacement \<equiv> [CHR 0xEF, CHR 0xBF, CHR 0xBD]"

lemma utf8_step_pos: "s \<noteq> [] \<Longrightarrow> 0 < snd (utf8_step s)"
  by (cases s) (auto simp: Let_def split: list.splits)

lemma utf8_step_ascii: "byte c < 128 \<Longrightarrow> utf8_step (c # cs) = (True, 1)"
  by simp

declare utf8_step.simps [simp del]

function utf8_lossy :: "bytes \<Rightarrow> str" where
  "utf8_lossy s =
     (if s = [] then []
      else (let (ok, n) = utf8_step s
            in (if ok then take n s else replacement) @ utf8_lossy (drop n s)))"
  by pat_completeness auto
termination
proof (relation "measure length")
  fix s :: bytes and p ok n
  assume "s \<noteq> []" "p = utf8_step s" "(ok, n) = p"
  then have "0 < n" using utf8_step_pos[of s] by (metis snd_conv)
  with \<open>s \<noteq> []\<close> show "(drop n s, s) \<in> measure length" by simp
qed simp

declare utf8_lossy.simps [simp del]

text \<open>\<^verbatim>\<open>str::from_utf8\<close> succeeds on the input.\<close>

function utf8_valid :: "bytes \<Rightarrow> bool" where
  "utf8_valid s =
     (if s = [] then True
      else (let (ok, n) = utf8_step s in ok \<and> utf8_valid (drop n s)))"
  by pat_completeness auto
termination
proof (relation "measure length")
  fix s :: bytes and p ok n
  assume "s \<noteq> []" "p = utf8_step s" "(ok, n) = p"
  then have "0 < n" using utf8_step_pos[of s] by (metis snd_conv)
  with \<open>s \<noteq> []\<close> show "(drop n s, s) \<in> measure length" by simp
qed simp

declare utf8_valid.simps [simp del]

lemma utf8_lossy_Nil [simp]: "utf8_lossy [] = []"
  by (simp add: utf8_lossy.simps)

lemma utf8_valid_Nil [simp]: "utf8_valid []"
  by (simp add: utf8_valid.simps)

lemma utf8_lossy_valid: "utf8_valid s \<Longrightarrow> utf8_lossy s = s"
proof (induction s rule: utf8_valid.induct)
  case (1 s)
  show ?case
  proof (cases "s = []")
    case False
    obtain ok n where st: "utf8_step s = (ok, n)" by (cases "utf8_step s")
    from "1.prems" False st have "ok" "utf8_valid (drop n s)"
      by (auto simp: utf8_valid.simps[of s])
    with "1.IH" False st have "utf8_lossy (drop n s) = drop n s" by simp
    with \<open>ok\<close> False st show ?thesis by (simp add: utf8_lossy.simps[of s])
  qed simp
qed

lemma utf8_valid_ascii_Cons: "byte c < 128 \<Longrightarrow> utf8_valid (c # s) = utf8_valid s"
  by (subst utf8_valid.simps) (simp add: utf8_step_ascii)

lemma utf8_valid_ascii: "is_ascii s \<Longrightarrow> utf8_valid s"
  by (induction s) (auto simp: is_ascii_def utf8_valid_ascii_Cons)

lemma utf8_lossy_ascii: "is_ascii s \<Longrightarrow> utf8_lossy s = s"
  by (simp add: utf8_lossy_valid utf8_valid_ascii)

section \<open>Code points of trimmed text\<close>

lemma chars_concat_drop: "chars (concat (drop k (chars s))) = drop k (chars s)"
proof (induction s arbitrary: k rule: chars.induct)
  case (2 c cs)
  then show ?case by (cases k) auto
qed simp

lemma chars_concat_take: "chars (concat (take k (chars s))) = take k (chars s)"
proof (induction s arbitrary: k rule: chars.induct)
  case (2 c cs)
  let ?w = "utf8_width c - 1"
  show ?case
  proof (cases k)
    case (Suc k')
    show ?thesis
    proof (cases "?w \<le> length cs")
      case True
      then show ?thesis using 2[of k'] Suc by simp
    qed (simp add: Suc)
  qed simp
qed simp

lemma dropWhile_drop: "\<exists>k. dropWhile p xs = drop k xs"
  by (metis dropWhile_eq_drop)

lemma rev_dropWhile_rev: "\<exists>k. rev (dropWhile p (rev xs)) = take k xs"
  by (simp add: dropWhile_eq_drop rev_drop) blast

lemma chars_trim_start: "chars (trim_start s) = dropWhile is_ws (chars s)"
  unfolding trim_start_def by (metis chars_concat_drop dropWhile_drop)

lemma chars_trim_end: "chars (trim_end s) = rev (dropWhile is_ws (rev (chars s)))"
  unfolding trim_end_def by (metis chars_concat_take rev_dropWhile_rev)

definition trim_chars :: "str list \<Rightarrow> str list" where
  "trim_chars xs = rev (dropWhile is_ws (rev (dropWhile is_ws xs)))"

lemma chars_trim: "chars (trim s) = trim_chars (chars s)"
  by (simp add: trim_def chars_trim_end chars_trim_start trim_chars_def)

lemma trim_concat: "trim s = concat (trim_chars (chars s))"
  by (metis chars_trim concat_chars)

lemma hd_dropWhile_not: "dropWhile p xs \<noteq> [] \<Longrightarrow> \<not> p (hd (dropWhile p xs))"
  by (rule hd_dropWhile)

lemma trim_chars_ends:
  assumes "trim_chars xs \<noteq> []"
  shows "\<not> is_ws (hd (trim_chars xs))" "\<not> is_ws (last (trim_chars xs))"
proof -
  let ?d = "dropWhile is_ws xs"
  let ?e = "dropWhile is_ws (rev ?d)"
  from assms have e: "?e \<noteq> []" by (simp add: trim_chars_def)
  then show "\<not> is_ws (last (trim_chars xs))"
    by (simp add: trim_chars_def last_rev hd_dropWhile)
  obtain pre where pre: "rev ?d = pre @ ?e" by (metis takeWhile_dropWhile_id)
  then have "?d = rev ?e @ rev pre" by (metis rev_append rev_rev_ident)
  then have "hd ?d = hd (rev ?e)" using e by (metis hd_append2 rev_is_Nil_conv)
  moreover have "?d \<noteq> []" using e by (metis dropWhile.simps(1) rev.simps(1))
  ultimately show "\<not> is_ws (hd (trim_chars xs))"
    by (metis hd_dropWhile trim_chars_def)
qed

lemma trim_chars_id:
  "xs = [] \<or> \<not> is_ws (hd xs) \<and> \<not> is_ws (last xs) \<Longrightarrow> trim_chars xs = xs"
proof -
  assume a: "xs = [] \<or> \<not> is_ws (hd xs) \<and> \<not> is_ws (last xs)"
  then have "dropWhile is_ws xs = xs" "dropWhile is_ws (rev xs) = rev xs"
    by (simp_all only: dropWhile_eq_self_iff hd_rev rev_is_Nil_conv) blast+
  then show ?thesis by (simp add: trim_chars_def)
qed

lemma trim_chars_idem: "trim_chars (trim_chars xs) = trim_chars xs"
  using trim_chars_ends by (intro trim_chars_id) blast

lemma trim_idem [simp]: "trim (trim s) = trim s"
  by (metis chars_trim trim_chars_idem trim_concat)

lemma trim_id: "s = [] \<or> \<not> is_ws (hd (chars s)) \<and> \<not> is_ws (last (chars s)) \<Longrightarrow> trim s = s"
  by (metis chars_eq_Nil_iff concat_chars trim_chars_id trim_concat)

lemma set_trim_chars: "set (trim_chars xs) \<subseteq> set xs"
  unfolding trim_chars_def by (metis set_dropWhileD set_rev subsetI)

lemma trim_no_ws: "\<forall>x\<in>set (chars s). \<not> is_ws x \<Longrightarrow> trim s = s"
  by (rule trim_id) (metis chars_eq_Nil_iff hd_in_set last_in_set)

lemma trim_Nil [simp]: "trim [] = []"
  by (simp add: trim_concat trim_chars_def)

lemma set_trim: "set (trim s) \<subseteq> set s"
proof -
  have "set (concat (trim_chars (chars s))) \<subseteq> set (concat (chars s))"
    using set_trim_chars[of "chars s"] by (auto simp del: concat_chars)
  then show ?thesis by (metis trim_concat concat_chars)
qed

lemma trim_ascii_id:
  "is_ascii s \<Longrightarrow> s \<noteq> [] \<Longrightarrow> \<not> is_ws_byte (hd s) \<Longrightarrow> \<not> is_ws_byte (last s) \<Longrightarrow> trim s = s"
  by (rule trim_id) (simp add: chars_ascii hd_map last_map)

section \<open>Code points of valid UTF-8\<close>

lemma utf8_step_True:
  assumes "utf8_step (c # cs) = (True, n)"
  shows "n = utf8_width c \<and> n \<le> Suc (length cs)
    \<and> (byte c < 128 \<or> (\<forall>x\<in>set (take n (c # cs)). 128 \<le> byte x))"
  using assms
  by (auto simp: utf8_step.simps Let_def utf8_width_def cont_def second_ok_def split: list.splits if_splits)

lemma utf8_valid_Cons:
  assumes "utf8_valid (c # cs)"
  shows "utf8_valid (drop (utf8_width c - 1) cs)"
    "byte c < 128 \<or> (\<forall>x\<in>set (c # take (utf8_width c - 1) cs). 128 \<le> byte x)"
    "utf8_step (c # cs) = (True, utf8_width c)"
proof -
  obtain ok n where st: "utf8_step (c # cs) = (ok, n)" by (cases "utf8_step (c # cs)")
  with assms have ok: "ok" and v: "utf8_valid (drop n (c # cs))"
    by (subst (asm) utf8_valid.simps, simp)+
  from st ok have st': "utf8_step (c # cs) = (True, n)" by simp
  note n = utf8_step_True[OF st']
  have w: "0 < utf8_width c" by (simp add: utf8_width_def Let_def)
  then obtain m where m: "utf8_width c = Suc m" by (cases "utf8_width c") auto
  show "utf8_valid (drop (utf8_width c - 1) cs)" using v n m by simp
  show "byte c < 128 \<or> (\<forall>x\<in>set (c # take (utf8_width c - 1) cs). 128 \<le> byte x)"
    using n m by auto
  show "utf8_step (c # cs) = (True, utf8_width c)" using st ok n by simp
qed

lemma chars_valid:
  "utf8_valid s \<Longrightarrow> x \<in> set (chars s) \<Longrightarrow>
     (\<exists>c. x = [c] \<and> byte c < 128) \<or> (\<forall>c\<in>set x. 128 \<le> byte c)"
proof (induction s rule: chars.induct)
  case (2 c cs)
  from utf8_valid_Cons[OF "2.prems"(1)] 2 show ?case
    by (auto simp: utf8_width_ascii)
qed simp

lemma valid_ascii_byte_char:
  assumes "utf8_valid s" "c \<in> set s" "byte c < 128"
  shows "[c] \<in> set (chars s)"
proof -
  from assms(2) have "c \<in> set (concat (chars s))" by simp
  then obtain x where x: "x \<in> set (chars s)" "c \<in> set x"
    unfolding set_concat by blast
  from chars_valid[OF assms(1) x(1)] x(2) assms(3) have "x = [c]" by force
  with x show ?thesis by simp
qed

text \<open>The output of the lossy decoder is valid.\<close>

lemma utf8_step_append:
  "utf8_step s = (True, n) \<Longrightarrow> utf8_step (take n s @ t) = (True, n)"
  by (cases s) (auto simp: utf8_step.simps Let_def second_ok_def split: list.splits if_splits)

lemma utf8_valid_step_append:
  assumes "utf8_step s = (True, n)" "utf8_valid t"
  shows "utf8_valid (take n s @ t)"
proof -
  obtain c cs where s: "s = c # cs"
    using assms(1) by (cases s) (auto simp: utf8_step.simps)
  have n: "n \<le> length s" "0 < n"
    using assms(1) utf8_step_True[of c cs n] utf8_step_pos[of s] s by simp_all
  then have "take n s @ t \<noteq> []" by auto
  then show ?thesis
    using n assms utf8_step_append[OF assms(1), of t]
    by (subst utf8_valid.simps) (simp add: min_def)
qed

lemma utf8_valid_lossy: "utf8_valid (utf8_lossy s)"
proof (induction s rule: utf8_lossy.induct)
  case (1 s)
  show ?case
  proof (cases "s = []")
    case False
    obtain ok n where st: "utf8_step s = (ok, n)" by (cases "utf8_step s")
    with 1 False have IH: "utf8_valid (utf8_lossy (drop n s))" by simp
    have r: "utf8_valid (replacement @ t)" if "utf8_valid t" for t
      using that utf8_valid_step_append[of replacement 3 t]
      by (simp add: utf8_step.simps Let_def byte_def second_ok_def cont_def)
    show ?thesis
      using st IH False r utf8_valid_step_append[of s n]
      by (subst utf8_lossy.simps) auto
  qed simp
qed

text \<open>Validity is a property of the code points, so it survives trimming and splitting.\<close>

definition code_point_ok :: "str \<Rightarrow> bool" where
  "code_point_ok x = (x \<noteq> [] \<and> utf8_step x = (True, length x))"

lemma utf8_step_take:
  "utf8_step s = (True, n) \<Longrightarrow> utf8_step (take n s) = (True, n)"
  using utf8_step_append[of s n "[]"] by simp

lemma chars_code_points: "utf8_valid s \<Longrightarrow> x \<in> set (chars s) \<Longrightarrow> code_point_ok x"
proof (induction s rule: chars.induct)
  case (2 c cs)
  note v = utf8_valid_Cons[OF "2.prems"(1)]
  have w: "utf8_width c \<noteq> 0" by (simp add: utf8_width_def Let_def)
  have "utf8_step (take (utf8_width c) (c # cs)) = (True, utf8_width c)"
    by (rule utf8_step_take[OF v(3)])
  moreover have "utf8_width c \<le> Suc (length cs)" using utf8_step_True[OF v(3)] by simp
  moreover have "take (utf8_width c) (c # cs) = c # take (utf8_width c - 1) cs"
    using w by (cases "utf8_width c") auto
  ultimately have "code_point_ok (c # take (utf8_width c - 1) cs)"
    using w by (simp add: code_point_ok_def)
  with 2 v(1) show ?case by auto
qed simp

lemma utf8_valid_concat: "(\<And>x. x \<in> set xs \<Longrightarrow> code_point_ok x) \<Longrightarrow> utf8_valid (concat xs)"
proof (induction xs)
  case (Cons x xs)
  then have "utf8_step x = (True, length x)" "utf8_valid (concat xs)"
    by (auto simp: code_point_ok_def)
  from utf8_valid_step_append[OF this] show ?case by simp
qed simp

lemma utf8_valid_sub: "utf8_valid s \<Longrightarrow> set xs \<subseteq> set (chars s) \<Longrightarrow> utf8_valid (concat xs)"
  by (rule utf8_valid_concat) (auto dest: chars_code_points)

lemma utf8_valid_trim: "utf8_valid s \<Longrightarrow> utf8_valid (trim s)"
  unfolding trim_concat by (rule utf8_valid_sub[OF _ set_trim_chars])

lemma utf8_valid_trim_start: "utf8_valid s \<Longrightarrow> utf8_valid (trim_start s)"
  unfolding trim_start_def by (rule utf8_valid_sub) (auto dest: set_dropWhileD)

lemma utf8_valid_append: "utf8_valid a \<Longrightarrow> utf8_valid b \<Longrightarrow> utf8_valid (a @ b)"
proof -
  assume a: "utf8_valid a" and b: "utf8_valid b"
  have "utf8_valid (concat (chars a @ chars b))"
    using a b by (intro utf8_valid_concat) (auto dest: chars_code_points)
  then show ?thesis by simp
qed

lemma utf8_valid_Cons_ascii [simp]: "byte c < 128 \<Longrightarrow> utf8_valid (c # s) = utf8_valid s"
  by (rule utf8_valid_ascii_Cons)

lemma utf8_valid_split:
  "utf8_valid (a @ c # b) \<Longrightarrow> byte c < 128 \<Longrightarrow> utf8_valid a \<and> utf8_valid b"
proof (induction "length a" arbitrary: a rule: less_induct)
  case less
  show ?case
  proof (cases a)
    case Nil
    then show ?thesis using less.prems by simp
  next
    case (Cons d a')
    let ?w = "utf8_width d - 1"
    from less.prems(1) Cons have v0: "utf8_valid (d # a' @ c # b)" by simp
    note v = utf8_valid_Cons[OF v0]
    have len: "?w \<le> length a'"
    proof (rule ccontr)
      assume "\<not> ?w \<le> length a'"
      then obtain k where "?w = length a' + Suc k"
        by (metis less_imp_Suc_add not_le_imp_less add_Suc_right)
      then have c: "c \<in> set (take ?w (a' @ c # b))" and "utf8_width d \<noteq> 1" by auto
      then have "\<not> byte d < 128" using utf8_width_ascii by blast
      with v(2) have "\<forall>x\<in>set (d # take ?w (a' @ c # b)). 128 \<le> byte x" by blast
      with c have "128 \<le> byte c" by (meson list.set_intros(2))
      then show False using less.prems(2) by simp
    qed
    then have "utf8_valid (drop ?w a' @ c # b)" using v(1) by simp
    then have IH: "utf8_valid (drop ?w a')" "utf8_valid b"
      using less.hyps[of "drop ?w a'"] less.prems(2) Cons by auto
    have w: "utf8_width d \<noteq> 0" by (simp add: utf8_width_def Let_def)
    then have tk: "take (utf8_width d) (d # a' @ c # b) = d # take ?w a'"
      using len by (cases "utf8_width d") auto
    have "utf8_valid (take (utf8_width d) (d # a' @ c # b) @ drop ?w a')"
      by (rule utf8_valid_step_append[OF v(3) IH(1)])
    then show ?thesis using IH Cons by (simp add: tk)
  qed
qed

lemma chars_ascii_append: "is_ascii p \<Longrightarrow> chars (p @ s) = map (\<lambda>c. [c]) p @ chars s"
  by (induction p) (auto simp: is_ascii_def utf8_width_ascii)

lemma chars_append: "utf8_valid a \<Longrightarrow> chars (a @ b) = chars a @ chars b"
proof (induction a rule: chars.induct)
  case (2 c cs)
  note v = utf8_valid_Cons[OF "2.prems"]
  have "utf8_width c \<le> Suc (length cs)" using utf8_step_True[OF v(3)] by blast
  then have "utf8_width c - 1 \<le> length cs" by simp
  with 2 v(1) show ?case by simp
qed simp

section \<open>Decimal numbers\<close>

definition digit_char :: "nat \<Rightarrow> char" where
  "digit_char d = char_of (48 + d)"

fun dec :: "nat \<Rightarrow> str" where
  "dec n = (if n < 10 then [digit_char n] else dec (n div 10) @ [digit_char (n mod 10)])"

declare dec.simps [simp del]

definition digit_val :: "char \<Rightarrow> nat" where
  "digit_val c = byte c - 48"

text \<open>\<^verbatim>\<open>str::parse::<uN>\<close>: an optional \<open>+\<close>, then one or more ASCII digits whose value
  is below the bound.\<close>

definition parse_uint :: "nat \<Rightarrow> str \<Rightarrow> nat option" where
  "parse_uint bound s =
     (let ds = (case s of c # cs \<Rightarrow> if c = CHR ''+'' then cs else s | [] \<Rightarrow> [])
      in if ds = [] \<or> \<not> list_all is_digit_byte ds then None
         else let n = foldl (\<lambda>a c. 10 * a + digit_val c) 0 ds
              in if n < bound then Some n else None)"

lemmas [str_defs] = digit_char_def digit_val_def parse_uint_def

lemma dec_small: "n < 10 \<Longrightarrow> dec n = [digit_char n]"
  by (simp add: dec.simps)

lemma dec_large: "10 \<le> n \<Longrightarrow> dec n = dec (n div 10) @ [digit_char (n mod 10)]"
  by (simp add: dec.simps)

lemma digit_char_props:
  "d < 10 \<Longrightarrow> is_digit_byte (digit_char d)" "d < 10 \<Longrightarrow> digit_val (digit_char d) = d"
  by (simp_all add: digit_char_def is_digit_byte_def digit_val_def)

lemma dec_digits: "list_all is_digit_byte (dec n)"
  by (induction n rule: dec.induct) (subst dec.simps, auto simp: digit_char_props)

lemma dec_nonempty: "dec n \<noteq> []"
  by (subst dec.simps) simp

lemma dec_value: "foldl (\<lambda>a c. 10 * a + digit_val c) 0 (dec n) = n"
proof (induction n rule: dec.induct)
  case (1 n)
  show ?case
  proof (cases "n < 10")
    case False
    with 1 have "foldl (\<lambda>a c. 10 * a + digit_val c) 0 (dec (n div 10)) = n div 10" by simp
    with False show ?thesis by (subst dec.simps) (simp add: digit_char_props)
  qed (subst dec.simps, simp add: digit_char_props)
qed

lemma parse_uint_dec: "n < bound \<Longrightarrow> parse_uint bound (dec n) = Some n"
proof -
  assume n: "n < bound"
  obtain c cs where d: "dec n = c # cs" using dec_nonempty[of n] by (cases "dec n") auto
  have "is_digit_byte c" using dec_digits[of n] d by simp
  then have "c \<noteq> CHR ''+''" by (auto simp: is_digit_byte_def byte_def)
  then show ?thesis
    using n d dec_digits[of n] dec_value[of n] by (simp add: parse_uint_def Let_def)
qed

section \<open>Saturating and bounded counters\<close>

lemma unat_minus_one_max: "unat (- 1 :: 'a::len word) = 2 ^ LENGTH('a) - 1"
  by (simp add: unsigned_minus_1_eq_mask mask_eq_exp_minus_1)

definition sat_inc :: "'a::len word \<Rightarrow> 'a word" where
  "sat_inc w = (if w = - 1 then w else w + 1)"

definition sat_dec :: "'a::len word \<Rightarrow> 'a word" where
  "sat_dec w = (if w = 0 then w else w - 1)"

lemma sat_dec_le: "sat_dec w \<le> w"
  by (metis diff_le_self sat_dec_def unat_minus_one word_le_nat_alt order_refl)

lemma unat_sat_dec: "unat (sat_dec w) = unat w - 1"
  by (simp add: sat_dec_def unat_minus_one)

lemma unat_sat_inc: "unat (sat_inc (w :: 'a::len word)) = min (unat w + 1) (2 ^ LENGTH('a) - 1)"
proof (cases "w = - 1")
  case True
  then show ?thesis by (simp add: sat_inc_def unat_minus_one_max)
next
  case False
  then have "w + 1 \<noteq> 0" by (metis add.inverse_inverse add_eq_0_iff2)
  then have "unat (w + 1) = unat w + 1" by (metis Suc_eq_plus1 add.commute unatSuc)
  moreover have "unat (w + 1) < 2 ^ LENGTH('a)" by (rule unsigned_less)
  ultimately show ?thesis using False by (simp add: sat_inc_def)
qed

text \<open>\<^verbatim>\<open>usize::saturating_add\<close> on a 64-bit target.\<close>

definition usize_max :: nat where
  "usize_max = 2 ^ 64 - 1"

definition usize_sat_add :: "nat \<Rightarrow> nat \<Rightarrow> nat" where
  "usize_sat_add a b = min (a + b) usize_max"

section \<open>An ordered map\<close>

text \<open>\<^verbatim>\<open>BTreeMap\<close>: an association list sorted by its (distinct) keys.\<close>

fun bt_insert :: "'k::linorder \<Rightarrow> 'v \<Rightarrow> ('k \<times> 'v) list \<Rightarrow> ('k \<times> 'v) list" where
  "bt_insert k v [] = [(k, v)]"
| "bt_insert k v ((k', v') # m) =
     (if k < k' then (k, v) # (k', v') # m
      else if k = k' then (k, v) # m
      else (k', v') # bt_insert k v m)"

definition bt_remove :: "'k \<Rightarrow> ('k \<times> 'v) list \<Rightarrow> ('k \<times> 'v) list" where
  "bt_remove k m = filter (\<lambda>p. fst p \<noteq> k) m"

definition bt_sorted :: "('k::linorder \<times> 'v) list \<Rightarrow> bool" where
  "bt_sorted m = sorted_wrt (<) (map fst m)"

lemma bt_sorted_simps [simp]:
  "bt_sorted []"
  "bt_sorted (p # m) \<longleftrightarrow> (\<forall>q\<in>set m. fst p < fst q) \<and> bt_sorted m"
  by (auto simp: bt_sorted_def)

lemma set_bt_insert_keys: "fst ` set (bt_insert k v m) = insert k (fst ` set m)"
  by (induction k v m rule: bt_insert.induct) auto

lemma bt_insert_sorted: "bt_sorted m \<Longrightarrow> bt_sorted (bt_insert k v m)"
proof (induction k v m rule: bt_insert.induct)
  case (2 k v k' v' m)
  have keys: "q \<in> set (bt_insert k v m) \<Longrightarrow> fst q = k \<or> fst q \<in> fst ` set m" for q
    using set_bt_insert_keys[of k v m] by (metis image_eqI insertE)
  from 2 show ?case by (auto dest!: keys intro: less_trans)
qed simp

lemma bt_remove_sorted: "bt_sorted m \<Longrightarrow> bt_sorted (bt_remove k m)"
  by (induction m) (auto simp: bt_remove_def)

lemma map_of_bt_insert: "bt_sorted m \<Longrightarrow> map_of (bt_insert k v m) = (map_of m)(k \<mapsto> v)"
  by (induction k v m rule: bt_insert.induct) (auto simp: fun_eq_iff)

lemma map_of_bt_remove: "map_of (bt_remove k m) = (map_of m)(k := None)"
  by (induction m) (auto simp: bt_remove_def fun_eq_iff)

lemma bt_insert_fresh_set:
  "k \<notin> fst ` set m \<Longrightarrow> set (bt_insert k v m) = insert (k, v) (set m)"
  by (induction k v m rule: bt_insert.induct) auto

lemma bt_insert_fresh_length:
  "k \<notin> fst ` set m \<Longrightarrow> length (bt_insert k v m) = Suc (length m)"
  by (induction k v m rule: bt_insert.induct) auto

lemma set_bt_remove: "set (bt_remove k m) = {p \<in> set m. fst p \<noteq> k}"
  by (simp add: bt_remove_def)

lemma bt_sorted_distinct: "bt_sorted m \<Longrightarrow> distinct (map fst m)"
  by (simp add: bt_sorted_def strict_sorted_iff)

lemma bt_sorted_map_of: "bt_sorted m \<Longrightarrow> map_of m k = Some v \<longleftrightarrow> (k, v) \<in> set m"
  by (simp add: bt_sorted_distinct)

lemma bt_remove_length:
  "bt_sorted m \<Longrightarrow> (k, v) \<in> set m \<Longrightarrow> Suc (length (bt_remove k m)) = length m"
proof (induction m)
  case (Cons p m)
  show ?case
  proof (cases "fst p = k")
    case True
    with Cons.prems have "\<forall>q\<in>set m. fst q \<noteq> k" by auto
    then have "bt_remove k m = m" by (simp add: bt_remove_def)
    then show ?thesis using True by (simp add: bt_remove_def)
  next
    case False
    with Cons show ?thesis by (auto simp: bt_remove_def)
  qed
qed simp

section \<open>Filters with effects\<close>

text \<open>\<^verbatim>\<open>positions.filter(|p| test(p))\<close> where the test reads and writes the state.\<close>

fun filter_st :: "('s \<Rightarrow> 'a \<Rightarrow> bool \<times> 's) \<Rightarrow> 'a list \<Rightarrow> 's \<Rightarrow> 'a list \<times> 's" where
  "filter_st t [] s = ([], s)"
| "filter_st t (x # xs) s =
     (let (b, s1) = t s x; (ys, s2) = filter_st t xs s1 in (if b then x # ys else ys, s2))"

lemma filter_st_pure:
  assumes "\<And>s x. I s \<Longrightarrow> fst (t s x) = p x \<and> I (snd (t s x))"
  shows "I s \<Longrightarrow> fst (filter_st t xs s) = filter p xs \<and> I (snd (filter_st t xs s))"
proof (induction xs arbitrary: s)
  case (Cons x xs)
  obtain b s1 where 1: "t s x = (b, s1)" by (cases "t s x")
  with assms[OF Cons.prems, of x] have "b = p x" "I s1" by auto
  with 1 Cons.IH[of s1] show ?case by (auto simp: Let_def split: prod.splits)
qed simp

end
