(* ===== verification/Util.thy ===== *)
theory Util
  imports Prelude
begin

unbundle bit_operations_syntax

text \<open>
  \<^verbatim>\<open>src/util.rs\<close>: CIDR matching, queue identifiers, mailbox formatting, the syntactic
  address check, AUTH base64, and the formatting helpers. The base64 codec is the crate
  \<^verbatim>\<open>base64\<close>, which is not in the repository: the operations that use it take its
  encoder and decoder as arguments.
\<close>

section \<open>IP addresses and networks\<close>

text \<open>\<^verbatim>\<open>IpAddr\<close> with its octets in network order (4 or 16 of them).\<close>

type_synonym u8 = "8 word"

datatype ip_addr = V4 "u8 list" | V6 "u8 list"

fun ip_wf :: "ip_addr \<Rightarrow> bool" where
  "ip_wf (V4 os) = (length os = 4)"
| "ip_wf (V6 os) = (length os = 16)"

definition mapped_prefix :: "u8 list" where
  "mapped_prefix = replicate 10 0 @ [255, 255]"

fun to_ipv4_mapped :: "u8 list \<Rightarrow> u8 list option" where
  "to_ipv4_mapped os = (if take 12 os = mapped_prefix then Some (drop 12 os) else None)"

fun normalize_ip :: "ip_addr \<Rightarrow> ip_addr" where
  "normalize_ip (V6 v6) = (case to_ipv4_mapped v6 of Some v4 \<Rightarrow> V4 v4 | None \<Rightarrow> V6 v6)"
| "normalize_ip (V4 v4) = V4 v4"

definition prefix_match :: "u8 list \<Rightarrow> u8 list \<Rightarrow> nat \<Rightarrow> bool" where
  "prefix_match net candidate pfx =
     (let full_bytes = pfx div 8; remaining_bits = pfx mod 8 in
      if take full_bytes net \<noteq> take full_bytes candidate then False
      else if remaining_bits = 0 then True
      else let mask = push_bit (8 - remaining_bits) (255 :: u8)
           in net ! full_bytes AND mask = candidate ! full_bytes AND mask)"

record cidr =
  base :: ip_addr
  prefix_len :: nat

definition cidr_contains :: "cidr \<Rightarrow> ip_addr \<Rightarrow> bool" where
  "cidr_contains c ip =
     (case (base c, normalize_ip ip) of
        (V4 net, V4 candidate) \<Rightarrow> prefix_match net candidate (prefix_len c)
      | (V6 net, V6 candidate) \<Rightarrow> prefix_match net candidate (prefix_len c)
      | _ \<Rightarrow> False)"

definition is_loopback :: "ip_addr \<Rightarrow> bool" where
  "is_loopback ip = (case normalize_ip ip of
      V4 os \<Rightarrow> (case os of a # _ \<Rightarrow> a = 127 | [] \<Rightarrow> False)
    | V6 os \<Rightarrow> os = replicate 15 0 @ [1])"

text \<open>The standard library's address parser: dotted decimal without leading zeros, and the
  eight-group form with at most one \<open>::\<close>, whose last two groups may be dotted decimal.\<close>

fun split_all :: "char \<Rightarrow> str \<Rightarrow> str list" where
  "split_all c [] = [[]]"
| "split_all c (x # xs) =
     (if x = c then [] # split_all c xs
      else (case split_all c xs of p # ps \<Rightarrow> (x # p) # ps | [] \<Rightarrow> [[x]]))"

definition parse_octet :: "str \<Rightarrow> u8 option" where
  "parse_octet s =
     (if s = [] \<or> 3 < length s \<or> \<not> list_all is_digit_byte s \<or> (1 < length s \<and> hd s = CHR ''0'')
      then None else map_option of_nat (parse_uint 256 s))"

definition parse_ipv4 :: "str \<Rightarrow> u8 list option" where
  "parse_ipv4 s = (let ps = split_all CHR ''.'' s in
     if length ps = 4 then those (map parse_octet ps) else None)"

definition hex_val :: "char \<Rightarrow> nat option" where
  "hex_val c = (let n = byte c in
     if 48 \<le> n \<and> n \<le> 57 then Some (n - 48)
     else if 97 \<le> n \<and> n \<le> 102 then Some (n - 87)
     else if 65 \<le> n \<and> n \<le> 70 then Some (n - 55) else None)"

definition parse_group :: "str \<Rightarrow> u8 list option" where
  "parse_group s =
     (if s = [] \<or> 4 < length s then None
      else case those (map hex_val s) of
        None \<Rightarrow> None
      | Some ds \<Rightarrow> (let n = foldl (\<lambda>a d. 16 * a + d) 0 ds in Some [of_nat (n div 256), of_nat (n mod 256)]))"

fun parse_groups :: "bool \<Rightarrow> str list \<Rightarrow> u8 list option" where
  "parse_groups v4 [] = Some []"
| "parse_groups v4 [g] =
     (case parse_group g of Some os \<Rightarrow> Some os | None \<Rightarrow> if v4 then parse_ipv4 g else None)"
| "parse_groups v4 (g # gs) =
     (case parse_group g of None \<Rightarrow> None | Some os \<Rightarrow> map_option ((@) os) (parse_groups v4 gs))"

definition parse_ipv6 :: "str \<Rightarrow> u8 list option" where
  "parse_ipv6 s =
     (let groups = (\<lambda>v4 t. if t = [] then Some [] else parse_groups v4 (split_all CHR '':'' t)) in
      case find_sub ''::'' s of
        None \<Rightarrow> (case groups True s of Some os \<Rightarrow> if length os = 16 then Some os else None | None \<Rightarrow> None)
      | Some i \<Rightarrow> (case (groups False (take i s), groups True (drop (i + 2) s)) of
            (Some hs, Some ts) \<Rightarrow>
              if length hs + length ts \<le> 14
              then Some (hs @ replicate (16 - (length hs + length ts)) 0 @ ts) else None
          | _ \<Rightarrow> None))"

definition parse_ip :: "str \<Rightarrow> ip_addr option" where
  "parse_ip s = (case parse_ipv4 s of Some os \<Rightarrow> Some (V4 os) | None \<Rightarrow> map_option V6 (parse_ipv6 s))"

definition bq :: "str \<Rightarrow> str" where
  "bq s = BACKTICK # s @ [BACKTICK]"

definition is_ipv4 :: "ip_addr \<Rightarrow> bool" where
  "is_ipv4 ip = (case ip of V4 _ \<Rightarrow> True | V6 _ \<Rightarrow> False)"

definition cidr_parse :: "str \<Rightarrow> str + cidr" where
  "cidr_parse input =
     (let text = trim input in
      if text = [] then Inl ''empty CIDR entry''
      else
        let (addr_part, prefix_part) =
              (case split_once CHR ''/'' text of Some (a, p) \<Rightarrow> (a, Some p) | None \<Rightarrow> (text, None)) in
        case parse_ip addr_part of
          None \<Rightarrow> Inl (bq addr_part @ '' is not a valid IP address'')
        | Some ip \<Rightarrow>
            let b = normalize_ip ip;
                max_prefix = (if is_ipv4 b then 32 else 128)
            in case (case prefix_part of
                       Some p \<Rightarrow> (case parse_uint 256 (trim p) of
                           Some n \<Rightarrow> Inr n
                         | None \<Rightarrow> Inl (bq p @ '' is not a valid prefix length''))
                     | None \<Rightarrow> Inr max_prefix) of
                 Inl e \<Rightarrow> Inl e
               | Inr pfx \<Rightarrow>
                   if max_prefix < pfx
                   then Inl (''prefix /'' @ dec pfx @ '' is out of range for this address family (max /''
                             @ dec max_prefix @ '')'')
                   else Inr \<lparr>base = b, prefix_len = pfx\<rparr>)"

definition is_allowed :: "cidr list \<Rightarrow> ip_addr \<Rightarrow> bool" where
  "is_allowed networks peer = (networks = [] \<or> list_ex (\<lambda>n. cidr_contains n peer) networks)"

section \<open>Identifiers\<close>

definition base36_alphabet :: str where
  "base36_alphabet = ''0123456789abcdefghijklmnopqrstuvwxyz''"

text \<open>The digits are pushed least significant first and the vector is reversed at the end.\<close>

fun base36_loop :: "nat \<Rightarrow> str \<Rightarrow> str" where
  "base36_loop value out =
     (if 0 < value then base36_loop (value div 36) (out @ [base36_alphabet ! (value mod 36)]) else out)"

declare base36_loop.simps [simp del]

definition base36 :: "nat \<Rightarrow> str" where
  "base36 value = (if value = 0 then ''0'' else rev (base36_loop value []))"

definition hex_digit_char :: "nat \<Rightarrow> char" where
  "hex_digit_char d = (if d < 10 then char_of (48 + d) else char_of (87 + d))"

fun hex_pad :: "nat \<Rightarrow> nat \<Rightarrow> str" where
  "hex_pad 0 n = []"
| "hex_pad (Suc w) n = hex_pad w (n div 16) @ [hex_digit_char (n mod 16)]"

text \<open>\<open>seq & 0xffff\<close> has at most four hexadecimal digits, which is what \<^verbatim>\<open>{:04x}\<close> prints.\<close>

definition new_queue_id :: "nat \<Rightarrow> u64 \<Rightarrow> str \<times> u64" where
  "new_queue_id millis seq = (base36 millis @ ''-'' @ hex_pad 4 (unat (seq AND 0xFFFF)), seq + 1)"

section \<open>Header encoding helpers\<close>

definition specials :: "char set" where
  "specials = set (''()<>[]:;@,.'' @ [BACKSLASH, DQ])"

definition quote_char :: "str \<Rightarrow> str" where
  "quote_char ch = (if ch = [DQ] \<or> ch = [BACKSLASH] then [BACKSLASH] else []) @ (if is_control ch then [] else ch)"

definition needs_quoting :: "str \<Rightarrow> bool" where
  "needs_quoting t = list_ex (\<lambda>ch. (case ch of [c] \<Rightarrow> c \<in> specials | _ \<Rightarrow> False) \<or> is_control ch) (chars t)"

definition encode_display_name :: "(bytes \<Rightarrow> str) \<Rightarrow> str \<Rightarrow> str" where
  "encode_display_name b64e name =
     (let trimmed = trim name in
      if trimmed = [] then []
      else if starts_with ''=?'' trimmed \<and> ends_with ''?='' trimmed then trimmed
      else if 2 \<le> length trimmed \<and> starts_with [DQ] trimmed \<and> ends_with [DQ] trimmed then trimmed
      else if \<not> is_ascii trimmed then ''=?UTF-8?B?'' @ b64e trimmed @ ''?=''
      else if needs_quoting trimmed then [DQ] @ concat (map quote_char (chars trimmed)) @ [DQ]
      else trimmed)"

definition format_mailbox :: "(bytes \<Rightarrow> str) \<Rightarrow> str \<Rightarrow> str \<Rightarrow> str" where
  "format_mailbox b64e display_name address =
     (let encoded = encode_display_name b64e display_name in
      if encoded = [] then ''<'' @ address @ ''>'' else encoded @ '' <'' @ address @ ''>'')"

definition address_domain :: "str \<Rightarrow> str" where
  "address_domain address = (case rsplit_once CHR ''@'' address of
      Some (_, domain) \<Rightarrow> if domain \<noteq> [] then domain else ''localhost''
    | None \<Rightarrow> ''localhost'')"

definition bad_address_char :: "str \<Rightarrow> bool" where
  "bad_address_char c = (is_ws c \<or> c = ''<'' \<or> c = ''>'' \<or> c = '','')"

definition looks_like_email :: "str \<Rightarrow> bool" where
  "looks_like_email address =
     (let addr = trim address in
      if addr = [] \<or> 320 < length addr then False
      else if list_ex bad_address_char (chars addr) then False
      else case split_once CHR ''@'' addr of
        None \<Rightarrow> False
      | Some (local, domain) \<Rightarrow>
          if local = [] \<or> domain = [] \<or> starts_with ''.'' domain \<or> ends_with ''.'' domain then False
          else CHR ''@'' \<notin> set domain)"

section \<open>Base64, formatting, secrets\<close>

definition b64_decode :: "(str \<Rightarrow> bytes option) \<Rightarrow> str \<Rightarrow> bytes option" where
  "b64_decode b64d data = b64d (trim data)"

definition human_duration :: "nat \<Rightarrow> str" where
  "human_duration seconds =
     (let days = seconds div 86400; hours = (seconds mod 86400) div 3600;
          minutes = (seconds mod 3600) div 60; secs = seconds mod 60 in
      if 0 < days then dec days @ ''d '' @ dec hours @ ''h '' @ dec minutes @ ''m''
      else if 0 < hours then dec hours @ ''h '' @ dec minutes @ ''m''
      else if 0 < minutes then dec minutes @ ''m '' @ dec secs @ ''s''
      else dec secs @ ''s'')"

text \<open>The accumulated difference of the comparison loop.\<close>

fun secret_diff :: "bytes \<Rightarrow> bytes \<Rightarrow> u8 \<Rightarrow> u8" where
  "secret_diff (a # as) (b # bs) diff =
     secret_diff as bs (diff OR (of_nat (byte a) XOR of_nat (byte b)))"
| "secret_diff _ _ diff = diff"

definition secret_eq :: "str \<Rightarrow> str \<Rightarrow> bool" where
  "secret_eq a b = (if length a \<noteq> length b then False else secret_diff a b 0 = 0)"

abbreviation ellipsis :: str where
  "ellipsis \<equiv> [CHR 0xE2, CHR 0x80, CHR 0xA6]"

definition truncate_str :: "str \<Rightarrow> nat \<Rightarrow> str" where
  "truncate_str input max_chars =
     (if length (chars input) \<le> max_chars then input
      else concat (take (max_chars - 1) (chars input)) @ ellipsis)"

lemmas [str_defs] = bad_address_char_def looks_like_email_def address_domain_def
  encode_display_name_def format_mailbox_def needs_quoting_def quote_char_def specials_def
  truncate_str_def bq_def


section \<open>Networks as numeric prefixes\<close>

fun octets_val :: "u8 list \<Rightarrow> nat" where
  "octets_val [] = 0"
| "octets_val (x # xs) = unat x * 256 ^ length xs + octets_val xs"

lemma octets_val_less: "octets_val xs < 256 ^ length xs"
proof (induction xs)
  case (Cons x xs)
  have "unat x < 256" using unsigned_less[of x] by simp
  then have "unat x * 256 ^ length xs + 256 ^ length xs \<le> 256 * 256 ^ length xs"
    by (metis Suc_leI mult_Suc mult_le_mono1 add.commute)
  with Cons have "unat x * 256 ^ length xs + octets_val xs < 256 * 256 ^ length xs" by linarith
  then show ?case by simp
qed simp

lemma mask_eq_iff:
  fixes x y :: u8
  assumes "k < 8"
  shows "x AND push_bit k 255 = y AND push_bit k 255 \<longleftrightarrow> unat x div 2 ^ k = unat y div 2 ^ k"
proof -
  have m: "bit (push_bit k 255 :: u8) n \<longleftrightarrow> k \<le> n \<and> n < 8" for n
  proof -
    have "(255 :: u8) = - 1" by simp
    then show ?thesis by (simp only: bit_push_bit_iff bit_minus_1_iff) (auto simp: possible_bit_word)
  qed
  have "x AND push_bit k 255 = y AND push_bit k 255 \<longleftrightarrow> drop_bit k x = drop_bit k y"
    (is "?l = ?r")
  proof
    assume ?l
    then have "\<forall>n. bit (x AND push_bit k 255) n = bit (y AND push_bit k 255) n" by simp
    then have "bit x n = bit y n" if "k \<le> n" "n < 8" for n
      using that by (simp only: bit_and_iff m) blast
    then have "bit x n = bit y n" if "k \<le> n" for n
      using that bit_imp_le_length[of x n] bit_imp_le_length[of y n] by auto
    then show ?r by (auto intro!: bit_word_eqI simp: bit_drop_bit_eq)
  next
    assume ?r
    then have "bit x (k + n) = bit y (k + n)" for n by (metis bit_drop_bit_eq comp_apply)
    then have "bit x n = bit y n" if "k \<le> n" for n by (metis le_Suc_ex that)
    then show ?l by (intro bit_word_eqI) (simp only: bit_and_iff m, blast)
  qed
  also have "\<dots> \<longleftrightarrow> unat x div 2 ^ k = unat y div 2 ^ k"
    by (metis drop_bit_eq_div unat_drop_bit_eq word_unat_eq_iff)
  finally show ?thesis .
qed

lemma div_shift:
  fixes a v b :: nat
  assumes "v < b * d" "0 < d"
  shows "(a * (b * d) + v) div d = a * b + v div d"
  using assms by (metis div_mult_self3 less_not_refl2 mult.assoc mult.commute)

lemma mult_add_inject:
  fixes a b r r' m :: nat
  assumes "r < m" "r' < m"
  shows "a * m + r = b * m + r' \<longleftrightarrow> a = b \<and> r = r'"
proof
  assume e: "a * m + r = b * m + r'"
  have "a = (a * m + r) div m" "b = (b * m + r') div m" using assms by simp_all
  then have "a = b" using e by simp
  then show "a = b \<and> r = r'" using e by simp
qed simp

lemma prefix_match_iff:
  "length net = length cand \<Longrightarrow> pfx \<le> 8 * length net \<Longrightarrow>
   prefix_match net cand pfx \<longleftrightarrow>
     octets_val net div 2 ^ (8 * length net - pfx) = octets_val cand div 2 ^ (8 * length net - pfx)"
proof (induction net cand arbitrary: pfx rule: list_induct2)
  case Nil
  then show ?case by (simp add: prefix_match_def)
next
  case (Cons x xs y ys)
  let ?n = "length xs"
  have b: "(256::nat) ^ ?n = 2 ^ (8 * ?n)" by (simp add: power_mult)
  have vx: "octets_val xs < 2 ^ (8 * ?n)" and vy: "octets_val ys < 2 ^ (8 * ?n)"
    using octets_val_less[of xs] octets_val_less[of ys] Cons.hyps b by simp_all
  show ?case
  proof (cases "8 \<le> pfx")
    case True
    then obtain q where q: "pfx = 8 + q" by (metis le_Suc_ex)
    let ?d = "(2::nat) ^ (8 * ?n - q)"
    have qn: "q \<le> 8 * ?n" using Cons.prems q by simp
    have e8: "(8 + q) div 8 = Suc (q div 8)" "(8 + q) mod 8 = q mod 8" by simp_all
    from qn have d: "2 ^ (8 * ?n) = 2 ^ q * ?d" by (metis le_add_diff_inverse power_add)
    have "prefix_match (x # xs) (y # ys) pfx \<longleftrightarrow> x = y \<and> prefix_match xs ys q"
      using e8 by (auto simp: q prefix_match_def Let_def)
    also have "\<dots> \<longleftrightarrow> x = y \<and> octets_val xs div ?d = octets_val ys div ?d"
      using Cons.IH[OF qn] by simp
    also have "\<dots> \<longleftrightarrow> unat x * 2 ^ q + octets_val xs div ?d = unat y * 2 ^ q + octets_val ys div ?d"
    proof -
      have "octets_val xs div ?d < 2 ^ q" "octets_val ys div ?d < 2 ^ q"
        using vx vy d by (simp_all add: div_less_iff_less_mult)
      then show ?thesis
        by (simp add: mult_add_inject word_unat_eq_iff)
    qed
    also have "\<dots> \<longleftrightarrow> octets_val (x # xs) div ?d = octets_val (y # ys) div ?d"
      using div_shift[of "octets_val xs" "2 ^ q" ?d "unat x"] vx
        div_shift[of "octets_val ys" "2 ^ q" ?d "unat y"] vy d b Cons.hyps by simp
    finally show ?thesis by (simp add: q)
  next
    case False
    then have pf: "pfx div 8 = 0" "pfx mod 8 = pfx" by simp_all
    have "prefix_match (x # xs) (y # ys) pfx \<longleftrightarrow> unat x div 2 ^ (8 - pfx) = unat y div 2 ^ (8 - pfx)"
    proof (cases "pfx = 0")
      case True
      have "unat x < 2 ^ 8" "unat y < 2 ^ 8" using unsigned_less[of x] unsigned_less[of y] by simp_all
      then show ?thesis using True by (simp add: prefix_match_def)
    next
      case nz: False
      then show ?thesis
        using mask_eq_iff[of "8 - pfx" x y] by (simp add: prefix_match_def pf)
    qed
    moreover have e: "(2::nat) ^ (8 * length (x # xs) - pfx) = 2 ^ (8 - pfx) * 2 ^ (8 * ?n)"
      using False by (simp add: power_add [symmetric])
    moreover have "octets_val (z # zs) div (2 ^ (8 - pfx) * 2 ^ (8 * ?n)) = unat z div 2 ^ (8 - pfx)"
      if "length zs = ?n" for z zs
    proof -
      have "octets_val (z # zs) div 2 ^ (8 * ?n) = unat z"
        using octets_val_less[of zs] that b by simp
      then show ?thesis by (metis div_mult2_eq mult.commute)
    qed
    ultimately show ?thesis using Cons.hyps by simp
  qed
qed

section \<open>Secrets\<close>

lemma xor_eq_zero_iff: "v XOR w = 0 \<longleftrightarrow> v = w" for v w :: "'a::len word"
  by (auto simp: bit_eq_iff bit_xor_iff)

lemma secret_diff_zero:
  "length a = length b \<Longrightarrow> secret_diff a b d = 0 \<longleftrightarrow> d = 0 \<and> a = b"
proof (induction a b arbitrary: d rule: list_induct2)
  case (Cons x xs y ys)
  have "(of_nat (byte x) XOR of_nat (byte y) :: u8) = 0 \<longleftrightarrow> x = y"
  proof -
    have "(of_nat (byte x) XOR of_nat (byte y) :: u8) = 0 \<longleftrightarrow> (of_nat (byte x) :: u8) = of_nat (byte y)"
      by (rule xor_eq_zero_iff)
    also have "\<dots> \<longleftrightarrow> byte x = byte y"
      using byte_less[of x] byte_less[of y] by (simp add: word_of_nat_eq_iff take_bit_eq_mod)
    finally show ?thesis by (simp add: byte_inject)
  qed
  with Cons show ?case by (simp add: or_eq_0_iff conj_assoc)
qed simp

lemma secret_eq_iff: "secret_eq a b \<longleftrightarrow> a = b"
  by (auto simp: secret_eq_def secret_diff_zero)

section \<open>Queue identifiers\<close>

definition digit36 :: "char \<Rightarrow> nat" where
  "digit36 c = (if byte c < 58 then byte c - 48 else byte c - 87)"

lemma digit36_alphabet: "d < 36 \<Longrightarrow> digit36 (base36_alphabet ! d) = d \<and> base36_alphabet ! d \<noteq> CHR ''-''"
proof -
  assume "d < 36"
  moreover have "\<forall>d\<in>set [0..<36]. digit36 (base36_alphabet ! d) = d \<and> base36_alphabet ! d \<noteq> CHR ''-''"
    by code_simp
  ultimately show ?thesis by simp
qed

definition base36_val :: "str \<Rightarrow> nat" where
  "base36_val s = foldr (\<lambda>c a. digit36 c + 36 * a) (rev s) 0"

lemma base36_loop_digits:
  "\<exists>ds. base36_loop v out = out @ ds \<and> foldr (\<lambda>c a. digit36 c + 36 * a) ds 0 = v \<and> CHR ''-'' \<notin> set ds"
proof (induction v out rule: base36_loop.induct)
  case (1 v out)
  show ?case
  proof (cases "0 < v")
    case True
    let ?d = "base36_alphabet ! (v mod 36)"
    from 1 True obtain ds where
      "base36_loop (v div 36) (out @ [?d]) = (out @ [?d]) @ ds"
      "foldr (\<lambda>c a. digit36 c + 36 * a) ds 0 = v div 36" "CHR ''-'' \<notin> set ds" by blast
    with True show ?thesis
      using digit36_alphabet[of "v mod 36"]
      by (intro exI[of _ "?d # ds"]) (auto simp: base36_loop.simps[of v out])
  qed (simp add: base36_loop.simps)
qed

lemma base36_val_base36: "base36_val (base36 v) = v"
  using base36_loop_digits[of v "[]"]
  by (auto simp: base36_def base36_val_def digit36_def byte_def)

lemma base36_no_dash: "CHR ''-'' \<notin> set (base36 v)"
  using base36_loop_digits[of v "[]"] by (auto simp: base36_def)

lemma byte_hex_digit_char: "a < 16 \<Longrightarrow> byte (hex_digit_char a) = (if a < 10 then 48 + a else 87 + a)"
  by (simp add: hex_digit_char_def)

lemma hex_digit_char_inject:
  assumes "a < 16" "b < 16" "hex_digit_char a = hex_digit_char b"
  shows "a = b"
proof -
  have "byte (hex_digit_char a) = byte (hex_digit_char b)" by (rule arg_cong[OF assms(3)])
  then have "(if a < 10 then 48 + a else 87 + a) = (if b < 10 then 48 + b else 87 + b)"
    by (simp only: byte_hex_digit_char[OF assms(1)] byte_hex_digit_char[OF assms(2)])
  then show ?thesis using assms(1,2) by (simp split: if_splits)
qed

lemma hex_pad_inject: "hex_pad w m = hex_pad w n \<Longrightarrow> m mod 16 ^ w = n mod 16 ^ w"
proof (induction w arbitrary: m n)
  case (Suc w)
  from Suc.prems have "hex_digit_char (m mod 16) = hex_digit_char (n mod 16)" "hex_pad w (m div 16) = hex_pad w (n div 16)"
    by simp_all
  then have "m mod 16 = n mod 16" "(m div 16) mod 16 ^ w = (n div 16) mod 16 ^ w"
    using Suc.IH[of "m div 16" "n div 16"] hex_digit_char_inject[of "m mod 16" "n mod 16"] by simp_all
  then show ?case by (simp add: mod_mult2_eq)
qed simp

lemma new_queue_id_inject:
  assumes "fst (new_queue_id m s) = fst (new_queue_id m' s')"
  shows "m = m' \<and> s AND 0xFFFF = s' AND 0xFFFF"
proof -
  let ?h = "\<lambda>s :: u64. hex_pad 4 (unat (s AND 0xFFFF))"
  from assms have e: "base36 m @ CHR ''-'' # ?h s = base36 m' @ CHR ''-'' # ?h s'"
    by (simp add: new_queue_id_def)
  have s: "split_once CHR ''-'' (base36 m @ CHR ''-'' # h) = Some (base36 m, h)" for m h
    using base36_no_dash by (simp add: split_once_Some)
  have "Some (base36 m, ?h s) = Some (base36 m', ?h s')"
    using arg_cong[OF e, of "split_once CHR ''-''"] by (simp only: s)
  then have "base36 m = base36 m'" and h: "?h s = ?h s'" by (simp_all only: option.inject prod.inject)
  then have "m = m'" by (metis base36_val_base36)
  moreover have "unat (s AND 0xFFFF) mod 16 ^ 4 = unat (s' AND 0xFFFF) mod 16 ^ 4"
    using h by (rule hex_pad_inject)
  moreover have "unat (t AND 0xFFFF) < 16 ^ 4" for t :: u64
  proof -
    have "unat (t AND 0xFFFF) \<le> unat (0xFFFF :: u64)"
      by (rule word_and_le1 [THEN word_le_nat_alt [THEN iffD1]])
    then show ?thesis by simp
  qed
  ultimately show ?thesis by (simp add: word_unat_eq_iff)
qed

section \<open>Addresses\<close>

text \<open>What the syntactic check accepts: after trimming, one \<open>@\<close> between a non-empty local part
  and a non-empty domain that neither starts nor ends with a dot, and no forbidden character.\<close>

lemma looks_like_email_iff:
  "looks_like_email a \<longleftrightarrow>
     length (trim a) \<le> 320 \<and> (\<forall>x\<in>set (chars (trim a)). \<not> bad_address_char x) \<and>
     (\<exists>l d. trim a = l @ CHR ''@'' # d \<and> CHR ''@'' \<notin> set l \<and> CHR ''@'' \<notin> set d \<and> l \<noteq> [] \<and> d \<noteq> []
        \<and> \<not> starts_with ''.'' d \<and> \<not> ends_with ''.'' d)"
proof (cases "split_once CHR ''@'' (trim a)")
  case None
  then have "CHR ''@'' \<notin> set (trim a)" by (simp add: split_once_None)
  then have "\<not> (\<exists>l d. trim a = l @ CHR ''@'' # d)" by auto
  moreover have "\<not> looks_like_email a" using None by (auto simp: looks_like_email_def Let_def)
  ultimately show ?thesis by blast
next
  case (Some p)
  obtain l d where p: "p = (l, d)" by (cases p)
  have u: "trim a = l' @ CHR ''@'' # d' \<and> CHR ''@'' \<notin> set l' \<longleftrightarrow> l' = l \<and> d' = d" for l' d'
    using Some p split_once_Some[of "CHR ''@''" "trim a" l' d'] by auto
  have ne: "trim a \<noteq> []" using Some by auto
  have E: "(\<exists>l' d'. trim a = l' @ CHR ''@'' # d' \<and> CHR ''@'' \<notin> set l' \<and> CHR ''@'' \<notin> set d' \<and> l' \<noteq> [] \<and> d' \<noteq> []
        \<and> \<not> starts_with ''.'' d' \<and> \<not> ends_with ''.'' d') \<longleftrightarrow>
      CHR ''@'' \<notin> set d \<and> l \<noteq> [] \<and> d \<noteq> [] \<and> \<not> starts_with ''.'' d \<and> \<not> ends_with ''.'' d"
    using u by metis
  show ?thesis
    unfolding E using Some p ne by (auto simp: looks_like_email_def list_ex_iff Let_def)
qed

text \<open>No byte that could end the \<open><...>\<close> path or the command line survives the check.\<close>

lemma looks_like_email_bytes:
  assumes "looks_like_email a" "utf8_valid (trim a)"
  shows "c \<in> set (trim a) \<Longrightarrow> c \<noteq> CR \<and> c \<noteq> LF \<and> c \<noteq> CHR '' '' \<and> c \<noteq> CHR ''<'' \<and> c \<noteq> CHR ''>''"
proof -
  assume c: "c \<in> set (trim a)"
  have "bad_address_char [c] \<Longrightarrow> byte c < 128 \<Longrightarrow> False"
    using assms c valid_ascii_byte_char[of "trim a" c] by (auto simp: looks_like_email_iff)
  then show ?thesis
    by (auto simp: bad_address_char_def is_ws_byte_iff byte_def)
qed

lemma looks_like_email_domain:
  assumes "looks_like_email a" "trim a = a"
  shows "\<exists>l. a = l @ CHR ''@'' # address_domain a \<and> address_domain a \<noteq> []"
proof -
  from assms obtain l d where a: "a = l @ CHR ''@'' # d" "CHR ''@'' \<notin> set d" "d \<noteq> []"
    by (auto simp: looks_like_email_iff)
  then have "rsplit_once CHR ''@'' a = Some (l, d)" by (simp add: rsplit_once_Some)
  with a show ?thesis by (auto simp: address_domain_def)
qed

lemma address_domain_nonempty: "address_domain a \<noteq> []"
  by (auto simp: address_domain_def split: option.splits)

end
