(* ===== verification/Config.thy ===== *)
theory Config
  imports Util "HOL-Library.Log_Nat"
begin

text \<open>The configuration schema (src/config.rs): one record per section with the defaults of its
  \<^verbatim>\<open>Default\<close> implementation, the accessors the other components use, the redaction of secrets
  for the admin API and their restoration, and \<^verbatim>\<open>Config::validate\<close> as a sequence of checks that
  ends at the first error. Counters and limits of the configuration are naturals; the message size,
  which the code multiplies, is kept as a 64 bit word. Paths are strings. Reading and writing the
  file is not modelled.\<close>

section \<open>Sections of the document\<close>

definition REDACTED :: str where "REDACTED = ''__redacted__''"

record inbound_user =
  iu_username :: str
  iu_password :: str

record smtp_detail =
  sd_id :: str
  sd_label :: str
  sd_hostname :: str
  sd_username :: str
  sd_password :: str

datatype submission_mode = ModeQueue | ModeDirect | ModeHybrid

fun submission_mode_str :: "submission_mode \<Rightarrow> str" where
  "submission_mode_str ModeQueue = ''queue''"
| "submission_mode_str ModeDirect = ''direct''"
| "submission_mode_str ModeHybrid = ''hybrid''"

record server_config =
  sc_bind_address :: str
  hostname :: str
  max_message_size_mb :: u64
  sc_timeout_seconds :: nat
  max_connections :: nat
  max_recipients_per_message :: nat
  require_auth :: bool
  submission_mode :: submission_mode
  greeting :: "str option"
  sc_allowed_networks :: "str list"
  auth_users :: "inbound_user list"

definition default_server :: server_config where
  "default_server = \<lparr>sc_bind_address = ''0.0.0.0:1025'', hostname = ''smtp-proxy.local'',
     max_message_size_mb = 25, sc_timeout_seconds = 30, max_connections = 512,
     max_recipients_per_message = 1000, require_auth = False, submission_mode = ModeQueue,
     greeting = None, sc_allowed_networks = [], auth_users = []\<rparr>"

datatype strategy = RoundRobin | Weighted | LeastUsed | Failover

fun strategy_str :: "strategy \<Rightarrow> str" where
  "strategy_str RoundRobin = ''round_robin''"
| "strategy_str Weighted = ''weighted''"
| "strategy_str LeastUsed = ''least_used''"
| "strategy_str Failover = ''failover''"

datatype sticky_mode = StickyNone | StickySender | StickyRecipientDomain

record domain_override =
  do_domain :: str
  do_relay_ids :: "str list"

record routing_config =
  strategy :: strategy
  sticky :: sticky_mode
  fallback_on_failure :: bool
  max_attempts_per_message :: nat
  domain_overrides :: "domain_override list"

definition default_routing :: routing_config where
  "default_routing = \<lparr>strategy = RoundRobin, sticky = StickyNone, fallback_on_failure = True,
     max_attempts_per_message = 3, domain_overrides = []\<rparr>"

record content_template =
  ct_id :: str
  match_subject :: str
  ct_subject :: str
  ct_body :: str

definition is_usable :: "content_template \<Rightarrow> bool" where
  "is_usable t = (trim (match_subject t) \<noteq> [] \<and> (trim (ct_subject t) \<noteq> [] \<or> trim (ct_body t) \<noteq> []))"

record rotation_config =
  ro_enabled :: bool
  templates :: "content_template list"

definition rotation_usable :: "rotation_config \<Rightarrow> content_template list" where
  "rotation_usable r = filter is_usable (templates r)"

section \<open>Recipient validation servers\<close>

datatype probe_error_policy = ProbeAllow | ProbeSkip

record validation_server =
  vs_id :: str
  base_url :: str
  vs_username :: str
  vs_password :: str
  token :: str

record yahoo_endpoint =
  ye_id :: str
  ye_enabled :: bool
  ye_url :: str
  ye_method :: str
  ye_api_key :: str

record yahoo_config =
  yc_enabled :: bool
  yc_url :: str
  yc_method :: str
  yc_api_key :: str
  extra_domains :: "str list"
  concurrency :: nat
  endpoints :: "yahoo_endpoint list"

record validation_config =
  va_enabled :: bool
  va_timeout_seconds :: nat
  on_probe_error :: probe_error_policy
  servers :: "validation_server list"
  yahoo :: yahoo_config

definition default_yahoo :: yahoo_config where
  "default_yahoo = \<lparr>yc_enabled = False, yc_url = [], yc_method = ''POST'', yc_api_key = [],
     extra_domains = [], concurrency = 5, endpoints = []\<rparr>"

definition default_validation :: validation_config where
  "default_validation = \<lparr>va_enabled = False, va_timeout_seconds = 20, on_probe_error = ProbeAllow,
     servers = [], yahoo = default_yahoo\<rparr>"

definition server_is_usable :: "validation_server \<Rightarrow> bool" where
  "server_is_usable s = (trim (base_url s) \<noteq> [])"

definition contains_sub :: "str \<Rightarrow> str \<Rightarrow> bool" where
  "contains_sub pat s = (find_sub pat s \<noteq> None)"

definition is_http_verifier :: "validation_server \<Rightarrow> bool" where
  "is_http_verifier s =
     (let i = to_lower (trim (vs_id s)); url = to_lower (trim (base_url s))
      in i = ''yahoo'' \<or> i = ''aol'' \<or> contains_sub ''/verify'' url \<or> contains_sub ''/yahoo'' url)"

definition validation_usable :: "validation_config \<Rightarrow> validation_server list" where
  "validation_usable v = filter (\<lambda>s. server_is_usable s \<and> \<not> is_http_verifier s) (servers v)"

definition allow_on_probe_error :: "validation_config \<Rightarrow> bool" where
  "allow_on_probe_error v = (on_probe_error v = ProbeAllow)"

definition yahoo_method :: "yahoo_config \<Rightarrow> str" where
  "yahoo_method y = (if eq_ignore_case (trim (yc_method y)) ''get'' then ''GET'' else ''POST'')"

text \<open>The endpoint made of the legacy single URL.\<close>

definition legacy_endpoint :: "yahoo_config \<Rightarrow> yahoo_endpoint" where
  "legacy_endpoint y = \<lparr>ye_id = ''yahoo1'', ye_enabled = True, ye_url = trim (yc_url y),
     ye_method = (if trim (yc_method y) = [] then ''POST'' else yc_method y), ye_api_key = yc_api_key y\<rparr>"

definition resolved_endpoints :: "yahoo_config \<Rightarrow> yahoo_endpoint list" where
  "resolved_endpoints y =
     (let out = filter (\<lambda>e. ye_enabled e \<and> trim (ye_url e) \<noteq> []) (endpoints y)
      in if out = [] \<and> trim (yc_url y) \<noteq> [] then [legacy_endpoint y] else out)"

definition verifier_endpoint :: "validation_server \<Rightarrow> str \<Rightarrow> nat \<Rightarrow> yahoo_endpoint" where
  "verifier_endpoint s url n = \<lparr>ye_id = (if trim (vs_id s) = [] then ''yahoo'' @ dec (n + 1) else vs_id s),
     ye_enabled = True, ye_url = url, ye_method = ''POST'',
     ye_api_key = (if trim (token s) \<noteq> [] then token s else vs_password s)\<rparr>"

fun add_verifiers :: "validation_server list \<Rightarrow> yahoo_endpoint list \<Rightarrow> yahoo_endpoint list" where
  "add_verifiers [] out = out"
| "add_verifiers (s # ss) out =
     (if is_http_verifier s \<and> trim (base_url s) \<noteq> []
      then let url = trim (base_url s)
           in if \<exists>e\<in>set out. eq_ignore_case (trim (ye_url e)) url then add_verifiers ss out
              else add_verifiers ss (out @ [verifier_endpoint s url (length out)])
      else add_verifiers ss out)"

definition yahoo_endpoints :: "validation_config \<Rightarrow> yahoo_endpoint list" where
  "yahoo_endpoints v =
     add_verifiers (servers v) (if yc_enabled (yahoo v) then resolved_endpoints (yahoo v) else [])"

definition has_any_channel :: "validation_config \<Rightarrow> bool" where
  "has_any_channel v = (validation_usable v \<noteq> [] \<or> yahoo_endpoints v \<noteq> [])"

definition as_config :: "yahoo_endpoint \<Rightarrow> yahoo_config \<Rightarrow> yahoo_config" where
  "as_config e parent = \<lparr>yc_enabled = True, yc_url = ye_url e, yc_method = ye_method e,
     yc_api_key = ye_api_key e, extra_domains = extra_domains parent,
     concurrency = max (concurrency parent) 1, endpoints = [e]\<rparr>"

definition normalize_endpoint :: "nat \<Rightarrow> yahoo_endpoint \<Rightarrow> yahoo_endpoint" where
  "normalize_endpoint i e =
     (let n = (if trim (ye_id e) = [] then ''yahoo'' @ dec (i + 1) else ye_id e);
          m = trim (ye_method e)
      in e\<lparr>ye_id := trim n, ye_url := trim (ye_url e), ye_method := (if m = [] then ''POST'' else m)\<rparr>)"

definition normalize :: "yahoo_config \<Rightarrow> yahoo_config" where
  "normalize y =
     (let y1 = y\<lparr>endpoints := map (\<lambda>(i, e). normalize_endpoint i e) (enumerate 0 (endpoints y))\<rparr>;
          y2 = (if list_all (\<lambda>e. trim (ye_url e) = []) (endpoints y1) \<and> trim (yc_url y1) \<noteq> []
                then y1\<lparr>endpoints := endpoints y1 @ [legacy_endpoint y1]\<rparr> else y1)
      in case resolved_endpoints y2 of
           [] \<Rightarrow> y2
         | e # _ \<Rightarrow> y2\<lparr>yc_url := ye_url e, yc_method := ye_method e, yc_api_key := ye_api_key e\<rparr>)"

text \<open>\<^verbatim>\<open>promote_http_verifier_cards\<close>: the drained servers, the kept ones, the endpoints so far.\<close>

fun promote_loop :: "validation_server list \<Rightarrow> validation_server list \<Rightarrow> yahoo_config
    \<Rightarrow> validation_server list \<times> yahoo_config" where
  "promote_loop [] keep y = (keep, y)"
| "promote_loop (s # ss) keep y =
     (if \<not> is_http_verifier s \<or> trim (base_url s) = [] then promote_loop ss (keep @ [s]) y
      else let url = trim (base_url s);
               already = (\<exists>e\<in>set (endpoints y). eq_ignore_case (trim (ye_url e)) url)
                 \<or> eq_ignore_case (trim (yc_url y)) url;
               y1 = y\<lparr>yc_enabled := True\<rparr>
           in promote_loop ss keep
                (if already then y1
                 else y1\<lparr>endpoints := endpoints y1 @ [verifier_endpoint s url (length (endpoints y1))]\<rparr>))"

definition promote_http_verifier_cards :: "validation_config \<Rightarrow> validation_config" where
  "promote_http_verifier_cards v =
     (case promote_loop (servers v) [] (yahoo v) of
        (keep, y) \<Rightarrow> v\<lparr>servers := keep, yahoo := normalize y\<rparr>)"

section \<open>Rewriting, queue, health, admin, logging\<close>

record header_rule =
  hr_name :: str
  hr_value :: str

record rewrite_config =
  rewrite_from :: bool
  preserve_display_name :: bool
  inject_reply_to :: bool
  reply_to_fallback :: "str option"
  strip_dkim :: bool
  strip_arc :: bool
  strip_bcc_header :: bool
  strip_received :: bool
  add_received_header :: bool
  ensure_message_id :: bool
  ensure_date :: bool
  add_relay_headers :: bool
  x_mailer :: "str option"
  remove_headers :: "str list"
  extra_headers :: "header_rule list"

definition default_rewrite :: rewrite_config where
  "default_rewrite = \<lparr>rewrite_from = True, preserve_display_name = True, inject_reply_to = False,
     reply_to_fallback = None, strip_dkim = False, strip_arc = False, strip_bcc_header = False,
     strip_received = False, add_received_header = False, ensure_message_id = True,
     ensure_date = True, add_relay_headers = False, x_mailer = None, remove_headers = [],
     extra_headers = []\<rparr>"

text \<open>A 64 bit float: the values are rationals, infinities and NaN.\<close>

datatype f64 = Fin rat | PosInf | NegInf | NaN

record queue_config =
  q_enabled :: bool
  workers :: nat
  capacity :: nat
  max_attempts :: nat
  initial_backoff_seconds :: nat
  backoff_multiplier :: f64
  max_backoff_seconds :: nat
  persist :: bool
  q_directory :: str

definition default_queue :: queue_config where
  "default_queue = \<lparr>q_enabled = True, workers = 8, capacity = 10000, max_attempts = 5,
     initial_backoff_seconds = 30, backoff_multiplier = Fin 3, max_backoff_seconds = 3600,
     persist = True, q_directory = ''./spool''\<rparr>"

record health_config =
  h_enabled :: bool
  interval_seconds :: nat
  h_timeout_seconds :: nat
  failure_threshold :: u32
  success_threshold :: u32
  cooldown_seconds :: nat
  auto_disable :: bool
  auto_recover :: bool
  probe_on_start :: bool

definition default_health :: health_config where
  "default_health = \<lparr>h_enabled = True, interval_seconds = 60, h_timeout_seconds = 10,
     failure_threshold = 3, success_threshold = 1, cooldown_seconds = 300, auto_disable = True,
     auto_recover = True, probe_on_start = True\<rparr>"

record admin_config =
  a_enabled :: bool
  a_bind_address :: str
  a_username :: str
  a_password :: str
  api_token :: str
  dashboard_enabled :: bool
  allow_config_write :: bool
  a_allowed_networks :: "str list"
  login_max_failures :: nat
  login_block_seconds :: nat

definition default_admin :: admin_config where
  "default_admin = \<lparr>a_enabled = True, a_bind_address = ''127.0.0.1:8025'', a_username = ''admin'',
     a_password = [], api_token = [], dashboard_enabled = True, allow_config_write = True,
     a_allowed_networks = [], login_max_failures = 5, login_block_seconds = 15 * 60\<rparr>"

definition login_required :: "admin_config \<Rightarrow> bool" where
  "login_required a = (trim (a_password a) \<noteq> [])"

definition remote_access_configured :: "admin_config \<Rightarrow> bool" where
  "remote_access_configured a = (login_required a \<or> trim (api_token a) \<noteq> [])"

datatype log_format = FormatText | FormatCompact | FormatJson

record logging_config =
  level :: str
  l_format :: log_format
  l_directory :: "str option"
  l_file_prefix :: str
  log_headers :: bool
  dump_inbound :: bool

definition default_logging :: logging_config where
  "default_logging = \<lparr>level = ''info'', l_format = FormatText, l_directory = None,
     l_file_prefix = ''smtp-relay'', log_headers = False, dump_inbound = False\<rparr>"

section \<open>64 bit floats\<close>

text \<open>What \<^verbatim>\<open>QueueConfig::backoff_for\<close> uses of IEEE double arithmetic: rounding of a rational to the
  nearest representable value (ties to even, subnormals included), multiplication, the NaN-ignoring
  \<^verbatim>\<open>min\<close> and \<^verbatim>\<open>max\<close>, and the saturating conversion to \<^verbatim>\<open>u64\<close>. \<^verbatim>\<open>powf\<close>, whose precision the standard
  library leaves unspecified, is a parameter.\<close>

definition pow2 :: "int \<Rightarrow> rat" where
  "pow2 e = (if 0 \<le> e then 2 ^ nat e else 1 / 2 ^ nat (- e))"

definition exponent_of :: "rat \<Rightarrow> int" where
  "exponent_of a =
     (let (p, d) = quotient_of a; e = int (floorlog 2 (nat p)) - int (floorlog 2 (nat d))
      in if pow2 e \<le> a then e else e - 1)"

definition round_half_even :: "rat \<Rightarrow> int" where
  "round_half_even q =
     (let n = \<lfloor>q\<rfloor>; f = q - of_int n
      in if f < 1 / 2 \<or> (f = 1 / 2 \<and> even n) then n else n + 1)"

definition f64_round :: "rat \<Rightarrow> f64" where
  "f64_round q =
     (if q = 0 then Fin 0
      else let a = \<bar>q\<bar>; ulp = pow2 (max (exponent_of a) (- 1022) - 52);
               v = of_int (round_half_even (a / ulp)) * ulp
           in if 2 ^ 1024 \<le> v then (if 0 < q then PosInf else NegInf) else Fin (sgn q * v))"

fun f64_mul :: "f64 \<Rightarrow> f64 \<Rightarrow> f64" where
  "f64_mul NaN y = NaN"
| "f64_mul x NaN = NaN"
| "f64_mul (Fin x) (Fin y) = f64_round (x * y)"
| "f64_mul (Fin x) y = (if x = 0 then NaN else if (0 < x) = (y = PosInf) then PosInf else NegInf)"
| "f64_mul x (Fin y) = (if y = 0 then NaN else if (0 < y) = (x = PosInf) then PosInf else NegInf)"
| "f64_mul x y = (if x = y then PosInf else NegInf)"

fun f64_le :: "f64 \<Rightarrow> f64 \<Rightarrow> bool" where
  "f64_le NaN y = False"
| "f64_le x NaN = False"
| "f64_le NegInf y = True"
| "f64_le x PosInf = True"
| "f64_le (Fin x) (Fin y) = (x \<le> y)"
| "f64_le x y = False"

definition f64_min :: "f64 \<Rightarrow> f64 \<Rightarrow> f64" where
  "f64_min x y = (if x = NaN then y else if y = NaN \<or> f64_le x y then x else y)"

definition f64_max :: "f64 \<Rightarrow> f64 \<Rightarrow> f64" where
  "f64_max x y = (if x = NaN then y else if y = NaN \<or> f64_le y x then x else y)"

fun f64_to_u64 :: "f64 \<Rightarrow> nat" where
  "f64_to_u64 (Fin q) = (if q \<le> 0 then 0 else min (nat \<lfloor>q\<rfloor>) (2 ^ 64 - 1))"
| "f64_to_u64 PosInf = 2 ^ 64 - 1"
| "f64_to_u64 _ = 0"

definition u64_to_f64 :: "nat \<Rightarrow> f64" where
  "u64_to_f64 n = f64_round (of_nat n)"

text \<open>Seconds before attempt number \<open>attempt\<close>.\<close>

definition backoff_for :: "(f64 \<Rightarrow> f64 \<Rightarrow> f64) \<Rightarrow> queue_config \<Rightarrow> nat \<Rightarrow> nat" where
  "backoff_for powf q attempt =
     (let multiplier = (if f64_le (backoff_multiplier q) (Fin 1) then Fin 1 else backoff_multiplier q);
          exponent = u64_to_f64 (min (attempt - 1) 16);
          seconds = f64_mul (u64_to_f64 (initial_backoff_seconds q)) (powf multiplier exponent);
          capped = f64_max (f64_min seconds (u64_to_f64 (max_backoff_seconds q))) (Fin 1)
      in f64_to_u64 capped)"

section \<open>Relays and the document\<close>

record auth_config =
  username :: str
  password :: str
  mechanism :: "str option"

datatype tls_mode = TlsNone | StartTls | Tls | Opportunistic

fun tls_mode_str :: "tls_mode \<Rightarrow> str" where
  "tls_mode_str TlsNone = ''none''"
| "tls_mode_str StartTls = ''starttls''"
| "tls_mode_str Tls = ''tls''"
| "tls_mode_str Opportunistic = ''opportunistic''"

record relay_config =
  r_id :: str
  host :: str
  port :: nat
  tls :: tls_mode
  from_address :: str
  from_same_as_username :: bool
  align_envelope :: bool
  weight :: nat
  priority :: nat
  r_enabled :: bool
  max_per_minute :: "nat option"
  max_per_hour :: "nat option"
  max_per_day :: "nat option"
  max_concurrent :: nat
  r_timeout_seconds :: "nat option"
  helo_name :: "str option"
  allow_invalid_certs :: bool
  description :: "str option"
  tags :: "str list"
  r_auth :: "auth_config option"
  smtp_detail_id :: "str option"
  in_rotation_pool :: bool

definition default_relay :: relay_config where
  "default_relay = \<lparr>r_id = [], host = [], port = 465, tls = Tls, from_address = [],
     from_same_as_username = True, align_envelope = True, weight = 1, priority = 100,
     r_enabled = True, max_per_minute = None, max_per_hour = None, max_per_day = None,
     max_concurrent = 8, r_timeout_seconds = None, helo_name = None, allow_invalid_certs = False,
     description = None, tags = [], r_auth = None, smtp_detail_id = None, in_rotation_pool = True\<rparr>"

definition endpoint :: "relay_config \<Rightarrow> str" where
  "endpoint r = host r @ '':'' @ dec (port r)"

text \<open>The address of the login, when the relay sends as its user name.\<close>

definition effective_from_address :: "relay_config \<Rightarrow> str" where
  "effective_from_address r =
     (case r_auth r of
        Some a \<Rightarrow> if from_same_as_username r \<and> looks_like_email (trim (username a))
                  then trim (username a) else trim (from_address r)
      | None \<Rightarrow> trim (from_address r))"

definition sync_from_identity :: "relay_config \<Rightarrow> relay_config" where
  "sync_from_identity r =
     (case r_auth r of
        Some a \<Rightarrow> if from_same_as_username r \<and> looks_like_email (trim (username a))
                  then r\<lparr>from_address := trim (username a)\<rparr> else r
      | None \<Rightarrow> r)"

record config =
  server :: server_config
  routing :: routing_config
  rewrite :: rewrite_config
  queue :: queue_config
  health :: health_config
  admin :: admin_config
  logging :: logging_config
  rotation :: rotation_config
  validation :: validation_config
  relays :: "relay_config list"
  smtp_details :: "smtp_detail list"

definition default_config :: config where
  "default_config = \<lparr>server = default_server, routing = default_routing, rewrite = default_rewrite,
     queue = default_queue, health = default_health, admin = default_admin,
     logging = default_logging, rotation = \<lparr>ro_enabled = False, templates = []\<rparr>,
     validation = default_validation, relays = [], smtp_details = []\<rparr>"

text \<open>The product wraps at 64 bits, as it does in the release profile.\<close>

definition max_message_size_bytes :: "config \<Rightarrow> nat" where
  "max_message_size_bytes c = unat (max (max_message_size_mb (server c)) 1 * 1024 * 1024)"

definition relay :: "str \<Rightarrow> config \<Rightarrow> relay_config option" where
  "relay i c = List.find (\<lambda>r. r_id r = i) (relays c)"

definition smtp_detail_of :: "str \<Rightarrow> config \<Rightarrow> smtp_detail option" where
  "smtp_detail_of i c = List.find (\<lambda>d. sd_id d = i) (smtp_details c)"

fun parsed_networks :: "str list \<Rightarrow> cidr list" where
  "parsed_networks [] = []"
| "parsed_networks (s # ss) =
     (case cidr_parse s of Inr c \<Rightarrow> c # parsed_networks ss | Inl _ \<Rightarrow> parsed_networks ss)"

definition inbound_networks :: "config \<Rightarrow> cidr list" where
  "inbound_networks c = parsed_networks (sc_allowed_networks (server c))"

definition admin_networks :: "config \<Rightarrow> cidr list" where
  "admin_networks c = parsed_networks (a_allowed_networks (admin c))"

section \<open>Secrets\<close>

definition hide :: "str \<Rightarrow> str" where
  "hide s = (if s = [] then s else REDACTED)"

definition redact_relay :: "relay_config \<Rightarrow> relay_config" where
  "redact_relay r = r\<lparr>r_auth := map_option (\<lambda>a. a\<lparr>password := REDACTED\<rparr>) (r_auth r)\<rparr>"

definition redact_yahoo :: "yahoo_config \<Rightarrow> yahoo_config" where
  "redact_yahoo y = y\<lparr>yc_api_key := hide (yc_api_key y),
     endpoints := map (\<lambda>e. e\<lparr>ye_api_key := hide (ye_api_key e)\<rparr>) (endpoints y)\<rparr>"

definition redacted :: "config \<Rightarrow> config" where
  "redacted c = c\<lparr>relays := map redact_relay (relays c),
     server := (server c)\<lparr>auth_users := map (\<lambda>u. u\<lparr>iu_password := REDACTED\<rparr>) (auth_users (server c))\<rparr>,
     smtp_details := map (\<lambda>d. d\<lparr>sd_password := REDACTED\<rparr>) (smtp_details c),
     admin := (admin c)\<lparr>api_token := hide (api_token (admin c)), a_password := hide (a_password (admin c))\<rparr>,
     validation := (validation c)\<lparr>
       servers := map (\<lambda>s. s\<lparr>vs_password := hide (vs_password s), token := hide (token s)\<rparr>)
         (servers (validation c)),
       yahoo := redact_yahoo (yahoo (validation c))\<rparr>\<rparr>"

definition restored :: "str \<Rightarrow> str option \<Rightarrow> str" where
  "restored s old = (if s = REDACTED then (case old of Some p \<Rightarrow> p | None \<Rightarrow> s) else s)"

definition restore_relay :: "config \<Rightarrow> relay_config \<Rightarrow> relay_config" where
  "restore_relay previous r =
     (case r_auth r of
        None \<Rightarrow> r
      | Some a \<Rightarrow>
          let old = Option.bind (relay (r_id r) previous) r_auth;
              old = (case old of Some b \<Rightarrow> if username b = username a then Some b else None | None \<Rightarrow> None)
          in r\<lparr>r_auth := Some (a\<lparr>password := restored (password a) (map_option password old)\<rparr>)\<rparr>)"

text \<open>Collecting into an ordered map keeps the last entry of a key.\<close>

definition collected :: "('a \<Rightarrow> str) \<Rightarrow> ('a \<Rightarrow> str) \<Rightarrow> 'a list \<Rightarrow> str \<Rightarrow> str option" where
  "collected key val xs = map_of (rev (map (\<lambda>x. (key x, val x)) xs))"

definition restore_server :: "validation_server list \<Rightarrow> validation_server \<Rightarrow> validation_server" where
  "restore_server previous s =
     (case List.find (\<lambda>e. vs_id e = vs_id s) previous of
        None \<Rightarrow> s
      | Some old \<Rightarrow> s\<lparr>vs_password := restored (vs_password s) (Some (vs_password old)),
                      token := restored (token s) (Some (token old))\<rparr>)"

definition old_endpoint :: "yahoo_endpoint list \<Rightarrow> yahoo_endpoint \<Rightarrow> yahoo_endpoint option" where
  "old_endpoint previous e =
     (case List.find (\<lambda>x. ye_id e \<noteq> [] \<and> ye_id x = ye_id e) previous of
        Some x \<Rightarrow> Some x
      | None \<Rightarrow> List.find (\<lambda>x. ye_url e \<noteq> [] \<and> ye_url x = ye_url e) previous)"

definition restore_endpoint :: "yahoo_config \<Rightarrow> yahoo_endpoint \<Rightarrow> yahoo_endpoint" where
  "restore_endpoint previous e =
     (if ye_api_key e \<noteq> REDACTED then e
      else case old_endpoint (endpoints previous) e of
             Some old \<Rightarrow> e\<lparr>ye_api_key := ye_api_key old\<rparr>
           | None \<Rightarrow> if yc_api_key previous \<noteq> REDACTED then e\<lparr>ye_api_key := yc_api_key previous\<rparr> else e)"

definition restore_secrets_from :: "config \<Rightarrow> config \<Rightarrow> config" where
  "restore_secrets_from c previous =
     (let users = collected iu_username iu_password (auth_users (server previous));
          details = collected sd_id sd_password (smtp_details previous);
          v = validation c; pv = validation previous
      in c\<lparr>relays := map (restore_relay previous) (relays c),
           server := (server c)\<lparr>auth_users :=
             map (\<lambda>u. u\<lparr>iu_password := restored (iu_password u) (users (iu_username u))\<rparr>) (auth_users (server c))\<rparr>,
           smtp_details :=
             map (\<lambda>d. d\<lparr>sd_password := restored (sd_password d) (details (sd_id d))\<rparr>) (smtp_details c),
           admin := (admin c)\<lparr>
             api_token := restored (api_token (admin c)) (Some (api_token (admin previous))),
             a_password := restored (a_password (admin c)) (Some (a_password (admin previous)))\<rparr>,
           validation := v\<lparr>servers := map (restore_server (servers pv)) (servers v),
             yahoo := (yahoo v)\<lparr>yc_api_key := restored (yc_api_key (yahoo v)) (Some (yc_api_key (yahoo pv))),
               endpoints := map (restore_endpoint (yahoo pv)) (endpoints (yahoo v))\<rparr>\<rparr>\<rparr>)"

section \<open>Validation\<close>

text \<open>Socket addresses: \<^verbatim>\<open>a.b.c.d:port\<close> or \<^verbatim>\<open>[v6]:port\<close>, the latter with an optional scope id.\<close>

definition parse_number :: "nat \<Rightarrow> str \<Rightarrow> nat option" where
  "parse_number m s = (if s \<noteq> [] \<and> list_all is_digit_byte s then parse_uint m s else None)"

definition socket_addr_ok :: "str \<Rightarrow> bool" where
  "socket_addr_ok s =
     (case strip_prefix ''['' s of
        Some t \<Rightarrow>
          (case split_once CHR '']'' t of
             Some (inner, rest) \<Rightarrow>
               (case split_once CHR ''%'' inner of
                  Some (a, scope) \<Rightarrow> parse_ipv6 a \<noteq> None \<and> parse_number (2 ^ 32) scope \<noteq> None
                | None \<Rightarrow> parse_ipv6 inner \<noteq> None)
               \<and> (case strip_prefix '':'' rest of
                    Some p \<Rightarrow> parse_number 65536 p \<noteq> None | None \<Rightarrow> False)
           | None \<Rightarrow> False)
      | None \<Rightarrow>
          (case split_once CHR '':'' s of
             Some (a, p) \<Rightarrow> parse_ipv4 a \<noteq> None \<and> parse_number 65536 p \<noteq> None
           | None \<Rightarrow> False))"

text \<open>A check yields the message of its error, and a list of checks the first one.\<close>

definition check :: "bool \<Rightarrow> str \<Rightarrow> str option" where
  "check bad msg = (if bad then Some msg else None)"

fun first_error :: "str option list \<Rightarrow> str option" where
  "first_error [] = None"
| "first_error (None # es) = first_error es"
| "first_error (Some m # es) = Some m"

definition check_networks :: "str \<Rightarrow> str list \<Rightarrow> str option" where
  "check_networks label ns =
     first_error (map (\<lambda>n. case cidr_parse n of Inl e \<Rightarrow> Some (label @ '': '' @ e) | Inr _ \<Rightarrow> None) ns)"

definition check_server :: "config \<Rightarrow> str option" where
  "check_server c = (let s = server c in first_error
     [check (\<not> socket_addr_ok (sc_bind_address s))
        (''server.bind_address '' @ bq (sc_bind_address s)
          @ '' is not a valid socket address (expected e.g. 0.0.0.0:1025)''),
      check (a_enabled (admin c) \<and> \<not> socket_addr_ok (a_bind_address (admin c)))
        (''admin.bind_address '' @ bq (a_bind_address (admin c)) @ '' is not a valid socket address''),
      check (trim (hostname s) = []) ''server.hostname must not be empty'',
      check (max_message_size_mb s = 0) ''server.max_message_size_mb must be at least 1'',
      check (sc_timeout_seconds s = 0) ''server.timeout_seconds must be at least 1'',
      check (max_connections s = 0) ''server.max_connections must be at least 1'',
      check (require_auth s \<and> auth_users s = [] \<and> smtp_details c = [])
        ''server.require_auth is enabled but server.auth_users and smtp_details are empty, so no client could ever submit mail'',
      check (\<exists>u\<in>set (auth_users s). iu_username u = [] \<or> iu_password u = [])
        ''server.auth_users entries need a non-empty username and password'',
      check (\<exists>d\<in>set (smtp_details c). trim (sd_username d) = [] \<or> trim (sd_password d) = [])
        ''smtp_details entries need a non-empty username and password'',
      check_networks ''server.allowed_networks'' (sc_allowed_networks s),
      check_networks ''admin.allowed_networks'' (a_allowed_networks (admin c)),
      check (max_attempts_per_message (routing c) = 0)
        ''routing.max_attempts_per_message must be at least 1''])"

definition relay_label :: "nat \<Rightarrow> relay_config \<Rightarrow> str" where
  "relay_label i r = (if r_id r = [] then ''relays['' @ dec i @ '']'' else ''relay '' @ bq (r_id r))"

text \<open>The checks of one relay, \<open>first\<close> the index of an earlier relay with its id.\<close>

definition check_auth :: "str \<Rightarrow> auth_config \<Rightarrow> str option" where
  "check_auth label a = first_error
     [check (username a = [])
        (label @ '': auth.username must not be empty (remove the '' @ bq ''auth'' @ '' block for an unauthenticated relay)''),
      (case mechanism a of None \<Rightarrow> None
       | Some m \<Rightarrow> check (to_lower m \<notin> {''plain'', ''login'', ''xoauth2''})
           (label @ '': auth.mechanism '' @ bq m @ '' is not supported (use plain, login or xoauth2)''))]"

definition check_relay :: "nat \<Rightarrow> nat option \<Rightarrow> relay_config \<Rightarrow> str option" where
  "check_relay i first r = (let label = relay_label i r; from = effective_from_address r in first_error
     [check (trim (r_id r) = []) (label @ '' is missing an '' @ bq ''id''),
      check (CHR ''/'' \<in> set (r_id r) \<or> list_ex is_ws (chars (r_id r)))
        (label @ '': ids must not contain whitespace or '' @ bq ''/''),
      (case first of None \<Rightarrow> None
       | Some j \<Rightarrow> Some (''duplicate relay id '' @ bq (r_id r) @ '' (relays['' @ dec j @ ''] and relays['' @ dec i @ ''])'')),
      check (trim (host r) = []) (label @ '' is missing a '' @ bq ''host''),
      check (port r = 0) (label @ '': port must be 1-65535''),
      check (from \<noteq> [] \<and> \<not> looks_like_email from)
        (label @ '': from_address '' @ bq from
          @ '' is not a valid email address (set from_address, enable from_same_as_username with an email username, or leave empty for dynamic From)''),
      check (max_concurrent r = 0) (label @ '': max_concurrent must be at least 1''),
      (case r_auth r of None \<Rightarrow> None | Some a \<Rightarrow> check_auth label a)])"

fun check_relays :: "(str \<times> nat) list \<Rightarrow> nat \<Rightarrow> relay_config list \<Rightarrow> str option" where
  "check_relays seen i [] = None"
| "check_relays seen i (r # rs) =
     (case check_relay i (map_of seen (r_id r)) r of
        Some e \<Rightarrow> Some e
      | None \<Rightarrow> check_relays ((r_id r, i) # seen) (i + 1) rs)"

definition check_override :: "str list \<Rightarrow> domain_override \<Rightarrow> str option" where
  "check_override ids d = first_error
     ([check (trim (do_domain d) = []) (''routing.domain_overrides entries need a '' @ bq ''domain''),
       check (do_relay_ids d = [])
         (''routing.domain_overrides for '' @ bq (do_domain d) @ '' lists no relay_ids'')]
      @ map (\<lambda>i. check (i \<notin> set ids)
          (''routing.domain_overrides for '' @ bq (do_domain d) @ '' references unknown relay '' @ bq i)) (do_relay_ids d))"

definition check_routing :: "config \<Rightarrow> str option" where
  "check_routing c = first_error
     [check (strategy (routing c) = Weighted
         \<and> sum_list (map weight (filter r_enabled (relays c))) = 0)
        (''routing.strategy is '' @ bq ''weighted'' @ '' but every enabled relay has weight 0''),
      first_error (map (check_override (map r_id (relays c))) (domain_overrides (routing c)))]"

definition check_queue :: "config \<Rightarrow> str option" where
  "check_queue c = (let q = queue c in first_error
     [check (q_enabled q \<and> workers q = 0) ''queue.workers must be at least 1'',
      check (q_enabled q \<and> capacity q = 0) ''queue.capacity must be at least 1'',
      check (q_enabled q \<and> max_attempts q = 0) ''queue.max_attempts must be at least 1'',
      check (submission_mode (server c) \<noteq> ModeDirect \<and> \<not> q_enabled q)
        (''server.submission_mode is '' @ bq (submission_mode_str (submission_mode (server c)))
          @ '' which requires queue.enabled: true''),
      check (h_enabled (health c) \<and> interval_seconds (health c) = 0)
        ''health.interval_seconds must be at least 1'',
      (case reply_to_fallback (rewrite c) of None \<Rightarrow> None
       | Some f \<Rightarrow> check (\<not> looks_like_email f)
           (''rewrite.reply_to_fallback '' @ bq f @ '' is not a valid email address''))])"

definition http_url :: "str \<Rightarrow> bool" where
  "http_url u = (starts_with ''http://'' u \<or> starts_with ''https://'' u)"

text \<open>Entries with a blank id are skipped; \<open>rule\<close> is the further check of an entry.\<close>

fun check_ids :: "('a \<Rightarrow> str) \<Rightarrow> (str \<Rightarrow> nat \<Rightarrow> nat \<Rightarrow> str) \<Rightarrow> (nat \<Rightarrow> 'a \<Rightarrow> str option)
    \<Rightarrow> (str \<times> nat) list \<Rightarrow> nat \<Rightarrow> 'a list \<Rightarrow> str option" where
  "check_ids ident msg rule seen i [] = None"
| "check_ids ident msg rule seen i (x # xs) =
     (let t = trim (ident x) in
      if t = [] then check_ids ident msg rule seen (i + 1) xs
      else case map_of seen t of
             Some j \<Rightarrow> Some (msg t j i)
           | None \<Rightarrow> (case rule i x of
                        Some e \<Rightarrow> Some e
                      | None \<Rightarrow> check_ids ident msg rule ((t, i) # seen) (i + 1) xs))"

definition check_base_url :: "nat \<Rightarrow> validation_server \<Rightarrow> str option" where
  "check_base_url i s = check (trim (base_url s) \<noteq> [] \<and> \<not> http_url (base_url s))
     (''validation.servers['' @ dec i @ ''].base_url must start with http:// or https://'')"

definition check_validation :: "config \<Rightarrow> str option" where
  "check_validation c = (let v = validation c; es = resolved_endpoints (yahoo v) in first_error
     ([check (va_enabled v \<and> va_timeout_seconds v = 0) ''validation.timeout_seconds must be at least 1'',
       check (va_enabled v \<and> \<not> has_any_channel v)
         ''validation.enabled requires a Stalwart server or a Yahoo API URL'',
       check (yc_enabled (yahoo v) \<and> es = []) ''validation.yahoo.enabled requires at least one Yahoo API URL'']
      @ map (\<lambda>(i, e). check (yc_enabled (yahoo v) \<and> \<not> http_url (trim (ye_url e)))
          (''validation.yahoo.endpoints['' @ dec i @ ''].url must start with http:// or https://'')) (enumerate 0 es)
      @ [check_ids vs_id (\<lambda>t j i. ''duplicate validation server id '' @ bq t
            @ '' (servers['' @ dec j @ ''] and servers['' @ dec i @ ''])'') check_base_url [] 0 (servers v),
         check_ids ct_id (\<lambda>t j i. ''duplicate rotation template id '' @ bq t
            @ '' (templates['' @ dec j @ ''] and templates['' @ dec i @ ''])'') (\<lambda>i t. None) [] 0 (templates (rotation c))]))"

text \<open>\<^const>\<open>None\<close> when the document is accepted, or the message of \<^verbatim>\<open>ConfigError::Invalid\<close>.\<close>

definition validate :: "config \<Rightarrow> str option" where
  "validate c = first_error
     [check_server c, check_relays [] 0 (relays c), check_routing c, check_queue c, check_validation c]"

section \<open>Lemmas\<close>

lemma first_error_None [simp]: "first_error es = None \<longleftrightarrow> (\<forall>e\<in>set es. e = None)"
  by (induction es rule: first_error.induct) auto

lemma check_None [simp]: "check bad msg = None \<longleftrightarrow> \<not> bad"
  by (simp add: check_def)

lemma check_False [simp]: "check False msg = None"
  by simp

lemma check_relays_None:
  "check_relays seen i rs = None \<Longrightarrow>
     distinct (map r_id rs) \<and> set (map r_id rs) \<inter> set (map fst seen) = {}
       \<and> (\<forall>r\<in>set rs. \<exists>j. check_relay j None r = None)"
proof (induction rs arbitrary: seen i)
  case (Cons r rs)
  have r: "check_relay i (map_of seen (r_id r)) r = None"
    and rs: "check_relays ((r_id r, i) # seen) (i + 1) rs = None"
    using Cons.prems by (auto split: option.splits)
  have n: "map_of seen (r_id r) = None"
    using r by (cases "map_of seen (r_id r)") (auto simp: check_relay_def Let_def)
  then have "r_id r \<notin> set (map fst seen)" by (simp add: map_of_eq_None_iff)
  with Cons.IH[OF rs] r n show ?case by auto
qed simp

lemma check_relay_None:
  assumes "check_relay j first r = None"
  shows "trim (r_id r) \<noteq> []" "trim (host r) \<noteq> []" "port r \<noteq> 0" "max_concurrent r \<noteq> 0"
    "effective_from_address r = [] \<or> looks_like_email (effective_from_address r)"
  using assms by (auto simp: check_relay_def Let_def)

lemma find_distinct:
  "distinct (map key xs) \<Longrightarrow> x \<in> set xs \<Longrightarrow> List.find (\<lambda>y. key y = key x) xs = Some x"
  by (induction xs) auto

lemma collected_distinct:
  "distinct (map key xs) \<Longrightarrow> x \<in> set xs \<Longrightarrow> collected key val xs (key x) = Some (val x)"
  by (auto simp: collected_def rev_map[symmetric] comp_def intro!: map_of_is_SomeI)

lemma restored_hide: "restored (hide s) (Some s) = s"
  by (simp add: restored_def hide_def)

lemma restored_REDACTED [simp]: "restored REDACTED (Some s) = s"
  by (simp add: restored_def)

lemma restore_redact_relay:
  assumes "distinct (map r_id (relays c))" "r \<in> set (relays c)"
  shows "restore_relay c (redact_relay r) = r"
proof -
  have "relay (r_id r) c = Some r" using find_distinct[OF assms] by (simp add: relay_def)
  then show ?thesis
    by (cases "r_auth r") (auto simp: restore_relay_def redact_relay_def split: option.splits)
qed

lemma restore_redact_server:
  assumes "distinct (map vs_id ss)" "s \<in> set ss"
  shows "restore_server ss (s\<lparr>vs_password := hide (vs_password s), token := hide (token s)\<rparr>) = s"
  using find_distinct[OF assms] by (simp add: restore_server_def restored_hide)

lemma restore_redact_endpoint:
  assumes "distinct (map ye_id (endpoints y))" "e \<in> set (endpoints y)" "ye_id e \<noteq> []"
  shows "restore_endpoint y (e\<lparr>ye_api_key := hide (ye_api_key e)\<rparr>) = e"
  using find_distinct[OF assms(1,2)] assms(3)
  by (auto simp: restore_endpoint_def old_endpoint_def hide_def)

definition secrets :: "config \<Rightarrow> str set" where
  "secrets c =
     {password a | a r. r \<in> set (relays c) \<and> r_auth r = Some a}
     \<union> iu_password ` set (auth_users (server c)) \<union> sd_password ` set (smtp_details c)
     \<union> {api_token (admin c), a_password (admin c), yc_api_key (yahoo (validation c))}
     \<union> vs_password ` set (servers (validation c)) \<union> token ` set (servers (validation c))
     \<union> ye_api_key ` set (endpoints (yahoo (validation c)))"

section \<open>The range of the backoff\<close>

lemma pow2_pos: "0 < pow2 e"
  by (simp add: pow2_def)

lemma floorlog2_bounds:
  assumes "0 < n"
  shows "2 ^ (floorlog 2 n - 1) \<le> n" "0 < floorlog 2 n"
proof -
  show "2 ^ (floorlog 2 n - 1) \<le> n" using floorlog_bounds[of n 2] assms by simp
  show "0 < floorlog 2 n" using assms by (simp add: floorlog_def)
qed

lemma exponent_of_nat:
  assumes "0 < n" "n < 2 ^ 53"
  shows "0 \<le> exponent_of (of_nat n)" "exponent_of (of_nat n) \<le> 52"
proof -
  have q: "quotient_of (of_nat n) = (int n, 1)" using quotient_of_int[of "int n"] by (simp add: of_rat_def)
  have f1: "floorlog 2 1 = (1 :: nat)" by (simp add: floorlog_def)
  have lo: "1 \<le> floorlog 2 n" using floorlog2_bounds(2)[OF assms(1)] by simp
  have "n < 2 ^ 53 \<Longrightarrow> floorlog 2 n \<le> 53" using floorlog_le_iff[of 2 n 53] by simp
  then have hi: "floorlog 2 n \<le> 53" using assms(2) by simp
  have e: "exponent_of (of_nat n) = (let e = int (floorlog 2 n) - 1 in if pow2 e \<le> of_nat n then e else e - 1)"
    using q f1 by (simp add: exponent_of_def Let_def)
  have "pow2 (int (floorlog 2 n) - 1) = of_nat (2 ^ (floorlog 2 n - 1))"
    using lo by (simp add: pow2_def nat_diff_distrib)
  also have "\<dots> \<le> (of_nat n :: rat)" using floorlog2_bounds(1)[OF assms(1)] of_nat_le_iff by blast
  finally have "exponent_of (of_nat n) = int (floorlog 2 n) - 1" using e by (simp add: Let_def)
  then show "0 \<le> exponent_of (of_nat n)" "exponent_of (of_nat n) \<le> 52" using lo hi by auto
qed

lemma round_half_even_int: "round_half_even (of_int n) = n"
  by (simp add: round_half_even_def)

lemma u64_to_f64_exact:
  assumes "n < 2 ^ 53"
  shows "u64_to_f64 n = Fin (of_nat n)"
proof (cases "n = 0")
  case False
  let ?e = "exponent_of (of_nat n)"
  have e: "0 \<le> ?e" "?e \<le> 52" using exponent_of_nat[of n] False assms by auto
  then have m: "max ?e (- 1022) = ?e" by simp
  have u: "pow2 (?e - 52) = 1 / 2 ^ nat (52 - ?e)" using e by (cases "?e = 52") (auto simp: pow2_def)
  have "of_nat n / pow2 (?e - 52) = (of_int (int n * 2 ^ nat (52 - ?e)) :: rat)" by (simp add: u)
  then have r: "round_half_even (of_nat n / pow2 (?e - 52)) = int n * 2 ^ nat (52 - ?e)"
    by (metis round_half_even_int)
  have v: "of_int (round_half_even (of_nat n / pow2 (?e - 52))) * pow2 (?e - 52) = (of_nat n :: rat)"
    by (subst r) (simp add: u)
  have "(of_nat n :: rat) < of_nat (2 ^ 53)" using assms of_nat_less_iff by blast
  also have "\<dots> \<le> of_nat (2 ^ 1024)" by simp
  finally have "\<not> 2 ^ 1024 \<le> (of_nat n :: rat)" by simp
  then show ?thesis using False by (simp add: u64_to_f64_def f64_round_def Let_def m v)
qed (simp add: u64_to_f64_def f64_round_def)

lemma capped_range:
  assumes "m < 2 ^ 53"
  shows "f64_to_u64 (f64_max (f64_min s (Fin (of_nat m))) (Fin 1)) \<in> {1..max 1 m}"
proof -
  have m: "\<lfloor>(of_nat m :: rat)\<rfloor> = int m" by (metis floor_of_int of_int_of_nat_eq)
  have fm: "nat \<lfloor>q\<rfloor> \<le> m" if "q \<le> of_nat m" for q :: rat
    using floor_mono[OF that] m by linarith
  have f1: "1 \<le> nat \<lfloor>q\<rfloor>" if "1 \<le> q" for q :: rat using floor_mono[OF that] by linarith
  show ?thesis
    using assms fm f1 m by (cases s) (auto simp: f64_min_def f64_max_def le_max_iff_disj min_le_iff_disj)
qed

section \<open>Properties\<close>

text \<open>C34. The retry delay is at least one second and never above the configured maximum, whatever the
  multiplier is - NaN and infinities included - and however \<^verbatim>\<open>powf\<close> rounds.\<close>

theorem backoff_bounds:
  assumes "max_backoff_seconds q < 2 ^ 53"
  shows "backoff_for powf q attempt \<in> {1..max 1 (max_backoff_seconds q)}"
  unfolding backoff_for_def Let_def u64_to_f64_exact[OF assms] by (rule capped_range[OF assms])

theorem backoff_bounds_witness:
  "backoff_for (\<lambda>x y. NaN) (default_queue\<lparr>backoff_multiplier := PosInf\<rparr>) 7 \<in> {1..3600}"
proof -
  have m: "max_backoff_seconds (default_queue\<lparr>backoff_multiplier := PosInf\<rparr>) = 3600"
    by (simp add: default_queue_def)
  show ?thesis using backoff_bounds[of "default_queue\<lparr>backoff_multiplier := PosInf\<rparr>" "\<lambda>x y. NaN" 7]
    unfolding m by simp
qed

text \<open>C36. No secret of the configuration survives in the copy handed to the admin API.\<close>

theorem redacted_hides_secrets: "secrets (redacted c) \<subseteq> {REDACTED, []}"
  by (auto simp: secrets_def redacted_def redact_relay_def redact_yahoo_def hide_def)

text \<open>C35. A dashboard that reads the redacted document and sends it back changes nothing: every secret
  is restored, provided the entries that hold secrets have distinct identifiers.\<close>

theorem restore_redacted:
  assumes "distinct (map r_id (relays c))" "distinct (map iu_username (auth_users (server c)))"
    and "distinct (map sd_id (smtp_details c))" "distinct (map vs_id (servers (validation c)))"
    and "distinct (map ye_id (endpoints (yahoo (validation c))))"
    and "[] \<notin> set (map ye_id (endpoints (yahoo (validation c))))"
  shows "restore_secrets_from (redacted c) c = c"
proof -
  let ?y = "yahoo (validation c)"
  have 1: "map (restore_relay c \<circ> redact_relay) (relays c) = relays c"
    using restore_redact_relay[OF assms(1)] by (intro map_idI) simp
  have 2: "map (\<lambda>u. u\<lparr>iu_password := restored REDACTED
      (collected iu_username iu_password (auth_users (server c)) (iu_username u))\<rparr>) (auth_users (server c))
      = auth_users (server c)"
    using collected_distinct[OF assms(2)] by (intro map_idI) simp
  have 3: "map (\<lambda>d. d\<lparr>sd_password := restored REDACTED
      (collected sd_id sd_password (smtp_details c) (sd_id d))\<rparr>) (smtp_details c) = smtp_details c"
    using collected_distinct[OF assms(3)] by (intro map_idI) simp
  have 4: "map (\<lambda>s. restore_server (servers (validation c))
      (s\<lparr>vs_password := hide (vs_password s), token := hide (token s)\<rparr>)) (servers (validation c))
      = servers (validation c)"
    using restore_redact_server[OF assms(4)] by (intro map_idI) simp
  have 5: "map (\<lambda>e. restore_endpoint ?y (e\<lparr>ye_api_key := hide (ye_api_key e)\<rparr>)) (endpoints ?y) = endpoints ?y"
    using restore_redact_endpoint[OF assms(5)] assms(6) by (intro map_idI) force
  show ?thesis
    by (simp add: restore_secrets_from_def redacted_def redact_yahoo_def Let_def restored_hide comp_def
        1[unfolded comp_def] 2 3 4 5)
qed

definition sample_config :: config where
  "sample_config = default_config\<lparr>
     relays := [default_relay\<lparr>r_id := ''a'', host := ''a.example'', r_auth := Some \<lparr>username = ''a@b.c'', password = ''p1'', mechanism = None\<rparr>\<rparr>,
                default_relay\<lparr>r_id := ''b'', host := ''b.example''\<rparr>],
     smtp_details := [\<lparr>sd_id = ''x'', sd_label = [], sd_hostname = [], sd_username = ''u'', sd_password = ''p2''\<rparr>,
                      \<lparr>sd_id = ''y'', sd_label = [], sd_hostname = [], sd_username = ''v'', sd_password = ''p3''\<rparr>]\<rparr>"

theorem restore_redacted_witness:
  "restore_secrets_from (redacted sample_config) sample_config = sample_config"
  by (rule restore_redacted)
    (simp_all add: sample_config_def default_config_def default_relay_def default_server_def
      default_validation_def default_yahoo_def)

lemma default_addresses_ok: "socket_addr_ok ''0.0.0.0:1025''" "socket_addr_ok ''127.0.0.1:8025''"
  by (simp_all add: socket_addr_ok_def strip_prefix_def starts_with_def parse_ipv4_def parse_octet_def
      parse_number_def is_digit_byte_def byte_def parse_uint_def digit_val_def)

lemma check_server_default:
  assumes "server c = default_server" "admin c = default_admin" "routing c = default_routing"
    and "\<forall>d\<in>set (smtp_details c). trim (sd_username d) \<noteq> [] \<and> trim (sd_password d) \<noteq> []"
  shows "check_server c = None"
proof -
  have "trim ''smtp-proxy.local'' \<noteq> []" by code_simp
  then show ?thesis
    using assms default_addresses_ok
    by (simp add: check_server_def Let_def default_server_def default_admin_def default_routing_def
        check_networks_def)
qed

lemma sample_config_accepted:
  "validate sample_config = None"
  "validate (sample_config\<lparr>smtp_details := map (\<lambda>d. d\<lparr>sd_id := []\<rparr>) (smtp_details sample_config)\<rparr>) = None"
proof -
  note defaults = sample_config_def default_config_def default_relay_def default_server_def
    default_routing_def default_queue_def default_health_def default_rewrite_def default_validation_def
    default_yahoo_def
  have "trim ''a'' = ''a''" "trim ''b'' = ''b''" "trim ''a.example'' = ''a.example''"
    "trim ''b.example'' = ''b.example''" "trim ''a@b.c'' = ''a@b.c''" "trim [] = []"
    "\<not> list_ex is_ws (chars ''a'')" "\<not> list_ex is_ws (chars ''b'')" "looks_like_email ''a@b.c''"
    by (code_simp, code_simp, code_simp, code_simp, code_simp, code_simp, code_simp, code_simp, code_simp)
  then have "check_relays [] 0 (relays sample_config) = None"
    by (simp add: defaults check_relay_def check_auth_def effective_from_address_def Let_def)
  moreover have "check_routing sample_config = None" "check_queue sample_config = None"
    "check_validation sample_config = None"
    by (simp_all add: defaults check_routing_def check_queue_def check_validation_def Let_def)
  ultimately have 1: "check_relays [] 0 (relays sample_config) = None" "check_routing sample_config = None"
    "check_queue sample_config = None" "check_validation sample_config = None" by blast+
  have 2: "trim ''u'' = ''u''" "trim ''v'' = ''v''" "trim ''p2'' = ''p2''" "trim ''p3'' = ''p3''"
    by (code_simp, code_simp, code_simp, code_simp)
  have 3: "check_server (sample_config\<lparr>smtp_details := map f (smtp_details sample_config)\<rparr>) = None"
    if "\<And>d. sd_username (f d) = sd_username d \<and> sd_password (f d) = sd_password d" for f
    by (rule check_server_default) (use 2 that in \<open>simp_all add: sample_config_def default_config_def\<close>)
  have "sample_config\<lparr>smtp_details := map id (smtp_details sample_config)\<rparr> = sample_config" by simp
  with 3[of id] have "check_server sample_config = None" by simp
  then show "validate sample_config = None" using 1 by (simp add: validate_def)
  show "validate (sample_config\<lparr>smtp_details := map (\<lambda>d. d\<lparr>sd_id := []\<rparr>) (smtp_details sample_config)\<rparr>) = None"
    using 1 3[of "\<lambda>d. d\<lparr>sd_id := []\<rparr>"]
    by (simp add: validate_def check_routing_def check_queue_def check_validation_def Let_def)
qed

text \<open>Distinct identifiers are not what validation asks of the SMTP details: two details without an
  identifier pass, and the save then gives both the same password.\<close>

theorem save_overwrites_detail_password:
  "\<exists>c. validate c = None \<and> map sd_password (smtp_details c) = [''p2'', ''p3'']
     \<and> map sd_password (smtp_details (restore_secrets_from (redacted c) c)) = [''p3'', ''p3'']"
  by (rule exI[of _ "sample_config\<lparr>smtp_details := map (\<lambda>d. d\<lparr>sd_id := []\<rparr>) (smtp_details sample_config)\<rparr>"])
    (simp only: sample_config_accepted,
      simp add: sample_config_def restore_secrets_from_def redacted_def collected_def Let_def)

text \<open>C29. What an accepted configuration guarantees to the relay pool and to the queue.\<close>

theorem validate_sound:
  assumes "validate c = None"
  shows "distinct (map r_id (relays c))
    \<and> (\<forall>r\<in>set (relays c). trim (r_id r) \<noteq> [] \<and> trim (host r) \<noteq> [] \<and> port r \<noteq> 0 \<and> 0 < max_concurrent r
         \<and> (effective_from_address r = [] \<or> looks_like_email (effective_from_address r)))
    \<and> (\<forall>d\<in>set (domain_overrides (routing c)). do_relay_ids d \<noteq> [] \<and> set (do_relay_ids d) \<subseteq> set (map r_id (relays c)))
    \<and> (strategy (routing c) = Weighted \<longrightarrow> (\<exists>r\<in>set (relays c). r_enabled r \<and> 0 < weight r))
    \<and> (submission_mode (server c) \<noteq> ModeDirect \<longrightarrow> 0 < workers (queue c) \<and> 0 < capacity (queue c) \<and> 0 < max_attempts (queue c))
    \<and> 0 < max_attempts_per_message (routing c)"
proof -
  have v: "check_server c = None" "check_relays [] 0 (relays c) = None" "check_routing c = None"
    "check_queue c = None" using assms by (auto simp: validate_def)
  note rel = check_relays_None[OF v(2)]
  have "\<forall>r\<in>set (relays c). trim (r_id r) \<noteq> [] \<and> trim (host r) \<noteq> [] \<and> port r \<noteq> 0 \<and> 0 < max_concurrent r
         \<and> (effective_from_address r = [] \<or> looks_like_email (effective_from_address r))"
    using rel check_relay_None by (metis gr0I)
  moreover have "\<forall>d\<in>set (domain_overrides (routing c)).
      do_relay_ids d \<noteq> [] \<and> set (do_relay_ids d) \<subseteq> set (map r_id (relays c))"
    using v(3) by (auto simp: check_routing_def check_override_def)
  moreover have "strategy (routing c) = Weighted \<longrightarrow> (\<exists>r\<in>set (relays c). r_enabled r \<and> 0 < weight r)"
    using v(3) by (auto simp: check_routing_def)
  ultimately show ?thesis
    using rel v(1,4) by (auto simp: check_queue_def check_server_def Let_def)
qed

theorem validate_sound_witness: "distinct (map r_id (relays sample_config))"
  using validate_sound[OF sample_config_accepted(1)] by blast

end
