(* ===== verification/ConfigFile.thy ===== *)
theory ConfigFile
  imports Config
begin

text \<open>The configuration file (the loading and saving of src/config.rs, the errors of src/error.rs). A disk is a
  map from paths to contents; parsing and printing of a document are the serde libraries', and so are arguments,
  as is what each access to the disk does. A path is the string of a Unix path.\<close>

section \<open>Paths\<close>

text \<open>A reversed path without the slashes and dots that do not name anything at its end.\<close>

fun bare_end :: "str \<Rightarrow> str" where
  "bare_end [] = []"
| "bare_end (c # cs) =
     (if c = CHR ''/'' then bare_end cs
      else if c = CHR ''.'' \<and> (cs = [] \<or> hd cs = CHR ''/'') then bare_end cs
      else c # cs)"

text \<open>What stands before the last component, and the component: \<^verbatim>\<open>Path::file_name\<close>.\<close>

definition path_front :: "str \<Rightarrow> str" where
  "path_front path = rev (dropWhile (\<lambda>c. c \<noteq> CHR ''/'') (bare_end (rev path)))"

definition file_name :: "str \<Rightarrow> str option" where
  "file_name path =
     (let name = rev (takeWhile (\<lambda>c. c \<noteq> CHR ''/'') (bare_end (rev path)))
      in if name = [] \<or> name = ''..'' then None else Some name)"

text \<open>A name is cut at its last dot, unless that is its first byte.\<close>

definition stem_and_extension :: "str \<Rightarrow> str \<times> str option" where
  "stem_and_extension name =
     (let e = rev (takeWhile (\<lambda>c. c \<noteq> CHR ''.'') (rev name)); s = butlast (take (length name - length e) name)
      in if CHR ''.'' \<in> set name \<and> s \<noteq> [] then (s, Some e) else (name, None))"

definition path_extension :: "str \<Rightarrow> str option" where
  "path_extension path = (case file_name path of None \<Rightarrow> None | Some name \<Rightarrow> snd (stem_and_extension name))"

definition with_extension :: "str \<Rightarrow> str \<Rightarrow> str" where
  "with_extension path e =
     (case file_name path of None \<Rightarrow> path | Some name \<Rightarrow> path_front path @ fst (stem_and_extension name) @ ''.'' @ e)"

section \<open>The disk\<close>

type_synonym disk = "str \<Rightarrow> bytes option"

text \<open>An access succeeds, is refused before it changes anything, or breaks off and leaves the bytes it wrote.\<close>

datatype access = Succeeds | Refused str | Breaks bytes str

fun write_file :: "access \<Rightarrow> str \<Rightarrow> bytes \<Rightarrow> disk \<Rightarrow> str option \<times> disk" where
  "write_file Succeeds path content d = (None, d(path \<mapsto> content))"
| "write_file (Refused e) path content d = (Some e, d)"
| "write_file (Breaks part e) path content d = (Some e, d(path \<mapsto> part))"

text \<open>A rename is atomic.\<close>

definition rename_file :: "str option \<Rightarrow> str \<Rightarrow> str \<Rightarrow> disk \<Rightarrow> str option \<times> disk" where
  "rename_file failure old new d =
     (case failure of Some e \<Rightarrow> (Some e, d) | None \<Rightarrow> (None, if old = new then d else d(new := d old, old := None)))"

section \<open>Loading and saving\<close>

datatype file_format = FormatYaml | FormatToml | FormatJson

definition format_of :: "str \<Rightarrow> file_format option" where
  "format_of path =
     (case path_extension path of
        None \<Rightarrow> None
      | Some e \<Rightarrow>
          if \<not> utf8_valid e then None
          else if to_lower e = ''yaml'' \<or> to_lower e = ''yml'' then Some FormatYaml
          else if to_lower e = ''toml'' then Some FormatToml
          else if to_lower e = ''json'' then Some FormatJson
          else None)"

datatype config_error = NotFound str | FileIo str str | UnknownFormat str | ParseError str str | SerializeError str | InvalidConfig str

fun config_error_str :: "config_error \<Rightarrow> str" where
  "config_error_str (NotFound path) = ''configuration file '' @ bq path @ '' was not found''"
| "config_error_str (FileIo path e) = ''failed to read '' @ bq path @ '': '' @ e"
| "config_error_str (UnknownFormat path) = ''unsupported configuration format for '' @ bq path @ '' (expected .yaml, .yml, .toml or .json)''"
| "config_error_str (ParseError path m) = ''failed to parse '' @ bq path @ '': '' @ m"
| "config_error_str (SerializeError e) = ''failed to serialise configuration: '' @ e"
| "config_error_str (InvalidConfig e) = ''invalid configuration: '' @ e"

definition NOT_UTF8 :: str where "NOT_UTF8 = ''stream did not contain valid UTF-8''"

text \<open>\<open>unreadable\<close>: the error of the reading, if it fails.\<close>

definition load_config ::
  "(file_format \<Rightarrow> str \<Rightarrow> str + config) \<Rightarrow> str option \<Rightarrow> disk \<Rightarrow> str \<Rightarrow> config_error + config" where
  "load_config parse_document unreadable d path =
     (case d path of
        None \<Rightarrow> Inl (NotFound path)
      | Some content \<Rightarrow>
          (case format_of path of
             None \<Rightarrow> Inl (UnknownFormat path)
           | Some f \<Rightarrow>
               if unreadable \<noteq> None then Inl (FileIo path (the unreadable))
               else if \<not> utf8_valid content then Inl (FileIo path NOT_UTF8)
               else (case parse_document f content of
                       Inl m \<Rightarrow> Inl (ParseError path m)
                     | Inr c \<Rightarrow> (case validate c of Some e \<Rightarrow> Inl (InvalidConfig e) | None \<Rightarrow> Inr c))))"

definition serialize_for :: "(file_format \<Rightarrow> config \<Rightarrow> str + str) \<Rightarrow> str \<Rightarrow> config \<Rightarrow> config_error + str" where
  "serialize_for print_document path c =
     (case print_document (case format_of path of Some f \<Rightarrow> f | None \<Rightarrow> FormatYaml) c of
        Inl e \<Rightarrow> Inl (SerializeError e) | Inr text \<Rightarrow> Inr text)"

definition backup_path :: "str \<Rightarrow> str" where
  "backup_path path = with_extension path
     ((case path_extension path of Some e \<Rightarrow> if utf8_valid e then e else ''conf'' | None \<Rightarrow> ''conf'') @ ''.bak'')"

definition temp_path :: "str \<Rightarrow> str" where
  "temp_path path = with_extension path ''tmp-write''"

text \<open>What the disk does in a save: the copy to the backup, the write of the temporary file, the rename.\<close>

record save_world =
  sw_copy :: access
  sw_write :: access
  sw_rename :: "str option"

definition save_config :: "(file_format \<Rightarrow> config \<Rightarrow> str + str) \<Rightarrow> save_world \<Rightarrow> str \<Rightarrow> config \<Rightarrow> disk
    \<Rightarrow> config_error option \<times> disk" where
  "save_config print_document w path c d =
     (case validate c of
        Some e \<Rightarrow> (Some (InvalidConfig e), d)
      | None \<Rightarrow>
          (case serialize_for print_document path c of
             Inl e \<Rightarrow> (Some e, d)
           | Inr rendered \<Rightarrow>
               let d = (case d path of Some old \<Rightarrow> snd (write_file (sw_copy w) (backup_path path) old d) | None \<Rightarrow> d)
               in (case write_file (sw_write w) (temp_path path) rendered d of
                     (Some e, d) \<Rightarrow> (Some (FileIo (temp_path path) e), d)
                   | (None, d) \<Rightarrow>
                       (case rename_file (sw_rename w) (temp_path path) path d of
                          (Some e, d) \<Rightarrow> (Some (FileIo path e), d)
                        | (None, d) \<Rightarrow> (None, d)))))"

section \<open>The files of a save are different files\<close>

lemma stem_nonempty: "name \<noteq> [] \<Longrightarrow> fst (stem_and_extension name) \<noteq> []"
  by (simp add: stem_and_extension_def Let_def)

lemma stem_in_name: "set (fst (stem_and_extension name)) \<subseteq> set name"
  by (auto simp: stem_and_extension_def Let_def dest!: in_set_butlastD in_set_takeD)

lemma takeWhile_until: "\<forall>x\<in>set xs. x \<noteq> c \<Longrightarrow> takeWhile (\<lambda>x. x \<noteq> c) (xs @ c # ys) = xs"
  by (induction xs) auto

lemma file_name_of:
  assumes "name \<noteq> []" "CHR ''/'' \<notin> set name" "last name \<noteq> CHR ''.''" "front = [] \<or> last front = CHR ''/''"
  shows "file_name (front @ name) = Some name"
proof -
  obtain n c where n: "name = n @ [c]" using assms(1) by (cases name rule: rev_cases) auto
  have b: "bare_end (rev (front @ name)) = rev name @ rev front" using assms(2,3) by (auto simp: n)
  have "takeWhile (\<lambda>c. c \<noteq> CHR ''/'') (rev name @ rev front) = rev name"
  proof (cases front rule: rev_cases)
    case Nil
    then show ?thesis using assms(2) by (auto simp: takeWhile_eq_all_conv)
  next
    case (snoc fs x)
    then show ?thesis using assms(2,4) takeWhile_until[of "rev name" "CHR ''/''" "rev fs"] by auto
  qed
  moreover have "name \<noteq> ''..''" using assms(3) by auto
  ultimately show ?thesis using assms(1) by (simp add: file_name_def b[unfolded rev_append])
qed

lemma stem_and_extension_of:
  assumes "s \<noteq> []" "CHR ''.'' \<notin> set e"
  shows "stem_and_extension (s @ ''.'' @ e) = (s, Some e)"
proof -
  have "takeWhile (\<lambda>c. c \<noteq> CHR ''.'') (rev (s @ ''.'' @ e)) = rev e"
    using takeWhile_until[of "rev e" "CHR ''.''" "rev s"] assms(2) by auto
  then show ?thesis using assms by (simp add: stem_and_extension_def butlast_append)
qed

lemma path_front_end: "path_front path = [] \<or> last (path_front path) = CHR ''/''"
  using hd_dropWhile[of "\<lambda>c. c \<noteq> CHR ''/''" "bare_end (rev path)"] by (auto simp: path_front_def last_rev)

lemma extension_given:
  assumes "file_name path = Some name" "CHR ''/'' \<notin> set e" "CHR ''.'' \<notin> set x" "x \<noteq> []" "e = x \<or> (\<exists>y. e = y @ ''.'' @ x)"
  shows "path_extension (with_extension path e) = Some x"
proof -
  let ?s = "fst (stem_and_extension name)" and ?f = "path_front path"
  have n: "name \<noteq> []" "CHR ''/'' \<notin> set name" using assms(1)
    by (auto simp: file_name_def Let_def split: if_splits dest: set_takeWhileD)
  then have s: "?s \<noteq> []" "CHR ''/'' \<notin> set ?s" using stem_nonempty stem_in_name[of name] by auto
  have "last x \<noteq> CHR ''.''" using last_in_set[OF assms(4)] assms(3) by metis
  then have l: "last (?s @ ''.'' @ e) \<noteq> CHR ''.''" using assms(4,5) by auto
  have "file_name (with_extension path e) = Some (?s @ ''.'' @ e)"
    using file_name_of[OF _ _ l path_front_end[of path]] s assms(1,2) by (simp add: with_extension_def)
  moreover have "snd (stem_and_extension (?s @ ''.'' @ e)) = Some x"
    using assms(5) stem_and_extension_of[OF s(1) assms(3)] stem_and_extension_of[of "?s @ ''.'' @ y" x for y] assms(3) by auto
  ultimately show ?thesis by (simp add: path_extension_def)
qed

lemma format_extension:
  "format_of path = Some f \<Longrightarrow> \<exists>name e. file_name path = Some name \<and> path_extension path = Some e
     \<and> to_lower e \<in> {''yaml'', ''yml'', ''toml'', ''json''} \<and> utf8_valid e"
  by (auto simp: format_of_def path_extension_def split: option.splits if_splits)

lemma derived_paths_differ:
  assumes "format_of path = Some f"
  shows "temp_path path \<noteq> path" "backup_path path \<noteq> path" "temp_path path \<noteq> backup_path path"
proof -
  obtain name e where n: "file_name path = Some name" "path_extension path = Some e" "to_lower e \<in> {''yaml'', ''yml'', ''toml'', ''json''}"
    "utf8_valid e" using format_extension[OF assms] by blast
  have l: "to_lower ''tmp-write'' = ''tmp-write''" "to_lower ''bak'' = ''bak''" by code_simp+
  have t: "path_extension (temp_path path) = Some ''tmp-write''"
    unfolding temp_path_def by (rule extension_given[OF n(1)]) simp_all
  have "CHR ''/'' \<notin> set e" using n(1,2)
    by (auto simp: path_extension_def stem_and_extension_def file_name_def Let_def split: if_splits dest!: set_takeWhileD)
  then have b: "path_extension (backup_path path) = Some ''bak''"
    unfolding backup_path_def by (intro extension_given[OF n(1)]) (use n(2,4) in auto)
  show "temp_path path \<noteq> path" "backup_path path \<noteq> path" "temp_path path \<noteq> backup_path path"
    using t b n(2,3) l by auto
qed

section \<open>Properties\<close>

lemma write_elsewhere: "write_file a q x d = (e, d') \<Longrightarrow> p \<noteq> q \<Longrightarrow> d' p = d p"
  by (cases a) auto

lemma write_done: "write_file a q x d = (None, d') \<Longrightarrow> d' q = Some x"
  by (cases a) auto

text \<open>C26. A save of the configuration is atomic, whatever fails in it: afterwards the file is what it was, and the
  save reports an error, or it is the whole new document, and the save reports none; files other than it, its
  backup and its temporary file are not touched.\<close>

theorem save_is_atomic:
  assumes "format_of path = Some f" "save_config pr w path c d = (e, d')"
  shows "(case e of Some err \<Rightarrow> d' path = d path
            | None \<Rightarrow> validate c = None \<and> (\<exists>doc. pr f c = Inr doc \<and> d' path = Some doc))
    \<and> (\<forall>p. p \<notin> {path, backup_path path, temp_path path} \<longrightarrow> d' p = d p)"
proof (cases "validate c")
  case (Some x)
  then show ?thesis using assms(2) by (auto simp: save_config_def)
next
  case None
  note differ = derived_paths_differ[OF assms(1)]
  show ?thesis
  proof (cases "pr f c")
    case (Inl x)
    then show ?thesis using None assms by (auto simp: save_config_def serialize_for_def)
  next
    case (Inr doc)
    define d1 where "d1 = (case d path of Some old \<Rightarrow> snd (write_file (sw_copy w) (backup_path path) old d) | None \<Rightarrow> d)"
    have d1: "d1 p = d p" if "p \<noteq> backup_path path" for p
      using write_elsewhere[OF prod.collapse[symmetric] that] by (auto simp: d1_def split: option.split)
    obtain e2 d2 where w: "write_file (sw_write w) (temp_path path) doc d1 = (e2, d2)" by (rule prod.exhaust)
    have d2: "d2 p = d1 p" if "p \<noteq> temp_path path" for p using write_elsewhere[OF w that] .
    have s: "(e, d') = (case e2 of Some e \<Rightarrow> (Some (FileIo (temp_path path) e), d2)
        | None \<Rightarrow> (case rename_file (sw_rename w) (temp_path path) path d2 of (Some e, d) \<Rightarrow> (Some (FileIo path e), d) | (None, d) \<Rightarrow> (None, d)))"
      using assms None Inr w by (simp add: save_config_def serialize_for_def d1_def split: option.splits)
    show ?thesis using s d1 d2 differ None Inr write_done[of "sw_write w" "temp_path path" doc d1 d2] w
      by (auto simp: rename_file_def split: option.splits)
  qed
qed

definition disk_full :: save_world where
  "disk_full = \<lparr>sw_copy = Succeeds, sw_write = Breaks ''serv'' ''no space left on device'', sw_rename = None\<rparr>"

theorem save_is_atomic_witness:
  "\<exists>e d'. save_config (\<lambda>_ _. Inr ''server:'') disk_full ''/etc/relay.yaml'' sample_config [''/etc/relay.yaml'' \<mapsto> ''relays:''] = (e, d')
     \<and> (e = None \<or> d' ''/etc/relay.yaml'' = Some ''relays:'')"
proof -
  obtain e d' where s: "save_config (\<lambda>_ _. Inr ''server:'') disk_full ''/etc/relay.yaml'' sample_config [''/etc/relay.yaml'' \<mapsto> ''relays:''] = (e, d')"
    by (rule prod.exhaust)
  have "format_of ''/etc/relay.yaml'' = Some FormatYaml" by code_simp
  then show ?thesis using save_is_atomic[OF _ s] s by (auto split: option.splits)
qed

text \<open>What was saved is what the next start or reload finds: if the parser of the format reads back what its
  printer wrote, a configuration that was saved without an error is loaded unchanged.\<close>

theorem saved_is_loaded:
  assumes "format_of path = Some f" "save_config pr w path c d = (None, d')"
    and "\<And>doc. pr f c = Inr doc \<Longrightarrow> utf8_valid doc \<and> parse_document f doc = Inr c"
  shows "load_config parse_document None d' path = Inr c"
proof -
  have v: "validate c = None" using assms(2) by (auto simp: save_config_def split: option.splits)
  obtain doc where doc: "pr f c = Inr doc" using assms(1,2) v
    by (cases "pr f c") (auto simp: save_config_def serialize_for_def)
  have "d' path = Some doc" using assms(1,2) v doc write_done[of "sw_write w" "temp_path path" doc] derived_paths_differ[OF assms(1)]
    by (auto simp: save_config_def serialize_for_def rename_file_def Let_def split: prod.splits option.splits if_splits)
  then show ?thesis using assms(1) assms(3)[OF doc] v by (simp add: load_config_def)
qed

definition all_good :: save_world where
  "all_good = \<lparr>sw_copy = Succeeds, sw_write = Succeeds, sw_rename = None\<rparr>"

theorem saved_is_loaded_witness:
  "\<exists>d'. save_config (\<lambda>_ _. Inr ''server:'') all_good ''/etc/relay.yaml'' sample_config Map.empty = (None, d')
     \<and> load_config (\<lambda>_ _. Inr sample_config) None d' ''/etc/relay.yaml'' = Inr sample_config"
proof -
  have f: "format_of ''/etc/relay.yaml'' = Some FormatYaml" "utf8_valid ''server:''" by code_simp+
  obtain d' where s: "save_config (\<lambda>_ _. Inr ''server:'') all_good ''/etc/relay.yaml'' sample_config Map.empty = (None, d')"
    by (simp add: save_config_def sample_config_accepted(1) serialize_for_def f all_good_def rename_file_def Let_def)
  show ?thesis using saved_is_loaded[OF f(1) s, of "\<lambda>_ _. Inr sample_config"] s f(2) by simp
qed

end
