(* ===== verification/Delivery.thy ===== *)
theory Delivery
  imports Config
begin

text \<open>The classification of delivery failures (src/error.rs) and the outbound client
  (src/relay/sender.rs). The SMTP client library is a parameter: an error of it is seen through its
  text and its permanence flag, an address parser and an envelope constructor are functions, and
  sending is a function of the envelope and the raw bytes.\<close>

section \<open>Failures\<close>

datatype failure_kind = Transient | Permanent

definition is_transient :: "failure_kind \<Rightarrow> bool" where
  "is_transient k = (k = Transient)"

fun failure_kind_str :: "failure_kind \<Rightarrow> str" where
  "failure_kind_str Transient = ''transient''"
| "failure_kind_str Permanent = ''permanent''"

record delivery_error =
  kind :: failure_kind
  message :: str
  status_code :: "nat option"

definition transient :: "str \<Rightarrow> delivery_error" where
  "transient m = \<lparr>kind = Transient, message = m, status_code = None\<rparr>"

definition permanent :: "str \<Rightarrow> delivery_error" where
  "permanent m = \<lparr>kind = Permanent, message = m, status_code = None\<rparr>"

definition with_status :: "nat \<Rightarrow> delivery_error \<Rightarrow> delivery_error" where
  "with_status code e = e\<lparr>status_code := Some code\<rparr>"

definition is_relay_fault :: "delivery_error \<Rightarrow> bool" where
  "is_relay_fault e =
     (case status_code e of
        None \<Rightarrow> True
      | Some code \<Rightarrow>
          if 400 \<le> code \<and> code < 500 then True
          else if code \<in> {530, 534, 535, 538} then True
          else 500 \<le> code \<and> code \<le> 504)"

definition should_retry :: "delivery_error \<Rightarrow> bool" where
  "should_retry e = (is_transient (kind e) \<or> is_relay_fault e)"

definition error_str :: "delivery_error \<Rightarrow> str" where
  "error_str e =
     (case status_code e of
        Some code \<Rightarrow> ''['' @ failure_kind_str (kind e) @ ''/'' @ dec code @ ''] '' @ message e
      | None \<Rightarrow> ''['' @ failure_kind_str (kind e) @ ''] '' @ message e)"

section \<open>Errors of the client library\<close>

record smtp_error =
  se_text :: str
  se_permanent :: bool

text \<open>The scan for a status code: the byte before the window, and the bytes from the window on.\<close>

fun scan_status :: "char option \<Rightarrow> bytes \<Rightarrow> nat option" where
  "scan_status prev (a # b # c # rest) =
     (let code = (digit_val a * 10 + digit_val b) * 10 + digit_val c;
          leading_ok = (case prev of None \<Rightarrow> True | Some p \<Rightarrow> \<not> is_alnum_byte p);
          trailing_ok = (case rest of [] \<Rightarrow> True | d # _ \<Rightarrow> \<not> is_digit_byte d)
      in if is_digit_byte a \<and> is_digit_byte b \<and> is_digit_byte c \<and> leading_ok \<and> trailing_ok
           \<and> 200 \<le> code \<and> code \<le> 599
         then Some code else scan_status (Some a) (b # c # rest))"
| "scan_status prev _ = None"

definition extract_status_code :: "str \<Rightarrow> nat option" where
  "extract_status_code m = scan_status None m"

definition classify :: "smtp_error \<Rightarrow> delivery_error" where
  "classify error =
     (let m = truncate_str (se_text error) 400;
          e = (if se_permanent error then permanent m else transient m)
      in case extract_status_code m of Some code \<Rightarrow> with_status code e | None \<Rightarrow> e)"

section \<open>Handing a message over\<close>

text \<open>The reply of an upstream relay: its code and its lines.\<close>

definition describe_response :: "nat \<Rightarrow> str list \<Rightarrow> str" where
  "describe_response code ls = truncate_str (trim (dec code @ '' '' @ join '' '' ls)) 300"

fun parse_recipients :: "(str \<Rightarrow> str + 'addr) \<Rightarrow> str list \<Rightarrow> delivery_error + 'addr list" where
  "parse_recipients parse_addr [] = Inr []"
| "parse_recipients parse_addr (r # rs) =
     (case parse_addr r of
        Inl e \<Rightarrow> Inl (permanent (''recipient '' @ bq r @ '' is invalid: '' @ e))
      | Inr a \<Rightarrow> (case parse_recipients parse_addr rs of Inl e \<Rightarrow> Inl e | Inr to \<Rightarrow> Inr (a # to)))"

definition build_envelope :: "(str \<Rightarrow> str + 'addr) \<Rightarrow> ('addr option \<Rightarrow> 'addr list \<Rightarrow> str + 'env)
    \<Rightarrow> str \<Rightarrow> str list \<Rightarrow> delivery_error + 'env" where
  "build_envelope parse_addr new_envelope envelope_from recipients =
     (if recipients = [] then Inl (permanent ''message has no recipients'')
      else case parse_addr envelope_from of
        Inl e \<Rightarrow> Inl (permanent (''relay from_address '' @ bq envelope_from
                   @ '' is not a valid envelope sender: '' @ e))
      | Inr from \<Rightarrow>
          (case parse_recipients parse_addr recipients of
             Inl e \<Rightarrow> Inl e
           | Inr to \<Rightarrow> (case new_envelope (Some from) to of
                          Inl e \<Rightarrow> Inl (permanent (''invalid envelope: '' @ e))
                        | Inr env \<Rightarrow> Inr env)))"

text \<open>\<^verbatim>\<open>deliver\<close> without the measured latency: the description of the upstream reply, or the
  classified failure.\<close>

definition deliver :: "(str \<Rightarrow> str + 'addr) \<Rightarrow> ('addr option \<Rightarrow> 'addr list \<Rightarrow> str + 'env)
    \<Rightarrow> ('env \<Rightarrow> bytes \<Rightarrow> smtp_error + nat \<times> str list) \<Rightarrow> str \<Rightarrow> str list \<Rightarrow> bytes \<Rightarrow> delivery_error + str" where
  "deliver parse_addr new_envelope send_raw envelope_from recipients raw =
     (case build_envelope parse_addr new_envelope envelope_from recipients of
        Inl e \<Rightarrow> Inl e
      | Inr envelope \<Rightarrow>
          (case send_raw envelope raw of
             Inr (code, ls) \<Rightarrow> Inr (describe_response code ls)
           | Inl error \<Rightarrow> Inl (classify error)))"

text \<open>The connection test; \<open>test\<close> is the answer of the library.\<close>

definition probe_transport :: "smtp_error + bool \<Rightarrow> delivery_error option" where
  "probe_transport test =
     (case test of
        Inr True \<Rightarrow> None
      | Inr False \<Rightarrow> Some (transient ''relay did not accept the connection test'')
      | Inl error \<Rightarrow> Some (classify error))"

datatype auth_mechanism = MechPlain | MechLogin | MechXoauth2

definition mechanisms_for :: "str option \<Rightarrow> auth_mechanism list" where
  "mechanisms_for requested =
     (let m = map_option to_lower requested
      in if m = Some ''plain'' then [MechPlain]
         else if m = Some ''login'' then [MechLogin]
         else if m = Some ''xoauth2'' then [MechXoauth2]
         else [MechPlain, MechLogin])"

definition trim_quotes :: "str \<Rightarrow> str" where
  "trim_quotes s = rev (dropWhile (\<lambda>c. c = DQ) (rev (dropWhile (\<lambda>c. c = DQ) s)))"

definition trim_cr :: "str \<Rightarrow> str" where
  "trim_cr s = rev (dropWhile (\<lambda>c. c = CR) (rev s))"

definition test_from_address :: "relay_config \<Rightarrow> str" where
  "test_from_address r =
     (let eff = effective_from_address r in
      if eff \<noteq> [] then eff
      else case r_auth r of
             Some a \<Rightarrow> let u = trim (username a) in
               if looks_like_email u then u else ''noreply@'' @ host r
           | None \<Rightarrow> ''noreply@'' @ host r)"

definition build_test_message :: "(bytes \<Rightarrow> str) \<Rightarrow> str \<Rightarrow> relay_config \<Rightarrow> str \<Rightarrow> str \<Rightarrow> str \<Rightarrow> str
    \<Rightarrow> str \<Rightarrow> bytes" where
  "build_test_message b64e date r hn recipient subject body queue_id =
     (let from_address = test_from_address r;
          from = format_mailbox b64e ''SMTP Relay'' from_address;
          domain = address_domain from_address
      in ''From: '' @ from @ CRLF
         @ ''To: <'' @ recipient @ ''>'' @ CRLF
         @ ''Subject: '' @ trim_quotes (encode_display_name b64e subject) @ CRLF
         @ ''Date: '' @ date @ CRLF
         @ ''Message-ID: <'' @ queue_id @ ''@'' @ domain @ ''>'' @ CRLF
         @ ''MIME-Version: 1.0'' @ CRLF
         @ ''Content-Type: text/plain; charset=utf-8'' @ CRLF
         @ ''Content-Transfer-Encoding: 8bit'' @ CRLF
         @ ''Auto-Submitted: auto-generated'' @ CRLF
         @ ''X-Relay-Node: '' @ r_id r @ CRLF
         @ ''X-Relay-Origin: '' @ hn @ CRLF
         @ CRLF
         @ concat (map (\<lambda>line. trim_cr line @ CRLF) (split_all LF body)))"

section \<open>Lemmas\<close>

definition digits3 :: "nat \<Rightarrow> str" where
  "digits3 c = [digit_char (c div 100), digit_char (c div 10 mod 10), digit_char (c mod 10)]"

lemma scan_status_skip:
  assumes "list_all (\<lambda>c. \<not> is_digit_byte c) p" "3 \<le> length s"
  shows "scan_status prev (p @ s) = scan_status (if p = [] then prev else Some (last p)) s"
  using assms
proof (induction p arbitrary: prev)
  case (Cons a p)
  have "2 \<le> length (p @ s)" using Cons.prems(2) by simp
  then obtain b c t where "p @ s = b # c # t" by (cases "p @ s"; cases "tl (p @ s)") auto
  then have "scan_status prev ((a # p) @ s) = scan_status (Some a) (p @ s)"
    using Cons.prems(1) by simp
  with Cons show ?case by simp
qed simp

lemma extract_leading_code:
  assumes "list_all (\<lambda>c. \<not> is_digit_byte c) p" "p = [] \<or> \<not> is_alnum_byte (last p)"
    and "200 \<le> c" "c \<le> 599" "s = [] \<or> \<not> is_digit_byte (hd s)"
  shows "extract_status_code (p @ digits3 c @ s) = Some c"
proof -
  have d: "c div 100 < 10" "c div 10 mod 10 < 10" "c mod 10 < 10" using assms(4) by auto
  have e: "(c div 100 * 10 + c div 10 mod 10) * 10 + c mod 10 = c"
    using div_mult_mod_eq[of "c div 10" 10] div_mult_mod_eq[of c 10] by (simp add: div_mult2_eq[symmetric])
  have "scan_status None (p @ digits3 c @ s) = scan_status (if p = [] then None else Some (last p)) (digits3 c @ s)"
    using scan_status_skip[OF assms(1), of "digits3 c @ s" None] by (simp add: digits3_def)
  also have "\<dots> = Some c"
    using assms(2-5) d e by (cases s) (auto simp: digits3_def digit_char_props Let_def)
  finally show ?thesis by (simp add: extract_status_code_def)
qed

lemma scan_status_range: "scan_status prev m = Some c \<Longrightarrow> 200 \<le> c \<and> c \<le> 599"
  by (induction prev m rule: scan_status.induct) (auto simp: Let_def split: if_splits)

lemma length_chars: "length (chars s) \<le> length s"
  by (induction s rule: chars.induct) (auto intro: order.trans)

lemma classify_short:
  "length (se_text e) \<le> 400 \<Longrightarrow> classify e =
     \<lparr>kind = (if se_permanent e then Permanent else Transient), message = se_text e,
      status_code = extract_status_code (se_text e)\<rparr>"
  using order.trans[OF length_chars[of "se_text e"], of 400]
  by (simp add: classify_def truncate_str_def permanent_def transient_def with_status_def Let_def split: option.splits)

section \<open>Properties\<close>

text \<open>An SMTP reply that the client library reports with its code is offered to another attempt
  exactly when the library calls it transient or its code blames the relay: any 4xx, a syntax error
  500-504, or an authentication code. In particular a permanent 550 is never retried.\<close>

theorem retry_decision:
  assumes "list_all (\<lambda>c. \<not> is_digit_byte c) p" "p = [] \<or> \<not> is_alnum_byte (last p)"
    and "200 \<le> c" "c \<le> 599" "s = [] \<or> \<not> is_digit_byte (hd s)"
    and "length p + length s \<le> 397"
  shows "should_retry (classify \<lparr>se_text = p @ digits3 c @ s, se_permanent = b\<rparr>)
     \<longleftrightarrow> \<not> b \<or> 400 \<le> c \<and> c \<le> 504 \<or> c \<in> {530, 534, 535, 538}"
  using assms(6) extract_leading_code[OF assms(1-5)]
  by (auto simp: classify_short digits3_def should_retry_def is_transient_def is_relay_fault_def)

theorem retry_decision_witness:
  "\<not> should_retry (classify \<lparr>se_text = ''permanent error (550): no such user 4xx'', se_permanent = True\<rparr>)
   \<and> should_retry (classify \<lparr>se_text = ''permanent error (535): no such user 4xx'', se_permanent = True\<rparr>)"
proof -
  have p: "list_all (\<lambda>c. \<not> is_digit_byte c) ''permanent error (''" "\<not> is_alnum_byte (last ''permanent error ('')"
    by (simp_all add: is_digit_byte_def is_alnum_byte_def byte_def)
  have s: "\<not> is_digit_byte (hd ''): no such user 4xx'')" by (simp add: is_digit_byte_def byte_def)
  have d: "digits3 550 = ''550''" "digits3 535 = ''535''" by (code_simp, code_simp)
  show ?thesis
    using retry_decision[OF p(1) disjI2[OF p(2)] _ _ disjI2[OF s], of 550 True]
      retry_decision[OF p(1) disjI2[OF p(2)] _ _ disjI2[OF s], of 535 True]
    by (simp add: d)
qed

text \<open>A failure that reaches the dispatcher from an unusable envelope is permanent, names the bad
  address, and nothing is sent: the upstream is only contacted with an envelope for every recipient,
  in order.\<close>

theorem deliver_envelope:
  "deliver parse_addr new_envelope send_raw from rcpts raw =
     (if rcpts = [] then Inl (permanent ''message has no recipients'')
      else case parse_addr from of
        Inl e \<Rightarrow> Inl (permanent (''relay from_address '' @ bq from @ '' is not a valid envelope sender: '' @ e))
      | Inr f \<Rightarrow>
          (case List.find (\<lambda>r. \<exists>e. parse_addr r = Inl e) rcpts of
             Some r \<Rightarrow> Inl (permanent (''recipient '' @ bq r @ '' is invalid: '' @ projl (parse_addr r)))
           | None \<Rightarrow>
               (case new_envelope (Some f) (map (projr \<circ> parse_addr) rcpts) of
                  Inl e \<Rightarrow> Inl (permanent (''invalid envelope: '' @ e))
                | Inr env \<Rightarrow> map_sum classify (\<lambda>(c, ls). describe_response c ls) (send_raw env raw))))"
proof -
  have "parse_recipients parse_addr rs =
      (case List.find (\<lambda>r. \<exists>e. parse_addr r = Inl e) rs of
         Some r \<Rightarrow> Inl (permanent (''recipient '' @ bq r @ '' is invalid: '' @ projl (parse_addr r)))
       | None \<Rightarrow> Inr (map (projr \<circ> parse_addr) rs))" for rs
    by (induction rs) (auto split: sum.splits option.splits)
  then show ?thesis
    by (auto simp: deliver_def build_envelope_def split: sum.splits option.splits)
qed

end
