(* ===== verification/Pool.thy ===== *)
theory Pool
  imports Delivery "HOL-Library.Signed_Division"
begin

text \<open>The relay pool (src/relay/pool.rs): the circuit breaker, the quota windows and the counters of
  one relay, its eligibility, and the pool with its round-robin cursor and its smooth weighted
  round-robin. Every method is a function of the state it locks; the interleavings of concurrent
  deliveries are the sequences of these operations. A \<open>clock\<close> carries the monotonic time in
  nanoseconds and the UTC time in seconds.\<close>

section \<open>State\<close>

record clock =
  mono :: nat
  utc :: int

definition secs :: "nat \<Rightarrow> nat" where
  "secs n = n * 1000000000"

datatype circuit_state = Closed | Open | HalfOpen

record circuit =
  state :: circuit_state
  open_until :: "nat option"
  consecutive_failures :: u32
  consecutive_successes :: u32
  healthy :: bool
  last_error :: "str option"
  last_error_at :: "int option"
  last_success_at :: "int option"
  last_probe_at :: "int option"
  last_probe_ms :: "nat option"
  trips :: u64
  manually_disabled :: bool

definition new_circuit :: circuit where
  "new_circuit = \<lparr>state = Closed, open_until = None, consecutive_failures = 0,
     consecutive_successes = 0, healthy = True, last_error = None, last_error_at = None,
     last_success_at = None, last_probe_at = None, last_probe_ms = None, trips = 0,
     manually_disabled = False\<rparr>"

record usage =
  minute_key :: int
  minute_count :: nat
  hour_key :: int
  hour_count :: nat
  day_key :: int
  day_count :: nat
  total :: nat

definition new_usage :: usage where
  "new_usage = \<lparr>minute_key = 0, minute_count = 0, hour_key = 0, hour_count = 0,
     day_key = 0, day_count = 0, total = 0\<rparr>"

definition roll :: "int \<Rightarrow> usage \<Rightarrow> usage" where
  "roll now u =
     (let minute = now sdiv 60; hour = now sdiv 3600; day = now sdiv 86400;
          u = (if minute_key u \<noteq> minute then u\<lparr>minute_key := minute, minute_count := 0\<rparr> else u);
          u = (if hour_key u \<noteq> hour then u\<lparr>hour_key := hour, hour_count := 0\<rparr> else u)
      in if day_key u \<noteq> day then u\<lparr>day_key := day, day_count := 0\<rparr> else u)"

record stats =
  sent :: u64
  failed :: u64
  deferred :: u64
  attempts :: u64
  bytes_sent :: u64
  latency_sum_ms :: u64
  latency_count :: u64
  last_latency_ms :: u64

definition new_stats :: stats where
  "new_stats = \<lparr>sent = 0, failed = 0, deferred = 0, attempts = 0, bytes_sent = 0,
     latency_sum_ms = 0, latency_count = 0, last_latency_ms = 0\<rparr>"

record relay_runtime =
  rcfg :: relay_config
  active :: bool
  in_flight :: nat
  circuit :: circuit
  usage :: usage
  stats :: stats

definition new_relay :: "relay_config \<Rightarrow> relay_runtime" where
  "new_relay cfg = \<lparr>rcfg = cfg, active = r_enabled cfg, in_flight = 0, circuit = new_circuit,
     usage = new_usage, stats = new_stats\<rparr>"

definition id_of :: "relay_runtime \<Rightarrow> str" where
  "id_of r = r_id (rcfg r)"

section \<open>Activation\<close>

definition activate :: "relay_runtime \<Rightarrow> bool \<times> relay_runtime" where
  "activate r =
     (let changed = \<not> active r; c = (circuit r)\<lparr>manually_disabled := False\<rparr>;
          c = (if state c \<noteq> Closed
               then c\<lparr>state := Closed, open_until := None, consecutive_failures := 0\<rparr> else c)
      in (changed, r\<lparr>active := True, circuit := c\<rparr>))"

definition deactivate :: "relay_runtime \<Rightarrow> bool \<times> relay_runtime" where
  "deactivate r = (active r, r\<lparr>active := False, circuit := (circuit r)\<lparr>manually_disabled := True\<rparr>\<rparr>)"

definition set_active :: "bool \<Rightarrow> relay_runtime \<Rightarrow> bool \<times> relay_runtime" where
  "set_active a r = (if a then activate r else deactivate r)"

section \<open>Circuit breaker\<close>

definition circuit_state :: "clock \<Rightarrow> relay_runtime \<Rightarrow> circuit_state \<times> relay_runtime" where
  "circuit_state clk r =
     (let c = circuit r;
          expired = (case open_until c of Some deadline \<Rightarrow> deadline \<le> mono clk | None \<Rightarrow> True);
          c = (if state c = Open \<and> expired then c\<lparr>state := HalfOpen, open_until := None\<rparr> else c)
      in (state c, r\<lparr>circuit := c\<rparr>))"

definition record_success :: "clock \<Rightarrow> health_config \<Rightarrow> nat \<Rightarrow> relay_runtime \<Rightarrow> relay_runtime" where
  "record_success clk h latency_ms r =
     (let c = (circuit r)\<lparr>consecutive_failures := 0,
             consecutive_successes := sat_inc (consecutive_successes (circuit r)),
             last_success_at := Some (utc clk), last_error := None\<rparr>;
          c = (if state c \<noteq> Closed \<and> max (success_threshold h) 1 \<le> consecutive_successes c
                 \<and> auto_recover h \<and> \<not> manually_disabled c
               then c\<lparr>state := Closed, open_until := None\<rparr> else c);
          millis = (of_nat (min latency_ms (2 ^ 64 - 1)) :: u64);
          s = stats r
      in r\<lparr>circuit := c\<lparr>healthy := True\<rparr>,
           stats := s\<lparr>latency_sum_ms := latency_sum_ms s + millis, latency_count := latency_count s + 1,
             last_latency_ms := millis\<rparr>\<rparr>)"

definition cooldown_end :: "clock \<Rightarrow> health_config \<Rightarrow> nat" where
  "cooldown_end clk h = mono clk + secs (max (cooldown_seconds h) 1)"

definition record_failure :: "clock \<Rightarrow> health_config \<Rightarrow> str \<Rightarrow> relay_runtime \<Rightarrow> bool \<times> relay_runtime" where
  "record_failure clk h error r =
     (let c = (circuit r)\<lparr>consecutive_successes := 0,
             consecutive_failures := sat_inc (consecutive_failures (circuit r)),
             last_error := Some (truncate_str error 400), last_error_at := Some (utc clk), healthy := False\<rparr>
      in if auto_disable h \<and> state c \<noteq> Open \<and> max (failure_threshold h) 1 \<le> consecutive_failures c
         then (True, r\<lparr>circuit := c\<lparr>state := Open, open_until := Some (cooldown_end clk h), trips := trips c + 1\<rparr>\<rparr>)
         else (False, r\<lparr>circuit :=
                (if state c = HalfOpen then c\<lparr>state := Open, open_until := Some (cooldown_end clk h)\<rparr> else c)\<rparr>))"

definition reset_circuit :: "relay_runtime \<Rightarrow> relay_runtime" where
  "reset_circuit r = r\<lparr>circuit := (circuit r)\<lparr>state := Closed, open_until := None,
     consecutive_failures := 0, last_error := None, healthy := True\<rparr>\<rparr>"

definition record_probe :: "clock \<Rightarrow> nat option \<Rightarrow> relay_runtime \<Rightarrow> relay_runtime" where
  "record_probe clk ms r =
     r\<lparr>circuit := (circuit r)\<lparr>last_probe_at := Some (utc clk), last_probe_ms := ms\<rparr>\<rparr>"

section \<open>Quotas\<close>

fun below :: "nat \<Rightarrow> nat option \<Rightarrow> bool" where
  "below n None = True"
| "below n (Some limit) = (n < limit)"

definition has_quota :: "relay_config \<Rightarrow> usage \<Rightarrow> bool" where
  "has_quota cfg u = (below (minute_count u) (max_per_minute cfg) \<and> below (hour_count u) (max_per_hour cfg)
     \<and> below (day_count u) (max_per_day cfg))"

definition try_reserve_quota :: "clock \<Rightarrow> relay_runtime \<Rightarrow> bool \<times> relay_runtime" where
  "try_reserve_quota clk r =
     (let u = roll (utc clk) (usage r)
      in if has_quota (rcfg r) u
         then (True, r\<lparr>usage := u\<lparr>minute_count := minute_count u + 1, hour_count := hour_count u + 1,
                day_count := day_count u + 1, total := total u + 1\<rparr>\<rparr>)
         else (False, r\<lparr>usage := u\<rparr>))"

definition release_quota :: "relay_runtime \<Rightarrow> relay_runtime" where
  "release_quota r = (let u = usage r in
     r\<lparr>usage := u\<lparr>minute_count := minute_count u - 1, hour_count := hour_count u - 1,
        day_count := day_count u - 1, total := total u - 1\<rparr>\<rparr>)"

definition quota_exhausted :: "clock \<Rightarrow> relay_runtime \<Rightarrow> bool \<times> relay_runtime" where
  "quota_exhausted clk r =
     (let u = roll (utc clk) (usage r);
          full = (\<lambda>n limit. case limit of Some l \<Rightarrow> l \<le> n | None \<Rightarrow> False)
      in (full (minute_count u) (max_per_minute (rcfg r)) \<or> full (hour_count u) (max_per_hour (rcfg r))
            \<or> full (day_count u) (max_per_day (rcfg r)), r\<lparr>usage := u\<rparr>))"

definition hour_usage :: "clock \<Rightarrow> relay_runtime \<Rightarrow> nat \<times> relay_runtime" where
  "hour_usage clk r = (let u = roll (utc clk) (usage r) in (hour_count u, r\<lparr>usage := u\<rparr>))"

section \<open>Concurrency and eligibility\<close>

definition has_capacity :: "relay_runtime \<Rightarrow> bool" where
  "has_capacity r = (in_flight r < max (max_concurrent (rcfg r)) 1)"

definition begin_delivery :: "relay_runtime \<Rightarrow> relay_runtime" where
  "begin_delivery r = r\<lparr>in_flight := in_flight r + 1\<rparr>"

definition drop_guard :: "relay_runtime \<Rightarrow> relay_runtime" where
  "drop_guard r = r\<lparr>in_flight := in_flight r - 1\<rparr>"

definition is_eligible :: "clock \<Rightarrow> relay_runtime \<Rightarrow> bool \<times> relay_runtime" where
  "is_eligible clk r =
     (if \<not> active r then (False, r)
      else let (cs, r1) = circuit_state clk r in
        if cs = Open then (False, r1)
        else if \<not> has_capacity r1 then (False, r1)
        else let (full, r2) = quota_exhausted clk r1 in (\<not> full, r2))"

definition ineligible_reason :: "clock \<Rightarrow> relay_runtime \<Rightarrow> str option \<times> relay_runtime" where
  "ineligible_reason clk r =
     (if \<not> active r then (Some ''deactivated'', r)
      else let (cs, r1) = circuit_state clk r in
        if cs = Open then (Some ''circuit_open'', r1)
        else let (full, r2) = quota_exhausted clk r1 in
          if full then (Some ''quota_reached'', r2)
          else if \<not> has_capacity r2 then (Some ''at_concurrency_limit'', r2)
          else (None, r2))"

section \<open>Outcomes\<close>

definition record_delivery :: "clock \<Rightarrow> nat \<Rightarrow> nat \<Rightarrow> health_config \<Rightarrow> relay_runtime \<Rightarrow> relay_runtime" where
  "record_delivery clk n latency_ms h r =
     (let s = stats r in record_success clk h latency_ms
        (r\<lparr>stats := s\<lparr>sent := sent s + 1, attempts := attempts s + 1, bytes_sent := bytes_sent s + of_nat n\<rparr>\<rparr>))"

definition record_deferral :: "clock \<Rightarrow> str \<Rightarrow> health_config \<Rightarrow> relay_runtime \<Rightarrow> bool \<times> relay_runtime" where
  "record_deferral clk error h r =
     (let s = stats r in record_failure clk h error
        (r\<lparr>stats := s\<lparr>deferred := deferred s + 1, attempts := attempts s + 1\<rparr>\<rparr>))"

definition record_permanent_failure :: "clock \<Rightarrow> str \<Rightarrow> relay_runtime \<Rightarrow> relay_runtime" where
  "record_permanent_failure clk error r =
     (let s = stats r in
      r\<lparr>stats := s\<lparr>failed := failed s + 1, attempts := attempts s + 1\<rparr>,
        circuit := (circuit r)\<lparr>last_error := Some (truncate_str error 400), last_error_at := Some (utc clk)\<rparr>\<rparr>)"

definition reset_stats :: "relay_runtime \<Rightarrow> relay_runtime" where
  "reset_stats r = r\<lparr>stats := new_stats, circuit := (circuit r)\<lparr>trips := 0, last_error := None\<rparr>\<rparr>"

definition carry_over_from :: "relay_runtime \<Rightarrow> bool \<Rightarrow> relay_runtime \<Rightarrow> relay_runtime" where
  "carry_over_from previous keep_activation r =
     (let p = usage previous;
          r = r\<lparr>stats := stats previous,
                usage := (usage r)\<lparr>hour_key := hour_key p, hour_count := hour_count p,
                  day_key := day_key p, day_count := day_count p, total := total p\<rparr>,
                circuit := circuit previous\<rparr>
      in if keep_activation then r\<lparr>active := active previous\<rparr> else r)"

section \<open>The pool\<close>

record pool =
  relays :: "relay_runtime list"
  index :: "str \<Rightarrow> nat option"
  routing :: routing_config
  smtp_details :: "smtp_detail list"
  cursor :: nat
  smooth_weights :: "int list"

text \<open>\<open>transport_error\<close> is the error of building the transport of a relay, if any.\<close>

fun build_relays :: "(relay_config \<Rightarrow> nat \<Rightarrow> str option) \<Rightarrow> nat \<Rightarrow> relay_config list
    \<Rightarrow> str + relay_runtime list" where
  "build_relays transport_error timeout [] = Inr []"
| "build_relays transport_error timeout (c # cs) =
     (case transport_error c timeout of
        Some e \<Rightarrow> Inl (''relay '' @ bq (r_id c) @ '': '' @ e)
      | None \<Rightarrow> (case build_relays transport_error timeout cs of
                   Inl e \<Rightarrow> Inl e | Inr rs \<Rightarrow> Inr (new_relay c # rs)))"

definition build_index :: "relay_runtime list \<Rightarrow> str \<Rightarrow> nat option" where
  "build_index rs = map_of (rev (map (\<lambda>(i, r). (id_of r, i)) (enumerate 0 rs)))"

definition build :: "(relay_config \<Rightarrow> nat \<Rightarrow> str option) \<Rightarrow> config \<Rightarrow> str + pool" where
  "build transport_error c =
     (case build_relays transport_error (sc_timeout_seconds (server c)) (config.relays c) of
        Inl e \<Rightarrow> Inl e
      | Inr rs \<Rightarrow> Inr \<lparr>relays = rs, index = build_index rs, routing = config.routing c,
                     smtp_details = config.smtp_details c, cursor = 0,
                     smooth_weights = replicate (length rs) 0\<rparr>)"

definition get :: "str \<Rightarrow> pool \<Rightarrow> relay_runtime option" where
  "get i p = (case index p i of
     Some n \<Rightarrow> if n < length (relays p) then Some (relays p ! n) else None | None \<Rightarrow> None)"

definition position_of :: "pool \<Rightarrow> str \<Rightarrow> nat option" where
  "position_of p i = index p i"

definition rebuild_from :: "(relay_config \<Rightarrow> nat \<Rightarrow> str option) \<Rightarrow> pool \<Rightarrow> config \<Rightarrow> str + pool" where
  "rebuild_from transport_error previous c =
     (case build transport_error c of
        Inl e \<Rightarrow> Inl e
      | Inr p \<Rightarrow> Inr (p\<lparr>relays := map (\<lambda>r. case get (id_of r) previous of
            None \<Rightarrow> r
          | Some old \<Rightarrow> carry_over_from old (r_enabled (rcfg old) = r_enabled (rcfg r)) r) (relays p)\<rparr>))"

definition update_at :: "nat \<Rightarrow> relay_runtime \<Rightarrow> pool \<Rightarrow> pool" where
  "update_at n r p = p\<lparr>relays := (relays p)[n := r]\<rparr>"

text \<open>The relays for which an operation answers \<^const>\<open>True\<close>, each left in its new state.\<close>

fun each :: "(relay_runtime \<Rightarrow> bool \<times> relay_runtime) \<Rightarrow> relay_runtime list
    \<Rightarrow> str list \<times> relay_runtime list" where
  "each f [] = ([], [])"
| "each f (r # rs) =
     (let (yes, r') = f r; (is, rs') = each f rs
      in (if yes then id_of r' # is else is, r' # rs'))"

definition set_all :: "bool \<Rightarrow> pool \<Rightarrow> str list \<times> pool" where
  "set_all a p = (let (is, rs) = each (set_active a) (relays p) in (is, p\<lparr>relays := rs\<rparr>))"

definition eligible_count :: "clock \<Rightarrow> pool \<Rightarrow> nat \<times> pool" where
  "eligible_count clk p = (let (is, rs) = each (is_eligible clk) (relays p) in (length is, p\<lparr>relays := rs\<rparr>))"

fun set_many_loop :: "bool \<Rightarrow> str list \<Rightarrow> str list \<Rightarrow> str list \<Rightarrow> pool \<Rightarrow> (str list \<times> str list) \<times> pool" where
  "set_many_loop a [] changed unknown p = ((changed, unknown), p)"
| "set_many_loop a (i # is) changed unknown p =
     (case (position_of p i, get i p) of
        (Some n, Some r) \<Rightarrow>
          let (yes, r') = set_active a r
          in set_many_loop a is (if yes then changed @ [i] else changed) unknown (update_at n r' p)
      | _ \<Rightarrow> set_many_loop a is changed (unknown @ [i]) p)"

definition set_many :: "str list \<Rightarrow> bool \<Rightarrow> pool \<Rightarrow> (str list \<times> str list) \<times> pool" where
  "set_many is a p = set_many_loop a is [] [] p"

definition set_exclusive :: "str list \<Rightarrow> pool \<Rightarrow> (str list \<times> str list) \<times> pool" where
  "set_exclusive is p =
     (let unknown = filter (\<lambda>i. index p i = None) is;
          (changed, rs) = each (\<lambda>r. set_active (id_of r \<in> set is) r) (relays p)
      in ((changed, unknown), p\<lparr>relays := rs\<rparr>))"

text \<open>Shares of the general traffic, in percent; the quotient is of finite floats.\<close>

definition in_general_pool :: "relay_runtime \<Rightarrow> bool" where
  "in_general_pool r = (active r \<and> in_rotation_pool (rcfg r) \<and> smtp_detail_id (rcfg r) = None)"

fun f64_div :: "f64 \<Rightarrow> f64 \<Rightarrow> f64" where
  "f64_div (Fin x) (Fin y) = (if y = 0 then NaN else f64_round (x / y))"
| "f64_div x y = NaN"

definition weight_percentages :: "pool \<Rightarrow> (str \<times> f64) list" where
  "weight_percentages p =
     (let whole = sum_list (map (weight \<circ> rcfg) (filter in_general_pool (relays p)))
      in map (\<lambda>r. (id_of r,
           if \<not> in_general_pool r \<or> whole = 0 then Fin 0
           else f64_mul (f64_div (u64_to_f64 (weight (rcfg r))) (u64_to_f64 whole)) (Fin 100))) (relays p))"

definition next_cursor :: "nat \<Rightarrow> pool \<Rightarrow> nat \<times> pool" where
  "next_cursor m p =
     (if m = 0 then (0, p)
      else (cursor p mod m, p\<lparr>cursor := (cursor p + 1) mod 2 ^ 64\<rparr>))"

section \<open>Smooth weighted round-robin\<close>

definition pick_weight :: "pool \<Rightarrow> nat \<Rightarrow> int" where
  "pick_weight p n = int (max (weight (rcfg (relays p ! n))) 1)"

text \<open>The loop over the candidates: current weights, their total, and the best so far.\<close>

fun swrr_loop :: "(nat \<Rightarrow> int) \<Rightarrow> nat list \<Rightarrow> int list \<Rightarrow> int \<Rightarrow> nat option \<Rightarrow> int list \<times> int \<times> nat option" where
  "swrr_loop pw [] ws tot best = (ws, tot, best)"
| "swrr_loop pw (c # cs) ws tot best =
     (let ws = ws[c := ws ! c + pw c];
          is_better = (case best of Some b \<Rightarrow> ws ! b < ws ! c | None \<Rightarrow> True)
      in swrr_loop pw cs ws (tot + pw c) (if is_better then Some c else best))"

definition resize :: "nat \<Rightarrow> int list \<Rightarrow> int list" where
  "resize n ws = take n ws @ replicate (n - length ws) 0"

definition smooth_weighted_pick :: "nat list \<Rightarrow> pool \<Rightarrow> nat option \<times> pool" where
  "smooth_weighted_pick candidates p =
     (if candidates = [] then (None, p)
      else let ws = resize (length (relays p)) (smooth_weights p);
               (ws, tot, best) = swrr_loop (pick_weight p) candidates ws 0 None
           in (best, p\<lparr>smooth_weights :=
                 (case best of Some b \<Rightarrow> ws[b := ws ! b - tot] | None \<Rightarrow> ws)\<rparr>))"

section \<open>The breaker as a step relation\<close>

datatype relay_op =
    OpSuccess nat | OpFailure str | OpDelivery nat nat | OpDeferral str | OpPermanent str
  | OpProbe "nat option" | OpActivate | OpDeactivate | OpReset | OpObserve | OpEligible
  | OpReserve | OpRelease | OpBegin | OpEnd | OpResetStats

inductive relay_step :: "health_config \<Rightarrow> relay_runtime \<Rightarrow> clock \<Rightarrow> relay_op \<Rightarrow> relay_runtime \<Rightarrow> bool"
  for h where
  "relay_step h r clk (OpSuccess ms) (record_success clk h ms r)"
| "relay_step h r clk (OpFailure e) (snd (record_failure clk h e r))"
| "relay_step h r clk (OpDelivery n ms) (record_delivery clk n ms h r)"
| "relay_step h r clk (OpDeferral e) (snd (record_deferral clk e h r))"
| "relay_step h r clk (OpPermanent e) (record_permanent_failure clk e r)"
| "relay_step h r clk (OpProbe ms) (record_probe clk ms r)"
| "relay_step h r clk OpActivate (snd (activate r))"
| "relay_step h r clk OpDeactivate (snd (deactivate r))"
| "relay_step h r clk OpReset (reset_circuit r)"
| "relay_step h r clk OpObserve (snd (circuit_state clk r))"
| "relay_step h r clk OpEligible (snd (is_eligible clk r))"
| "relay_step h r clk OpReserve (snd (try_reserve_quota clk r))"
| "relay_step h r clk OpRelease (release_quota r)"
| "relay_step h r clk OpBegin (begin_delivery r)"
| "relay_step h r clk OpEnd (drop_guard r)"
| "relay_step h r clk OpResetStats (reset_stats r)"

inductive_cases relay_stepE: "relay_step h r clk op r'"

inductive relay_steps :: "health_config \<Rightarrow> relay_runtime \<Rightarrow> (clock \<times> relay_op) list \<Rightarrow> relay_runtime \<Rightarrow> bool"
  for h where
  steps_nil: "relay_steps h r [] r"
| steps_cons: "relay_step h r clk op r' \<Longrightarrow> relay_steps h r' ops r'' \<Longrightarrow> relay_steps h r ((clk, op) # ops) r''"

inductive_simps relay_steps_simps [simp]: "relay_steps h r [] r'" "relay_steps h r ((clk, op) # ops) r'"

lemmas breaker_defs = record_success_def record_failure_def record_delivery_def record_deferral_def
  record_permanent_failure_def record_probe_def activate_def deactivate_def reset_circuit_def
  circuit_state_def is_eligible_def quota_exhausted_def try_reserve_quota_def release_quota_def
  begin_delivery_def drop_guard_def reset_stats_def set_active_def

text \<open>What holds of a relay between any two operations: an open breaker has a deadline and no other
  state has one, a manually disabled relay is off, and no counter is above its limit.\<close>

definition at_most :: "nat \<Rightarrow> nat option \<Rightarrow> bool" where
  "at_most n limit = (case limit of Some l \<Rightarrow> n \<le> l | None \<Rightarrow> True)"

definition usage_ok :: "relay_config \<Rightarrow> usage \<Rightarrow> bool" where
  "usage_ok cfg u = (at_most (minute_count u) (max_per_minute cfg) \<and> at_most (hour_count u) (max_per_hour cfg)
     \<and> at_most (day_count u) (max_per_day cfg))"

definition relay_ok :: "relay_runtime \<Rightarrow> bool" where
  "relay_ok r = ((state (circuit r) = Open \<longleftrightarrow> open_until (circuit r) \<noteq> None)
     \<and> (manually_disabled (circuit r) \<longrightarrow> \<not> active r) \<and> usage_ok (rcfg r) (usage r))"

lemma at_most_simps [simp]: "at_most n None" "at_most 0 limit" "at_most n limit \<Longrightarrow> at_most (n - k) limit"
  by (auto simp: at_most_def split: option.splits)

lemma below_at_most: "below n limit \<Longrightarrow> at_most (Suc n) limit"
  by (cases limit) (auto simp: at_most_def)

lemma usage_ok_roll: "usage_ok cfg u \<Longrightarrow> usage_ok cfg (roll now u)"
  by (auto simp: usage_ok_def roll_def Let_def)

lemma usage_ok_reserve:
  "usage_ok cfg u \<Longrightarrow> has_quota cfg u \<Longrightarrow> usage_ok cfg (u\<lparr>minute_count := Suc (minute_count u),
     hour_count := Suc (hour_count u), day_count := Suc (day_count u), total := t\<rparr>)"
  by (simp add: usage_ok_def has_quota_def below_at_most)

lemma usage_ok_release:
  "usage_ok cfg u \<Longrightarrow> usage_ok cfg (u\<lparr>minute_count := minute_count u - k,
     hour_count := hour_count u - k, day_count := day_count u - k, total := t\<rparr>)"
  by (simp add: usage_ok_def)

lemma relay_ok_step: "relay_step h r clk op r' \<Longrightarrow> relay_ok r \<Longrightarrow> relay_ok r' \<and> rcfg r' = rcfg r"
  by (erule relay_stepE)
    (auto simp: breaker_defs relay_ok_def Let_def usage_ok_roll usage_ok_reserve usage_ok_release
      split: option.splits)

lemma relay_ok_steps: "relay_steps h r ops r' \<Longrightarrow> relay_ok r \<Longrightarrow> relay_ok r' \<and> rcfg r' = rcfg r"
  by (induction rule: relay_steps.induct) (auto dest: relay_ok_step)

lemma relay_ok_new: "relay_ok (new_relay cfg)"
  by (simp add: relay_ok_def new_relay_def new_circuit_def new_usage_def usage_ok_def)

lemma relay_ok_carry_over:
  "relay_ok previous \<Longrightarrow> usage_ok (rcfg r) ((usage previous)\<lparr>minute_count := 0\<rparr>) \<Longrightarrow>
   minute_count (usage r) = 0 \<Longrightarrow> relay_ok (carry_over_from previous True r)"
  by (auto simp: relay_ok_def carry_over_from_def usage_ok_def Let_def)

text \<open>Until its deadline an open breaker is only closed by a success or by the operator.\<close>

definition closing :: "relay_op \<Rightarrow> bool" where
  "closing op = (case op of OpSuccess _ \<Rightarrow> True | OpDelivery _ _ \<Rightarrow> True | OpActivate \<Rightarrow> True
     | OpReset \<Rightarrow> True | _ \<Rightarrow> False)"

definition tripped :: "nat \<Rightarrow> relay_runtime \<Rightarrow> bool" where
  "tripped d r = (state (circuit r) = Open \<and> open_until (circuit r) = Some d)"

lemma tripped_step:
  "relay_step h r clk op r' \<Longrightarrow> tripped d r \<Longrightarrow> mono clk < d \<Longrightarrow> \<not> closing op \<Longrightarrow> tripped d r'"
  by (erule relay_stepE) (auto simp: breaker_defs tripped_def closing_def Let_def)

lemma tripped_steps:
  "relay_steps h r ops r' \<Longrightarrow> tripped d r \<Longrightarrow> \<forall>(clk, op)\<in>set ops. mono clk < d \<and> \<not> closing op \<Longrightarrow> tripped d r'"
  by (induction rule: relay_steps.induct) (auto dest: tripped_step)

lemma tripped_not_eligible: "tripped d r \<Longrightarrow> mono clk < d \<Longrightarrow> \<not> fst (is_eligible clk r)"
  by (auto simp: tripped_def is_eligible_def circuit_state_def Let_def)

lemma is_eligible_iff:
  "fst (is_eligible clk r) \<longleftrightarrow> active r \<and> fst (circuit_state clk r) \<noteq> Open \<and> has_capacity r
     \<and> has_quota (rcfg r) (roll (utc clk) (usage r))"
proof -
  have b: "(case limit of Some l \<Rightarrow> l \<le> n | None \<Rightarrow> False) \<longleftrightarrow> \<not> below n limit" for n limit
    by (cases limit) auto
  have 1: "has_capacity (r\<lparr>circuit := c\<rparr>) = has_capacity r" for c by (simp add: has_capacity_def)
  show ?thesis
    by (auto simp: is_eligible_def circuit_state_def quota_exhausted_def Let_def b 1 has_quota_def)
qed

lemma ineligible_reason_iff: "fst (ineligible_reason clk r) = None \<longleftrightarrow> fst (is_eligible clk r)"
  by (auto simp: ineligible_reason_def is_eligible_def Let_def has_capacity_def quota_exhausted_def
      circuit_state_def)

section \<open>Consecutive failures\<close>

fun fail_times :: "health_config \<Rightarrow> (clock \<times> str) list \<Rightarrow> relay_runtime \<Rightarrow> relay_runtime" where
  "fail_times h [] r = r"
| "fail_times h ((clk, e) # fs) r = fail_times h fs (snd (record_failure clk h e r))"

lemma fail_open:
  "state (circuit r) = Open \<Longrightarrow> state (circuit (fail_times h fs r)) = Open
     \<and> open_until (circuit (fail_times h fs r)) = open_until (circuit r)"
  by (induction h fs r rule: fail_times.induct) (auto simp: record_failure_def Let_def)

lemma fail_closed:
  assumes "auto_disable h" "state (circuit r) = Closed"
    and "unat (consecutive_failures (circuit r)) < unat (max (failure_threshold h) 1)"
  shows "state (circuit (fail_times h fs r)) =
     (if unat (consecutive_failures (circuit r)) + length fs < unat (max (failure_threshold h) 1)
      then Closed else Open)"
  using assms(2,3)
proof (induction fs arbitrary: r)
  case (Cons f fs)
  obtain clk e where f: "f = (clk, e)" by (cases f)
  let ?r = "snd (record_failure clk h e r)"
  let ?n = "unat (consecutive_failures (circuit r))"
  have "unat (max (failure_threshold h) 1) < 2 ^ LENGTH(32)" by (rule unsigned_less)
  then have "?n < 2 ^ 32 - 1" using Cons.prems(2) by simp
  then have n: "unat (sat_inc (consecutive_failures (circuit r))) = ?n + 1" by (simp add: unat_sat_inc)
  show ?case
  proof (cases "?n + 1 < unat (max (failure_threshold h) 1)")
    case True
    then have "\<not> max (failure_threshold h) 1 \<le> sat_inc (consecutive_failures (circuit r))"
      using n by (simp add: word_le_nat_alt)
    then have "state (circuit ?r) = Closed" "unat (consecutive_failures (circuit ?r)) = ?n + 1"
      using Cons.prems n by (auto simp: record_failure_def Let_def)
    with Cons.IH[of ?r] True show ?thesis by (simp add: f)
  next
    case False
    then have "max (failure_threshold h) 1 \<le> sat_inc (consecutive_failures (circuit r))"
      using n by (simp add: word_le_nat_alt)
    then have "state (circuit ?r) = Open" using Cons.prems assms(1) by (simp add: record_failure_def Let_def)
    with fail_open[of ?r h fs] False show ?thesis by (simp add: f)
  qed
qed simp

section \<open>Quota windows\<close>

text \<open>One window of the quota: its key is the time divided by the width, a reservation is granted
  below the limit and counted, and a key change starts a new count.\<close>

locale quota_window =
  fixes key :: "usage \<Rightarrow> int" and count :: "usage \<Rightarrow> nat" and width :: int
    and limit :: "relay_config \<Rightarrow> nat option"
  assumes width_pos: "0 < width"
    and rolled: "key (roll now u) = now sdiv width"
      "count (roll now u) = (if key u = now sdiv width then count u else 0)"
    and granted: "has_quota cfg u \<Longrightarrow> below (count u) (limit cfg)"
    and counted: "key (u\<lparr>minute_count := minute_count u + 1, hour_count := hour_count u + 1,
        day_count := day_count u + 1, total := total u + 1\<rparr>) = key u"
      "count (u\<lparr>minute_count := minute_count u + 1, hour_count := hour_count u + 1,
        day_count := day_count u + 1, total := total u + 1\<rparr>) = count u + 1"
begin

lemma reserve_step:
  assumes "try_reserve_quota clk r = (yes, r')"
  shows "key (usage r') = utc clk sdiv width" "rcfg r' = rcfg r"
    "count (usage r') = (if key (usage r) = utc clk sdiv width then count (usage r) else 0) + of_bool yes"
    "yes \<Longrightarrow> limit (rcfg r) = Some l \<Longrightarrow>
       (if key (usage r) = utc clk sdiv width then count (usage r) else 0) < l"
  using assms rolled[of "utc clk" "usage r"] counted[of "roll (utc clk) (usage r)"]
    granted[of "rcfg r" "roll (utc clk) (usage r)"]
  by (auto simp: try_reserve_quota_def Let_def split: if_splits)

end

text \<open>Reservations at a sequence of times; the times at which one was granted.\<close>

fun reserve_run :: "clock list \<Rightarrow> relay_runtime \<Rightarrow> int list \<times> relay_runtime" where
  "reserve_run [] r = ([], r)"
| "reserve_run (clk # cs) r =
     (let (yes, r1) = try_reserve_quota clk r; (gs, r2) = reserve_run cs r1
      in (if yes then utc clk # gs else gs, r2))"

lemma reserve_run_times: "set (fst (reserve_run cs r)) \<subseteq> utc ` set cs"
proof (induction cs arbitrary: r)
  case (Cons c cs)
  show ?case using Cons.IH[of "snd (try_reserve_quota c r)"] by (auto split: prod.splits)
qed simp

context quota_window
begin

lemma sdiv_mono: "0 \<le> a \<Longrightarrow> a \<le> b \<Longrightarrow> a sdiv width \<le> (b :: int) sdiv width"
  using width_pos by (auto simp: signed_divide_int_def sgn_if zdiv_mono1 pos_imp_zdiv_nonneg_iff)

lemma window_bound:
  assumes "limit (rcfg r) = Some l" "sorted (map utc cs)" "\<forall>c\<in>set cs. 0 \<le> utc c"
    and "\<forall>c\<in>set cs. key (usage r) \<le> utc c sdiv width" "count (usage r) \<le> l"
  shows "length (filter (\<lambda>t. t sdiv width = w) (fst (reserve_run cs r)))
     + (if key (usage r) = w then count (usage r) else 0) \<le> l"
  using assms
proof (induction cs arbitrary: r)
  case (Cons c cs)
  obtain yes r1 where s: "try_reserve_quota c r = (yes, r1)" by (cases "try_reserve_quota c r")
  note step = reserve_step[OF s]
  let ?k = "utc c sdiv width"
  have later: "?k \<le> utc x sdiv width" if "x \<in> set cs" for x
    using Cons.prems(2,3) that by (auto intro: sdiv_mono)
  have "limit (rcfg r1) = Some l" using Cons.prems(1) step(2) by simp
  moreover have "count (usage r1) \<le> l"
    using Cons.prems(1,5) step(3) step(4)[of l] by (cases yes) (auto split: if_splits)
  ultimately have IH: "length (filter (\<lambda>t. t sdiv width = w) (fst (reserve_run cs r1)))
      + (if ?k = w then count (usage r1) else 0) \<le> l"
    using Cons.IH[of r1] Cons.prems(2,3) later step(1) by simp
  show ?case
  proof (cases "?k = w")
    case True
    then show ?thesis using IH step(3) s by (auto split: prod.splits if_splits)
  next
    case False
    show ?thesis
    proof (cases "key (usage r) = w")
      case True
      then have "w < ?k" using False Cons.prems(4) by force
      then have "\<forall>t\<in>set (fst (reserve_run cs r1)). t sdiv width \<noteq> w"
        using later reserve_run_times[of cs r1] by fastforce
      then have "filter (\<lambda>t. t sdiv width = w) (fst (reserve_run cs r1)) = []" by simp
      then show ?thesis using True False Cons.prems(5) s by (auto split: prod.splits)
    qed (use IH False s in \<open>auto split: prod.splits\<close>)
  qed
qed simp

end

interpretation minute: quota_window minute_key minute_count 60 max_per_minute
  by unfold_locales (auto simp: roll_def Let_def has_quota_def)

interpretation hour: quota_window hour_key hour_count 3600 max_per_hour
  by unfold_locales (auto simp: roll_def Let_def has_quota_def)

interpretation day: quota_window day_key day_count 86400 max_per_day
  by unfold_locales (auto simp: roll_def Let_def has_quota_def)

section \<open>The smooth weighted round-robin keeps exact shares\<close>

lemma swrr_loop_spec:
  assumes "swrr_loop pw cs ws t best = (ws', t', best')" "distinct cs" "\<forall>c\<in>set cs. c < length ws"
    and "\<forall>b. best = Some b \<longrightarrow> b \<notin> set cs \<and> b < length ws"
  shows "length ws' = length ws \<and> t' = t + sum_list (map pw cs)
    \<and> (\<forall>i<length ws. ws' ! i = ws ! i + (if i \<in> set cs then pw i else 0))
    \<and> (best' = None \<longleftrightarrow> best = None \<and> cs = [])
    \<and> (\<forall>b. best' = Some b \<longrightarrow> b \<in> set cs \<union> set_option best \<and> (\<forall>c\<in>set cs \<union> set_option best. ws' ! c \<le> ws' ! b))"
  using assms
proof (induction cs arbitrary: ws t best)
  case (Cons c cs)
  let ?ws = "ws[c := ws ! c + pw c]"
  let ?better = "case best of Some b \<Rightarrow> ?ws ! b < ?ws ! c | None \<Rightarrow> True"
  let ?best = "if ?better then Some c else best"
  have run: "swrr_loop pw cs ?ws (t + pw c) ?best = (ws', t', best')"
    using Cons.prems(1) by (simp add: Let_def)
  have "\<forall>b. ?best = Some b \<longrightarrow> b \<notin> set cs \<and> b < length ?ws" using Cons.prems(2-4) by auto
  note IH = Cons.IH[OF run _ _ this]
  have IH: "length ws' = length ws" "t' = t + pw c + sum_list (map pw cs)"
    "\<forall>i<length ws. ws' ! i = ?ws ! i + (if i \<in> set cs then pw i else 0)"
    "best' \<noteq> None"
    "\<forall>b. best' = Some b \<longrightarrow> b \<in> set cs \<union> set_option ?best \<and> (\<forall>c\<in>set cs \<union> set_option ?best. ws' ! c \<le> ws' ! b)"
    using IH Cons.prems(2,3) by (auto split: if_splits option.splits)
  have same: "ws' ! i = ws ! i + (if i \<in> set (c # cs) then pw i else 0)" if "i < length ws" for i
    using IH(3) that Cons.prems(2,3) by (auto simp: nth_list_update)
  have c: "ws' ! c = ?ws ! c" using IH(3) Cons.prems(2,3) by auto
  have top: "ws' ! x \<le> ws' ! y" if "x \<in> insert c (set_option best)" "?best = Some y" for x y
  proof (cases best)
    case (Some b)
    then have "ws' ! b = ?ws ! b" using IH(3) Cons.prems(2,4) by auto
    then show ?thesis using that Some c by (auto split: if_splits)
  qed (use that in auto)
  have "b \<in> set (c # cs) \<union> set_option best \<and> (\<forall>x\<in>set (c # cs) \<union> set_option best. ws' ! x \<le> ws' ! b)"
    if "best' = Some b" for b
  proof -
    have b: "b \<in> set cs \<union> set_option ?best" "\<forall>x\<in>set cs \<union> set_option ?best. ws' ! x \<le> ws' ! b"
      using IH(5) that by auto
    have "?best \<noteq> None" by (auto split: option.split)
    then obtain y where y: "?best = Some y" by blast
    then have "ws' ! y \<le> ws' ! b" using b(2) by auto
    then have "\<forall>x\<in>insert c (set_option best). ws' ! x \<le> ws' ! b" using top[OF _ y] by (meson order.trans)
    moreover have "b \<in> set (c # cs) \<union> set_option best" using b(1) by (auto split: if_splits)
    ultimately show ?thesis using b(2) by auto
  qed
  then show ?case using IH(1,2,4) same by auto
qed simp

text \<open>The candidates, the weight lists and the sum of the picking weights over the candidates.\<close>

definition swrr_ok :: "nat list \<Rightarrow> pool \<Rightarrow> bool" where
  "swrr_ok cs p = (distinct cs \<and> cs \<noteq> [] \<and> (\<forall>c\<in>set cs. c < length (relays p))
     \<and> length (smooth_weights p) = length (relays p))"

definition share_sum :: "nat list \<Rightarrow> pool \<Rightarrow> int" where
  "share_sum cs p = sum_list (map (pick_weight p) cs)"

lemma resize_same [simp]: "length ws = n \<Longrightarrow> resize n ws = ws"
  by (simp add: resize_def)

lemma smooth_weighted_pick_spec:
  assumes ok: "swrr_ok cs p" and pick: "smooth_weighted_pick cs p = (best, p')"
  obtains b where "best = Some b" "b \<in> set cs" "relays p' = relays p"
    "length (smooth_weights p') = length (smooth_weights p)"
    "\<And>i. i < length (relays p) \<Longrightarrow> smooth_weights p' ! i = smooth_weights p ! i
       + (if i \<in> set cs then pick_weight p i else 0) - (if i = b then share_sum cs p else 0)"
    "\<And>c. c \<in> set cs \<Longrightarrow> smooth_weights p ! c + pick_weight p c \<le> smooth_weights p ! b + pick_weight p b"
proof -
  obtain ws t bst where l: "swrr_loop (pick_weight p) cs (smooth_weights p) 0 None = (ws, t, bst)"
    by (cases "swrr_loop (pick_weight p) cs (smooth_weights p) 0 None")
  have d: "distinct cs" "\<forall>c\<in>set cs. c < length (smooth_weights p)"
    "\<forall>b. None = Some b \<longrightarrow> b \<notin> set cs \<and> b < length (smooth_weights p)"
    using ok by (auto simp: swrr_ok_def)
  note spec = swrr_loop_spec[OF l d]
  have len: "cs \<noteq> []" "length (smooth_weights p) = length (relays p)" using ok by (auto simp: swrr_ok_def)
  have s: "length ws = length (relays p)" "t = share_sum cs p" "bst \<noteq> None"
    "\<And>i. i < length (relays p) \<Longrightarrow> ws ! i = smooth_weights p ! i + (if i \<in> set cs then pick_weight p i else 0)"
    "\<And>b. bst = Some b \<Longrightarrow> b \<in> set cs \<and> (\<forall>c\<in>set cs. ws ! c \<le> ws ! b)"
    using spec len by (simp_all add: share_sum_def)
  obtain b where b: "bst = Some b" using s(3) by blast
  have p': "best = Some b" "p' = p\<lparr>smooth_weights := ws[b := ws ! b - t]\<rparr>"
    using pick ok l b by (auto simp: smooth_weighted_pick_def swrr_ok_def)
  show thesis
  proof
    show "best = Some b" "relays p' = relays p" by (simp_all add: p')
    show bc: "b \<in> set cs" using s(5)[OF b] by blast
    show "length (smooth_weights p') = length (smooth_weights p)" using s(1) ok by (simp add: p' swrr_ok_def)
    show "smooth_weights p' ! i = smooth_weights p ! i
       + (if i \<in> set cs then pick_weight p i else 0) - (if i = b then share_sum cs p else 0)"
      if "i < length (relays p)" for i
      using s(1,2,4) that by (auto simp: p' nth_list_update)
    show "smooth_weights p ! c + pick_weight p c \<le> smooth_weights p ! b + pick_weight p b" if "c \<in> set cs" for c
      using s(4,5) b bc that ok by (metis swrr_ok_def)
  qed
qed

text \<open>A number of picks in a row over the same candidates.\<close>

fun picks :: "nat \<Rightarrow> nat list \<Rightarrow> pool \<Rightarrow> nat list \<times> pool" where
  "picks 0 cs p = ([], p)"
| "picks (Suc n) cs p =
     (let (bs, p') = picks n cs p; (b, p'') = smooth_weighted_pick cs p'
      in (bs @ (case b of Some b \<Rightarrow> [b] | None \<Rightarrow> []), p''))"

lemma pick_weight_pos: "1 \<le> pick_weight p c"
  by (simp add: pick_weight_def)

lemma pick_weight_cong: "relays p' = relays p \<Longrightarrow> pick_weight p' = pick_weight p"
  by (simp add: pick_weight_def fun_eq_iff)

lemma share_sum_pos: "cs \<noteq> [] \<Longrightarrow> 0 < share_sum cs p"
proof -
  have "int (length cs) \<le> share_sum cs p"
    unfolding share_sum_def
  proof (induction cs)
    case (Cons c cs)
    then show ?case using pick_weight_pos[of p c] by simp
  qed simp
  then show "cs \<noteq> [] \<Longrightarrow> 0 < share_sum cs p" by (cases cs) auto
qed

lemma picks_total:
  assumes "swrr_ok cs p" "length bs = n" "set bs \<subseteq> set cs"
  shows "(\<Sum>c\<in>set cs. count_list bs c) = n"
proof -
  have "(\<Sum>c\<in>set cs. count_list bs c) = (\<Sum>c\<in>set bs. count_list bs c)"
    using assms(3) by (intro sum.mono_neutral_right) (auto simp: count_list_0_iff)
  then show ?thesis using assms(2) sum_count_set[of bs "set bs"] by simp
qed

text \<open>After \<open>n\<close> picks the weight of a candidate is \<open>n\<close> times its share minus its picks times the
  whole, and never falls to minus the whole.\<close>

lemma picks_invariant:
  assumes "swrr_ok cs p" "\<forall>w\<in>set (smooth_weights p). w = 0" "picks n cs p = (bs, q)"
  shows "swrr_ok cs q \<and> relays q = relays p \<and> length bs = n \<and> set bs \<subseteq> set cs
    \<and> (\<forall>c\<in>set cs. smooth_weights q ! c = int n * pick_weight p c - share_sum cs p * int (count_list bs c)
                   \<and> - share_sum cs p < smooth_weights q ! c)"
  using assms(3)
proof (induction n arbitrary: bs q)
  case 0
  have "0 < share_sum cs p" using assms(1) by (simp add: share_sum_pos swrr_ok_def)
  moreover have "\<forall>c\<in>set cs. smooth_weights p ! c = 0"
    using assms(1,2) by (simp add: swrr_ok_def)
  ultimately show ?case using 0 assms(1) by auto
next
  case (Suc n)
  obtain bs1 p1 where r: "picks n cs p = (bs1, p1)" by (cases "picks n cs p")
  let ?W = "share_sum cs p"
  have ok1: "swrr_ok cs p1" and rel: "relays p1 = relays p" and len: "length bs1 = n"
    and sub: "set bs1 \<subseteq> set cs" and wt: "\<And>c. c \<in> set cs \<Longrightarrow>
      smooth_weights p1 ! c = int n * pick_weight p c - ?W * int (count_list bs1 c)"
    and low: "\<And>c. c \<in> set cs \<Longrightarrow> - ?W < smooth_weights p1 ! c"
    using Suc.IH[OF r] by blast+
  have W: "share_sum cs p1 = ?W" "pick_weight p1 = pick_weight p"
    by (simp_all add: share_sum_def pick_weight_cong[OF rel])
  obtain best p2 where s: "smooth_weighted_pick cs p1 = (best, p2)" by (cases "smooth_weighted_pick cs p1")
  obtain b where b: "best = Some b" "b \<in> set cs" "relays p2 = relays p1"
    "length (smooth_weights p2) = length (smooth_weights p1)"
    "\<And>i. i < length (relays p1) \<Longrightarrow> smooth_weights p2 ! i = smooth_weights p1 ! i
       + (if i \<in> set cs then pick_weight p i else 0) - (if i = b then ?W else 0)"
    "\<And>c. c \<in> set cs \<Longrightarrow> smooth_weights p1 ! c + pick_weight p c \<le> smooth_weights p1 ! b + pick_weight p b"
    by (rule smooth_weighted_pick_spec[OF ok1 s, unfolded W]) (rule that)
  have q: "bs = bs1 @ [b]" "q = p2" using Suc.prems r s b(1) by auto
  have dist: "distinct cs" "\<forall>c\<in>set cs. c < length (relays p1)" using ok1 by (auto simp: swrr_ok_def)
  have total: "sum_list (map (\<lambda>c. smooth_weights p1 ! c + pick_weight p c) cs) = ?W"
  proof -
    have "sum_list (map (\<lambda>c. smooth_weights p1 ! c + pick_weight p c) cs)
        = (\<Sum>c\<in>set cs. smooth_weights p1 ! c + pick_weight p c)"
      using dist by (simp add: sum_list_distinct_conv_sum_set)
    also have "\<dots> = (\<Sum>c\<in>set cs. (int n + 1) * pick_weight p c - ?W * int (count_list bs1 c))"
      by (rule sum.cong) (simp_all add: wt algebra_simps)
    also have "\<dots> = (int n + 1) * ?W - ?W * (\<Sum>c\<in>set cs. int (count_list bs1 c))"
      using dist by (simp add: sum_subtractf sum_distrib_left[symmetric] share_sum_def sum_list_distinct_conv_sum_set)
    also have "(\<Sum>c\<in>set cs. int (count_list bs1 c)) = int n"
      using picks_total[OF ok1 len sub] by (metis of_nat_sum)
    finally show ?thesis by (simp add: algebra_simps)
  qed
  have pos: "0 < smooth_weights p1 ! b + pick_weight p b"
  proof (rule ccontr)
    assume "\<not> ?thesis"
    then have "\<forall>c\<in>set cs. smooth_weights p1 ! c + pick_weight p c \<le> 0" using b(6) by force
    then have "?W \<le> 0" using total by (metis (no_types, lifting) sum_list_nonpos imageE set_map)
    moreover have "0 < ?W" using assms(1) by (simp add: share_sum_pos swrr_ok_def)
    ultimately show False by simp
  qed
  have wq: "smooth_weights q ! c = int (Suc n) * pick_weight p c - ?W * int (count_list bs c) \<and> - ?W < smooth_weights q ! c"
    if "c \<in> set cs" for c
  proof -
    have c: "smooth_weights q ! c = smooth_weights p1 ! c + pick_weight p c - (if c = b then ?W else 0)"
      using b(5) dist(2) that by (simp add: q)
    show ?thesis
      using wt[OF that] low[OF that] pos c pick_weight_pos[of p c] by (auto simp: q algebra_simps)
  qed
  have "swrr_ok cs q" "relays q = relays p" "length bs = Suc n" "set bs \<subseteq> set cs"
    using ok1 rel len sub b(2-4) q by (simp_all add: swrr_ok_def)
  then show ?case using wq by blast
qed

lemma picks_bound:
  assumes "swrr_ok cs p" "\<forall>w\<in>set (smooth_weights p). w = 0" "c \<in> set cs"
  shows "share_sum cs p * int (count_list (fst (picks n cs p)) c) < int n * pick_weight p c + share_sum cs p"
  using picks_invariant[OF assms(1,2), of n "fst (picks n cs p)" "snd (picks n cs p)"] assms(3) by force

lemma picks_exact:
  assumes "swrr_ok cs p" "\<forall>w\<in>set (smooth_weights p). w = 0" "int n = int m * share_sum cs p"
    and "c \<in> set cs"
  shows "int (count_list (fst (picks n cs p)) c) = int m * pick_weight p c"
proof -
  let ?bs = "fst (picks n cs p)" and ?W = "share_sum cs p"
  have W: "0 < ?W" using assms(1) by (simp add: share_sum_pos swrr_ok_def)
  have inv: "length ?bs = n" "set ?bs \<subseteq> set cs"
    using picks_invariant[OF assms(1,2), of n ?bs "snd (picks n cs p)"] by simp_all
  have le: "int (count_list ?bs d) \<le> int m * pick_weight p d" if "d \<in> set cs" for d
  proof -
    have "?W * int (count_list ?bs d) < ?W * (int m * pick_weight p d + 1)"
      using picks_bound[OF assms(1,2) that, of n] assms(3) by (simp add: algebra_simps)
    then show ?thesis using W by (simp add: mult_less_cancel_left)
  qed
  have dist: "distinct cs" using assms(1) by (simp add: swrr_ok_def)
  have "(\<Sum>d\<in>set cs. int (count_list ?bs d)) = int n"
    using picks_total[OF assms(1) inv] by (metis of_nat_sum)
  also have "\<dots> = (\<Sum>d\<in>set cs. int m * pick_weight p d)"
    using assms(3) dist by (simp add: share_sum_def sum_list_distinct_conv_sum_set sum_distrib_left)
  finally have "(\<Sum>d\<in>set cs. int m * pick_weight p d - int (count_list ?bs d)) = 0"
    by (simp add: sum_subtractf)
  then have "\<forall>d\<in>set cs. int m * pick_weight p d - int (count_list ?bs d) = 0"
    using le by (subst (asm) sum_nonneg_eq_0_iff) auto
  then show ?thesis using assms(4) by simp
qed

section \<open>Properties\<close>

text \<open>C16. The smooth weighted round-robin gives every candidate its exact share: over any multiple of the
  total weight a relay is picked in proportion to its weight, and at no moment is it more than one
  message ahead of that proportion.\<close>

theorem swrr_exact_shares:
  assumes "distinct cs" "cs \<noteq> []" "\<forall>c\<in>set cs. c < length (relays p)"
    and "smooth_weights p = replicate (length (relays p)) 0" "c \<in> set cs"
  shows "share_sum cs p * int (count_list (fst (picks n cs p)) c) < int n * pick_weight p c + share_sum cs p
    \<and> (int n = int m * share_sum cs p \<longrightarrow> int (count_list (fst (picks n cs p)) c) = int m * pick_weight p c)"
proof -
  have "swrr_ok cs p" using assms by (simp add: swrr_ok_def)
  moreover have "\<forall>w\<in>set (smooth_weights p). w = 0" using assms(4) by simp
  ultimately show ?thesis using picks_bound picks_exact assms(5) by blast
qed

definition sample_pool :: "nat list \<Rightarrow> pool" where
  "sample_pool ws = \<lparr>relays = map (\<lambda>w. new_relay (default_relay\<lparr>r_id := dec w, weight := w\<rparr>)) ws,
     index = (\<lambda>i. None), routing = default_routing, smtp_details = [], cursor = 0,
     smooth_weights = replicate (length ws) 0\<rparr>"

theorem swrr_exact_shares_witness:
  "int (count_list (fst (picks 7 [0, 1, 2] (sample_pool [5, 1, 1]))) 0) = 5"
proof -
  have w: "pick_weight (sample_pool [5, 1, 1]) 0 = 5" "share_sum [0, 1, 2] (sample_pool [5, 1, 1]) = 7"
    by (simp_all add: pick_weight_def share_sum_def sample_pool_def new_relay_def)
  show ?thesis
    using swrr_exact_shares[of "[0, 1, 2]" "sample_pool [5, 1, 1]" 0 7 1] w
    by (simp add: sample_pool_def)
qed

text \<open>A relay with weight 0 is shown with a share of 0 percent, and still receives its turn of the
  weighted rotation.\<close>

theorem weight_zero_still_picked:
  "map snd (weight_percentages (sample_pool [0, 1])) = [Fin 0, Fin 100]
   \<and> fst (picks 2 [0, 1] (sample_pool [0, 1])) = [0, 1]"
proof
  have "u64_to_f64 0 = Fin 0" "u64_to_f64 1 = Fin 1" by (simp_all add: u64_to_f64_exact)
  moreover have "f64_div (Fin 0) (Fin 1) = Fin 0" by (simp add: f64_round_def)
  moreover have "f64_mul (Fin 0) (Fin 100) = Fin 0" by (simp add: f64_round_def)
  moreover have "f64_div (Fin 1) (Fin 1) = Fin 1" using u64_to_f64_exact[of 1] by (simp add: u64_to_f64_def)
  moreover have "f64_mul (Fin 1) (Fin 100) = Fin 100" using u64_to_f64_exact[of 100] by (simp add: u64_to_f64_def)
  ultimately show "map snd (weight_percentages (sample_pool [0, 1])) = [Fin 0, Fin 100]"
    by (simp add: weight_percentages_def sample_pool_def in_general_pool_def new_relay_def default_relay_def)
  show "fst (picks 2 [0, 1] (sample_pool [0, 1])) = [0, 1]"
    by (simp add: numeral_2_eq_2 smooth_weighted_pick_def sample_pool_def pick_weight_def new_relay_def)
qed



definition second :: "int \<Rightarrow> clock" where
  "second t = \<lparr>mono = secs (nat t), utc = t\<rparr>"

lemmas quota_eval = new_relay_def new_usage_def try_reserve_quota_def release_quota_def has_quota_def
  roll_def signed_divide_int_def default_relay_def second_def carry_over_from_def

text \<open>A reservation given back after its window has ended is taken off the next window: with a limit
  of one per minute, two deliveries are granted in the same minute and both stand.\<close>

theorem late_release_undercounts:
  "let r = new_relay (default_relay\<lparr>max_per_minute := Some 1\<rparr>);
       (a, r) = try_reserve_quota (second 59) r;
       (b, r) = try_reserve_quota (second 60) r;
       r = release_quota r;
       (c, r) = try_reserve_quota (second 61) r
   in a \<and> b \<and> c"
  by (simp add: quota_eval)

text \<open>Reloading the configuration keeps the hourly and daily counts, the breaker, the statistics and
  the live switch of a relay, but forgets the count of the running minute: at a limit of one per
  minute a second delivery is granted one second later.\<close>

theorem reload_resets_minute_quota:
  "(let r = carry_over_from old True (new_relay cfg)
   in hour_count (usage r) = hour_count (usage old) \<and> hour_key (usage r) = hour_key (usage old)
    \<and> day_count (usage r) = day_count (usage old) \<and> day_key (usage r) = day_key (usage old)
    \<and> circuit r = circuit old \<and> stats r = stats old \<and> active r = active old)
   \<and> (let c = default_relay\<lparr>max_per_minute := Some 1\<rparr>;
       (a, r) = try_reserve_quota (second 60) (new_relay c);
       (b, r) = try_reserve_quota (second 61) r;
       (d, r) = try_reserve_quota (second 61) (carry_over_from r True (new_relay c))
   in a \<and> \<not> b \<and> d)"
  by (simp add: quota_eval Let_def)



text \<open>C24. A tripped breaker keeps its relay out of rotation: until the cooldown ends no operation but a
  success or the operator's own makes it eligible - failures, probes and quota traffic included.\<close>

theorem open_breaker_excludes:
  assumes "state (circuit r) = Open" "open_until (circuit r) = Some d"
    and "relay_steps h r ops r'" "\<forall>(clk, op)\<in>set ops. mono clk < d \<and> \<not> closing op" "mono now < d"
  shows "\<not> fst (is_eligible now r')"
  using tripped_steps[OF assms(3) _ assms(4)] tripped_not_eligible[OF _ assms(5)] assms(1,2)
  by (auto simp: tripped_def)


definition third_failure :: relay_runtime where
  "third_failure = fail_times default_health (map (\<lambda>t. (second t, ''refused'')) [1, 2, 3]) (new_relay default_relay)"


definition open_relay :: relay_runtime where
  "open_relay = (new_relay default_relay)\<lparr>circuit := new_circuit\<lparr>state := Open, open_until := Some (secs 303)\<rparr>\<rparr>"

theorem open_breaker_excludes_witness:
  "\<not> fst (is_eligible (second 7) (snd (record_failure (second 4) default_health ''refused'' open_relay)))"
proof -
  have s: "state (circuit open_relay) = Open" "open_until (circuit open_relay) = Some (secs 303)"
    by (simp_all add: open_relay_def)
  have "relay_steps default_health open_relay [(second 4, OpFailure ''refused'')]
      (snd (record_failure (second 4) default_health ''refused'' open_relay))"
    by (auto intro: relay_step.intros)
  from open_breaker_excludes[OF s this, of "second 7"] show ?thesis
    by (simp add: second_def closing_def secs_def)
qed

end
