(* ===== verification/Selector.thy ===== *)
theory Selector
  imports Pool "HOL-Library.Product_Lexorder"
begin

text \<open>Relay selection (src/relay/selector.rs): SMTP detail matching, domain overrides, stickiness and
  the four strategies. A selected relay is named by its position in the pool. Looking at a relay has
  effects - an expired breaker becomes half-open, quota windows roll - so selection threads the pool.
  The hash of the standard library, whose algorithm is unspecified, is a parameter.\<close>

section \<open>Requests and matching\<close>

record route_request =
  sender :: str
  recipients :: "str list"
  exclude :: "str list"
  auth_user :: "str option"
  helo :: str

definition detail_matches :: "route_request \<Rightarrow> smtp_detail \<Rightarrow> bool" where
  "detail_matches req d =
     (let sender_domain = address_domain (sender req) in
      (case auth_user req of Some user \<Rightarrow> user \<noteq> [] \<and> eq_ignore_case (sd_username d) user | None \<Rightarrow> False)
      \<or> (sd_hostname d \<noteq> []
           \<and> ((helo req \<noteq> [] \<and> eq_ignore_case (sd_hostname d) (helo req))
              \<or> (sender_domain \<noteq> [] \<and> eq_ignore_case (sd_hostname d) sender_domain)))
      \<or> (sd_label d \<noteq> [] \<and> helo req \<noteq> [] \<and> eq_ignore_case (sd_label d) (helo req)))"

definition matched_detail :: "route_request \<Rightarrow> pool \<Rightarrow> smtp_detail option" where
  "matched_detail req p = List.find (detail_matches req) (smtp_details p)"

definition linked_to :: "smtp_detail \<Rightarrow> relay_runtime \<Rightarrow> bool" where
  "linked_to d r =
     (let link = smtp_detail_id (rcfg r) in
      link = Some (sd_id d) \<or> (sd_label d \<noteq> [] \<and> link = Some (sd_label d))
      \<or> (sd_hostname d \<noteq> [] \<and> link = Some (sd_hostname d)))"

definition trim_dots :: "str \<Rightarrow> str" where
  "trim_dots s = rev (dropWhile (\<lambda>c. c = CHR ''.'') (rev s))"

definition match_override :: "domain_override list \<Rightarrow> str \<Rightarrow> domain_override option" where
  "match_override rules domain =
     (let needle = to_lower (trim_dots (trim domain)) in
      case List.find (\<lambda>rule. to_lower (trim (do_domain rule)) = needle) rules of
        Some rule \<Rightarrow> Some rule
      | None \<Rightarrow> List.find (\<lambda>rule.
          case strip_prefix ''*.'' (to_lower (trim (do_domain rule))) of
            Some suffix \<Rightarrow> needle = suffix \<or> ends_with (CHR ''.'' # suffix) needle
          | None \<Rightarrow> False) rules)"

definition sticky_key :: "sticky_mode \<Rightarrow> route_request \<Rightarrow> str option \<Rightarrow> str option" where
  "sticky_key mode req recipient_domain =
     (case mode of
        StickyNone \<Rightarrow> None
      | StickySender \<Rightarrow> (let s = to_lower (trim (sender req)) in if s = [] then None else Some s)
      | StickyRecipientDomain \<Rightarrow>
          (case recipient_domain of
             None \<Rightarrow> None
           | Some d \<Rightarrow> (let s = to_lower (trim d) in if s = [] then None else Some s)))"

definition hash_weight :: "pool \<Rightarrow> nat \<Rightarrow> nat" where
  "hash_weight p n = max (weight (rcfg (relays p ! n))) 1"

fun hash_walk :: "(nat \<Rightarrow> nat) \<Rightarrow> nat \<Rightarrow> nat list \<Rightarrow> nat \<Rightarrow> nat" where
  "hash_walk w d [] target = d"
| "hash_walk w d (c # cs) target = (if target < w c then c else hash_walk w d cs (target - w c))"

definition weighted_pick_by_hash :: "pool \<Rightarrow> nat list \<Rightarrow> nat \<Rightarrow> nat" where
  "weighted_pick_by_hash p candidates hash =
     (let whole = sum_list (map (hash_weight p) candidates)
      in if whole = 0 then hd candidates
         else hash_walk (hash_weight p) (last candidates) candidates (hash mod whole))"

section \<open>Candidates\<close>

definition eligible_at :: "clock \<Rightarrow> pool \<Rightarrow> nat \<Rightarrow> bool \<times> pool" where
  "eligible_at clk p n = (let (yes, r) = is_eligible clk (relays p ! n) in (yes, update_at n r p))"

definition excluded :: "route_request \<Rightarrow> pool \<Rightarrow> nat \<Rightarrow> bool" where
  "excluded req p n = (id_of (relays p ! n) \<in> set (exclude req))"

definition in_rotation :: "pool \<Rightarrow> nat \<Rightarrow> bool" where
  "in_rotation p n = in_rotation_pool (rcfg (relays p ! n))"

text \<open>Relays of the general pool, or failing that every relay.\<close>

definition eligible_among :: "clock \<Rightarrow> route_request \<Rightarrow> (pool \<Rightarrow> nat \<Rightarrow> bool) \<Rightarrow> pool \<Rightarrow> nat list \<times> pool" where
  "eligible_among clk req cond p =
     (let (ns, p') = filter_st (eligible_at clk) (filter (cond p) [0..<length (relays p)]) p
      in (filter (\<lambda>n. \<not> excluded req p n) ns, p'))"

definition general_candidates :: "clock \<Rightarrow> route_request \<Rightarrow> pool \<Rightarrow> nat list \<times> pool" where
  "general_candidates clk req p =
     (let (ns, p) = eligible_among clk req
            (\<lambda>p n. in_rotation p n \<and> smtp_detail_id (rcfg (relays p ! n)) = None) p
      in if ns = [] then eligible_among clk req (\<lambda>p n. True) p else (ns, p))"

text \<open>The candidates and whether an SMTP detail bound them, or the message of an error.\<close>

definition candidates :: "clock \<Rightarrow> route_request \<Rightarrow> pool \<Rightarrow> (str + nat list \<times> bool) \<times> pool" where
  "candidates clk req p =
     (case matched_detail req p of
        None \<Rightarrow> (let (ns, p) = general_candidates clk req p in (Inr (ns, False), p))
      | Some d \<Rightarrow>
          if list_ex (linked_to d) (relays p)
          then let (linked, p) = eligible_among clk req (\<lambda>p n. linked_to d (relays p ! n)) p;
                   in_pool = filter (in_rotation p) linked;
                   res = (if in_pool \<noteq> [] then in_pool else linked)
               in if res = []
                  then (Inl (''no eligible relay for SMTP detail ''
                          @ bq (if sd_label d = [] then sd_hostname d else sd_label d)
                          @ '' ('' @ sd_username d @ '')''), p)
                  else (Inr (res, True), p)
          else (let (ns, p) = general_candidates clk req p in (Inr (ns, False), p)))"

section \<open>Explaining an empty pool\<close>

fun reasons :: "clock \<Rightarrow> relay_runtime list \<Rightarrow> str option list \<times> relay_runtime list" where
  "reasons clk [] = ([], [])"
| "reasons clk (r # rs) =
     (let (x, r) = ineligible_reason clk r; (xs, rs) = reasons clk rs in (x # xs, r # rs))"

definition part :: "nat \<Rightarrow> str \<Rightarrow> str list" where
  "part n s = (if 0 < n then [dec n @ s] else [])"

definition explain_empty :: "clock \<Rightarrow> route_request \<Rightarrow> pool \<Rightarrow> str \<times> pool" where
  "explain_empty clk req p =
     (let tried = length (filter (\<lambda>r. id_of r \<in> set (exclude req)) (relays p));
          (why, rs) = reasons clk (relays p);
          parts = part (count_list why (Some ''deactivated'')) '' deactivated''
            @ part (count_list why (Some ''circuit_open'')) '' with an open circuit breaker''
            @ part (count_list why (Some ''quota_reached'')) '' over quota''
            @ part (count_list why (Some ''at_concurrency_limit'')) '' at their concurrency limit''
            @ part tried '' already tried for this message'';
          head = ''none of the '' @ dec (length (relays p)) @ '' configured relays is eligible''
      in (if parts = [] then head else head @ '': '' @ join '', '' parts, p\<lparr>relays := rs\<rparr>))"

section \<open>Selection\<close>

fun hour_counts :: "clock \<Rightarrow> nat list \<Rightarrow> pool \<Rightarrow> pool" where
  "hour_counts clk [] p = p"
| "hour_counts clk (n # ns) p = hour_counts clk ns (update_at n (snd (hour_usage clk (relays p ! n))) p)"

definition pick_by_strategy :: "clock \<Rightarrow> nat list \<Rightarrow> pool \<Rightarrow> nat \<times> pool" where
  "pick_by_strategy clk ns p =
     (case strategy (routing p) of
        RoundRobin \<Rightarrow> (let (i, p) = next_cursor (length ns) p in (ns ! i, p))
      | Weighted \<Rightarrow>
          (let (b, p) = smooth_weighted_pick ns p
           in (case b of Some n \<Rightarrow> n | None \<Rightarrow> hd ns, p))
      | LeastUsed \<Rightarrow>
          (let p = hour_counts clk ns p
           in (hd (sort_key (\<lambda>n. (hour_count (usage (relays p ! n)), in_flight (relays p ! n), n)) ns), p))
      | Failover \<Rightarrow> (hd (sort_key (\<lambda>n. (priority (rcfg (relays p ! n)), n)) ns), p))"

definition recipient_domain :: "route_request \<Rightarrow> str option" where
  "recipient_domain req = (case recipients req of [] \<Rightarrow> None | r # _ \<Rightarrow> Some (address_domain r))"

definition override_rule :: "route_request \<Rightarrow> pool \<Rightarrow> domain_override option" where
  "override_rule req p = Option.bind (recipient_domain req) (match_override (domain_overrides (routing p)))"

definition restricted :: "domain_override \<Rightarrow> nat list \<Rightarrow> pool \<Rightarrow> nat list" where
  "restricted rule ns p = filter (\<lambda>n. n \<in> set ns) (List.map_filter (position_of p) (do_relay_ids rule))"

definition pick_sticky_or_strategy :: "(str \<Rightarrow> nat) \<Rightarrow> clock \<Rightarrow> route_request \<Rightarrow> nat list \<Rightarrow> pool
    \<Rightarrow> (nat \<times> str) \<times> pool" where
  "pick_sticky_or_strategy hash clk req ns p =
     (case (if 1 < length ns then sticky_key (sticky (routing p)) req (recipient_domain req) else None) of
        Some key \<Rightarrow> ((weighted_pick_by_hash p ns (hash key), ''sticky''), p)
      | None \<Rightarrow> (let (n, p) = pick_by_strategy clk ns p in ((n, strategy_str (strategy (routing p))), p)))"

definition select :: "(str \<Rightarrow> nat) \<Rightarrow> clock \<Rightarrow> route_request \<Rightarrow> pool \<Rightarrow> (str + nat \<times> str) \<times> pool" where
  "select hash clk req p =
     (if relays p = [] then (Inl ''no relays are configured'', p)
      else case candidates clk req p of
        (Inl e, p) \<Rightarrow> (Inl e, p)
      | (Inr (ns, bound), p) \<Rightarrow>
          if ns = [] then (let (m, p) = explain_empty clk req p in (Inl m, p))
          else if bound \<and> length ns = 1 then (Inr (hd ns, ''smtp_detail''), p)
          else case override_rule req p of
            None \<Rightarrow> (let (c, p) = pick_sticky_or_strategy hash clk req ns p in (Inr c, p))
          | Some rule \<Rightarrow>
              (case restricted rule ns p of
                 n # _ \<Rightarrow> (Inr (n, ''domain_override''), p)
               | [] \<Rightarrow> if \<not> fallback_on_failure (routing p)
                       then (Inl (''no eligible relay for domain override '' @ bq (do_domain rule)
                               @ '' and routing.fallback_on_failure is disabled''), p)
                       else (let (c, p) = pick_sticky_or_strategy hash clk req ns p in (Inr c, p))))"

section \<open>Looking at relays\<close>

text \<open>An observation may move the state, but not what it or any other observation answers, nor the
  part of the state shown by \<open>view\<close>.\<close>

locale observer =
  fixes observe :: "'s \<Rightarrow> 'a \<Rightarrow> bool \<times> 's" and answer :: "'s \<Rightarrow> 'a \<Rightarrow> bool" and view :: "'s \<Rightarrow> 'v"
  assumes answers: "fst (observe s x) = answer s x"
    and stable: "answer (snd (observe s x)) y = answer s y"
    and unseen: "view (snd (observe s x)) = view s"
begin

lemma filter_observe:
  "filter_st observe xs s = (filter (answer s) xs, snd (filter_st observe xs s))"
  "answer (snd (filter_st observe xs s)) = answer s" "view (snd (filter_st observe xs s)) = view s"
proof -
  have "fst (filter_st observe xs s) = filter (answer s) xs
      \<and> (answer (snd (filter_st observe xs s)) = answer s \<and> view (snd (filter_st observe xs s)) = view s)"
    by (rule filter_st_pure[where I = "\<lambda>t. answer t = answer s \<and> view t = view s"])
      (auto simp: answers stable unseen fun_eq_iff)
  then show "filter_st observe xs s = (filter (answer s) xs, snd (filter_st observe xs s))"
    "answer (snd (filter_st observe xs s)) = answer s" "view (snd (filter_st observe xs s)) = view s"
    by (metis prod.collapse)+
qed

end

lemma roll_idem [simp]: "roll now (roll now u) = roll now u"
  by (simp add: roll_def Let_def)

lemma circuit_state_idem: "fst (circuit_state clk (snd (circuit_state clk r))) = fst (circuit_state clk r)"
  by (simp add: circuit_state_def Let_def)

lemma is_eligible_keeps:
  "rcfg (snd (is_eligible clk r)) = rcfg r" "active (snd (is_eligible clk r)) = active r"
  "in_flight (snd (is_eligible clk r)) = in_flight r"
  by (auto simp: is_eligible_def circuit_state_def quota_exhausted_def Let_def)

lemma is_eligible_idem: "fst (is_eligible clk (snd (is_eligible clk r))) = fst (is_eligible clk r)"
  by (auto simp: is_eligible_def circuit_state_def quota_exhausted_def Let_def has_capacity_def split: if_splits)

definition eligible_pos :: "clock \<Rightarrow> pool \<Rightarrow> nat \<Rightarrow> bool" where
  "eligible_pos clk p n = fst (is_eligible clk (relays p ! n))"

text \<open>What looking at relays never changes: their configurations, their deliveries in flight and what
  they reserved in total, and everything of the pool that is not a relay.\<close>

definition budget :: "relay_runtime \<Rightarrow> relay_config \<times> nat \<times> nat" where
  "budget r = (rcfg r, in_flight r, total (usage r))"

definition pool_view :: "pool \<Rightarrow> (relay_config \<times> nat \<times> nat) list \<times> (str \<Rightarrow> nat option) \<times> routing_config \<times> smtp_detail list" where
  "pool_view p = (map budget (relays p), index p, routing p, smtp_details p)"

lemma total_roll [simp]: "total (roll now u) = total u"
  by (simp add: roll_def Let_def)

lemma looking_budget [simp]:
  "budget (snd (is_eligible clk r)) = budget r" "budget (snd (hour_usage clk r)) = budget r"
  "budget (snd (ineligible_reason clk r)) = budget r"
  by (auto simp: budget_def is_eligible_def ineligible_reason_def hour_usage_def circuit_state_def quota_exhausted_def Let_def)

lemma map_update_same: "f y = f (xs ! n) \<Longrightarrow> map f (xs[n := y]) = map f xs"
  by (metis list_update_id map_update)

interpretation looking: observer "eligible_at clk" "eligible_pos clk" pool_view for clk
proof unfold_locales
  fix p n m
  show "fst (eligible_at clk p n) = eligible_pos clk p n"
    by (simp add: eligible_at_def eligible_pos_def split: prod.splits)
  show "eligible_pos clk (snd (eligible_at clk p n)) m = eligible_pos clk p m"
    using is_eligible_idem[of clk "relays p ! n"]
    by (cases "n < length (relays p)"; cases "m = n")
      (auto simp: eligible_at_def eligible_pos_def update_at_def list_update_beyond split: prod.splits)
  have "map budget ((relays p)[n := snd (is_eligible clk (relays p ! n))]) = map budget (relays p)"
    by (simp add: map_update_same)
  then show "pool_view (snd (eligible_at clk p n)) = pool_view p"
    by (cases "is_eligible clk (relays p ! n)") (simp add: eligible_at_def pool_view_def update_at_def)
qed

lemma pool_viewD:
  assumes "pool_view q = pool_view p"
  shows "length (relays q) = length (relays p)" "index q = index p" "routing q = routing p"
    "smtp_details q = smtp_details p" "n < length (relays p) \<Longrightarrow> rcfg (relays q ! n) = rcfg (relays p ! n)"
    "map rcfg (relays q) = map rcfg (relays p)" "map budget (relays q) = map budget (relays p)"
proof -
  show b: "map budget (relays q) = map budget (relays p)" using assms by (simp add: pool_view_def)
  have "map fst (map budget (relays q)) = map fst (map budget (relays p))" by (simp only: b)
  then have m: "map rcfg (relays q) = map rcfg (relays p)" by (simp add: budget_def comp_def)
  then show l: "length (relays q) = length (relays p)" "map rcfg (relays q) = map rcfg (relays p)"
    by (metis length_map)+
  show "n < length (relays p) \<Longrightarrow> rcfg (relays q ! n) = rcfg (relays p ! n)"
    using m l by (metis nth_map)
qed (use assms in \<open>simp_all add: pool_view_def\<close>)

text \<open>Relays the message may go to, and the ones of the general pool among them.\<close>

definition routable :: "clock \<Rightarrow> route_request \<Rightarrow> pool \<Rightarrow> nat \<Rightarrow> bool" where
  "routable clk req p n = (n < length (relays p) \<and> eligible_pos clk p n \<and> \<not> excluded req p n)"

definition general :: "pool \<Rightarrow> nat \<Rightarrow> bool" where
  "general p n = (in_rotation p n \<and> smtp_detail_id (rcfg (relays p ! n)) = None)"

lemma eligible_among_spec:
  assumes "eligible_among clk req cond p = (ns, q)"
  shows "ns = filter (\<lambda>n. cond p n \<and> eligible_pos clk p n \<and> \<not> excluded req p n) [0..<length (relays p)]"
    "pool_view q = pool_view p" "eligible_pos clk q = eligible_pos clk p"
  using assms looking.filter_observe[of clk "filter (cond p) [0..<length (relays p)]" p]
  by (auto simp: eligible_among_def split: prod.splits intro: filter_cong)

lemma same_view:
  assumes "pool_view q = pool_view p" "n < length (relays p)"
  shows "excluded req q n = excluded req p n" "in_rotation q n = in_rotation p n" "general q n = general p n"
  using pool_viewD[OF assms(1)] assms(2) by (simp_all add: excluded_def in_rotation_def general_def id_of_def)

lemma general_candidates_spec:
  assumes "general_candidates clk req p = (ns, q)"
  shows "set ns = (if \<exists>n. routable clk req p n \<and> general p n then {n. routable clk req p n \<and> general p n}
                   else {n. routable clk req p n})"
    "sorted ns" "distinct ns" "pool_view q = pool_view p" "eligible_pos clk q = eligible_pos clk p"
proof -
  obtain ns1 p1 where 1: "eligible_among clk req general p = (ns1, p1)" by (cases "eligible_among clk req general p")
  obtain ns2 p2 where 2: "eligible_among clk req (\<lambda>p n. True) p1 = (ns2, p2)"
    by (cases "eligible_among clk req (\<lambda>p n. True) p1")
  note e1 = eligible_among_spec[OF 1] and e2 = eligible_among_spec[OF 2]
  have g: "(\<lambda>p n. in_rotation p n \<and> smtp_detail_id (rcfg (relays p ! n)) = None) = general"
    by (simp add: general_def fun_eq_iff)
  have r: "(ns, q) = (if ns1 = [] then (ns2, p2) else (ns1, p1))"
    using assms 1 2 by (auto simp: general_candidates_def g split: if_splits)
  have s1: "set ns1 = {n. routable clk req p n \<and> general p n}"
    by (auto simp: e1(1) routable_def)
  have len: "length (relays p1) = length (relays p)" using pool_viewD(1)[OF e1(2)] .
  have s2: "set ns2 = {n. routable clk req p n}"
    using same_view(1)[OF e1(2)] by (auto simp: e2(1) routable_def len e1(3))
  show "set ns = (if \<exists>n. routable clk req p n \<and> general p n then {n. routable clk req p n \<and> general p n}
                   else {n. routable clk req p n})"
  proof (cases "ns1 = []")
    case True
    then have "\<nexists>n. routable clk req p n \<and> general p n" using s1 by auto
    then show ?thesis using True r s2 by auto
  next
    case False
    then have "\<exists>n. routable clk req p n \<and> general p n" using s1 by (metis (mono_tags, lifting) mem_Collect_eq nth_mem length_greater_0_conv)
    then show ?thesis using False r s1 by simp
  qed
  show "sorted ns" "distinct ns" using r e1(1) e2(1) by (auto split: if_splits intro: sorted_wrt_filter)
  show "pool_view q = pool_view p" "eligible_pos clk q = eligible_pos clk p"
    using r e1 e2 by (auto split: if_splits)
qed

lemma candidates_spec:
  assumes "candidates clk req p = (Inr (ns, bound), q)"
  shows "set ns \<subseteq> {n. routable clk req p n}" "distinct ns"
    "pool_view q = pool_view p" "eligible_pos clk q = eligible_pos clk p"
    "\<not> bound \<Longrightarrow> general_candidates clk req p = (ns, q)" "bound \<Longrightarrow> ns \<noteq> []"
proof -
  have g: "set ns \<subseteq> {n. routable clk req p n} \<and> distinct ns \<and> pool_view q = pool_view p
      \<and> eligible_pos clk q = eligible_pos clk p"
    if "general_candidates clk req p = (ns, q)"
    using general_candidates_spec[OF that] by auto
  have "set ns \<subseteq> {n. routable clk req p n} \<and> distinct ns \<and> pool_view q = pool_view p
      \<and> eligible_pos clk q = eligible_pos clk p \<and> (\<not> bound \<longrightarrow> general_candidates clk req p = (ns, q))
      \<and> (bound \<longrightarrow> ns \<noteq> [])"
  proof (cases "matched_detail req p")
    case None
    then show ?thesis using assms g by (auto simp: candidates_def split: prod.splits)
  next
    case (Some d)
    obtain ls q1 where l: "eligible_among clk req (\<lambda>p n. linked_to d (relays p ! n)) p = (ls, q1)"
      by (cases "eligible_among clk req (\<lambda>p n. linked_to d (relays p ! n)) p")
    note e = eligible_among_spec[OF l]
    have ls: "set ls \<subseteq> {n. routable clk req p n}" "distinct ls" by (auto simp: e(1) routable_def)
    show ?thesis
      using assms Some l e(2,3) ls g
      by (auto simp: candidates_def Let_def split: prod.splits if_splits)
  qed
  then show "set ns \<subseteq> {n. routable clk req p n}" "distinct ns"
    "pool_view q = pool_view p" "eligible_pos clk q = eligible_pos clk p"
    "\<not> bound \<Longrightarrow> general_candidates clk req p = (ns, q)" "bound \<Longrightarrow> ns \<noteq> []" by auto
qed

section \<open>Picking a candidate\<close>

lemma sorted_head_in: "ns \<noteq> [] \<Longrightarrow> hd (sort_key f ns) \<in> set ns"
  by (metis hd_in_set set_sort sort_key_simps(1) length_sort length_0_conv)

lemma hash_walk_in: "cs \<noteq> [] \<Longrightarrow> hash_walk w (last cs) cs t \<in> set cs"
proof (induction cs arbitrary: t)
  case (Cons c cs)
  then show ?case by (cases cs) auto
qed simp

lemma weighted_pick_by_hash_in: "ns \<noteq> [] \<Longrightarrow> weighted_pick_by_hash p ns h \<in> set ns"
  by (simp add: weighted_pick_by_hash_def Let_def hash_walk_in)

lemma smooth_weighted_pick_in:
  assumes "ns \<noteq> []" "distinct ns" "\<forall>n\<in>set ns. n < length (relays p)"
  shows "\<exists>b\<in>set ns. fst (smooth_weighted_pick ns p) = Some b" "pool_view (snd (smooth_weighted_pick ns p)) = pool_view p"
proof -
  let ?ws = "resize (length (relays p)) (smooth_weights p)"
  obtain ws t b where l: "swrr_loop (pick_weight p) ns ?ws 0 None = (ws, t, b)"
    by (cases "swrr_loop (pick_weight p) ns ?ws 0 None")
  have len: "length ?ws = length (relays p)" by (simp add: resize_def)
  have "b \<noteq> None \<and> (\<forall>x. b = Some x \<longrightarrow> x \<in> set ns)"
    using swrr_loop_spec[OF l assms(2)] assms(1,3) len by auto
  then show "\<exists>b\<in>set ns. fst (smooth_weighted_pick ns p) = Some b" "pool_view (snd (smooth_weighted_pick ns p)) = pool_view p"
    using assms(1) l by (auto simp: smooth_weighted_pick_def pool_view_def)
qed

lemma hour_counts_view: "pool_view (hour_counts clk ns p) = pool_view p"
proof (induction ns arbitrary: p)
  case (Cons n ns)
  then show ?case by (simp add: update_at_def pool_view_def map_update_same)
qed simp

lemma pick_by_strategy_spec:
  assumes "ns \<noteq> []" "distinct ns" "\<forall>n\<in>set ns. n < length (relays p)" "pick_by_strategy clk ns p = (n, q)"
  shows "n \<in> set ns" "pool_view q = pool_view p"
proof -
  obtain b p2 where s: "smooth_weighted_pick ns p = (Some b, p2)" "b \<in> set ns" "pool_view p2 = pool_view p"
    using smooth_weighted_pick_in[OF assms(1-3)] by (metis prod.collapse)
  have r: "fst (next_cursor (length ns) p) < length ns" "pool_view (snd (next_cursor (length ns) p)) = pool_view p"
    using assms(1) by (auto simp: next_cursor_def pool_view_def)
  show "n \<in> set ns" "pool_view q = pool_view p"
    using assms(1,4) s r hour_counts_view[of clk ns p]
    by (auto simp: pick_by_strategy_def Let_def sorted_head_in split: strategy.splits prod.splits)
qed

lemma pick_sticky_spec:
  assumes "ns \<noteq> []" "distinct ns" "\<forall>n\<in>set ns. n < length (relays p)"
    and "pick_sticky_or_strategy hash clk req ns p = ((n, why), q)"
  shows "n \<in> set ns" "pool_view q = pool_view p"
  using assms(4) pick_by_strategy_spec[OF assms(1-3), of clk] weighted_pick_by_hash_in[OF assms(1), of p]
  by (auto simp: pick_sticky_or_strategy_def split: option.splits prod.splits)

lemma reasons_cfg: "map budget (snd (reasons clk rs)) = map budget rs"
proof (induction rs)
  case (Cons r rs)
  then show ?case
    by (cases "ineligible_reason clk r"; cases "reasons clk rs") (use looking_budget(3)[of clk r] in simp)
qed simp

lemma explain_empty_view: "pool_view (snd (explain_empty clk req p)) = pool_view p"
  using reasons_cfg[of clk "relays p"] by (auto simp: explain_empty_def pool_view_def Let_def split: prod.splits)

lemma restricted_in: "restricted rule ns p = n # ms \<Longrightarrow> n \<in> set ns"
proof -
  assume "restricted rule ns p = n # ms"
  then have "n \<in> set (restricted rule ns p)" by simp
  then show "n \<in> set ns" by (simp add: restricted_def)
qed

text \<open>A relay that is selected is one of the candidates.\<close>

lemma select_from_candidates:
  assumes "select hash clk req p = (Inr (n, why), q)"
  obtains ns bound p1 where "candidates clk req p = (Inr (ns, bound), p1)" "n \<in> set ns"
    "pool_view q = pool_view p1"
proof -
  obtain ns bound p1 where c: "candidates clk req p = (Inr (ns, bound), p1)" "ns \<noteq> []"
    using assms by (auto simp: select_def split: if_splits prod.splits sum.splits)
  note s = candidates_spec[OF c(1)]
  have range: "\<forall>n\<in>set ns. n < length (relays p1)"
    using s(1) pool_viewD(1)[OF s(3)] by (auto simp: routable_def)
  have "n \<in> set ns \<and> pool_view q = pool_view p1"
    using assms c pick_sticky_spec[OF c(2) s(2) range, of hash clk req]
    by (auto simp: select_def dest: restricted_in split: if_splits prod.splits option.splits list.splits)
  then show thesis using that c(1) by blast
qed

section \<open>Stickiness\<close>

lemma hash_walk_inside: "t < sum_list (map w cs) \<Longrightarrow> hash_walk w d cs t \<in> set cs"
  by (induction cs arbitrary: t) auto

lemma hash_walk_share:
  assumes "distinct cs" "c \<in> set cs"
  shows "card {t. t < sum_list (map w cs) \<and> hash_walk w d cs t = c} = w c"
  using assms
proof (induction cs)
  case (Cons a cs)
  let ?S = "sum_list (map w cs)"
  show ?case
  proof (cases "c = a")
    case True
    have "{t. t < sum_list (map w (a # cs)) \<and> hash_walk w d (a # cs) t = c} = {..<w a}"
    proof (intro set_eqI iffI)
      fix t assume t: "t \<in> {t. t < sum_list (map w (a # cs)) \<and> hash_walk w d (a # cs) t = c}"
      show "t \<in> {..<w a}"
      proof (rule ccontr)
        assume "t \<notin> {..<w a}"
        then have "hash_walk w d cs (t - w a) = c" "t - w a < ?S" using t by auto
        then show False using hash_walk_inside[of "t - w a" w cs d] True Cons.prems(1) by simp
      qed
    qed (use True in auto)
    then show ?thesis using True by simp
  next
    case False
    have "{t. t < sum_list (map w (a # cs)) \<and> hash_walk w d (a # cs) t = c}
        = (\<lambda>t. t + w a) ` {t. t < ?S \<and> hash_walk w d cs t = c}"
    proof (intro set_eqI iffI)
      fix t assume "t \<in> {t. t < sum_list (map w (a # cs)) \<and> hash_walk w d (a # cs) t = c}"
      then have "t - w a \<in> {t. t < ?S \<and> hash_walk w d cs t = c}" "t = t - w a + w a"
        using False by (auto split: if_splits)
      then show "t \<in> (\<lambda>t. t + w a) ` {t. t < ?S \<and> hash_walk w d cs t = c}" by blast
    qed (use False in auto)
    moreover have "inj_on (\<lambda>t. t + w a) {t. t < ?S \<and> hash_walk w d cs t = c}" by (auto intro: inj_onI)
    ultimately show ?thesis using Cons False by (simp add: card_image)
  qed
qed simp

section \<open>Properties\<close>

text \<open>C9. A message is only ever given to a relay that is in the pool, is eligible at that moment -
  active, breaker not open, a free slot, quota left - and has not been tried for it before; the
  selection itself changes no configuration.\<close>

theorem select_sound:
  assumes "select hash clk req p = (Inr (n, why), q)"
  shows "n < length (relays p) \<and> fst (is_eligible clk (relays p ! n))
    \<and> id_of (relays p ! n) \<notin> set (exclude req) \<and> map rcfg (relays q) = map rcfg (relays p)"
proof -
  obtain ns bound p1 where c: "candidates clk req p = (Inr (ns, bound), p1)" "n \<in> set ns"
    "pool_view q = pool_view p1"
    by (rule select_from_candidates[OF assms]) (rule that)
  note s = candidates_spec[OF c(1)]
  have "map rcfg (relays q) = map rcfg (relays p)" using pool_viewD(6)[of q p] c(3) s(3) by simp
  then show ?thesis using s(1) c(2) by (auto simp: routable_def eligible_pos_def excluded_def)
qed

definition sample_request :: route_request where
  "sample_request = \<lparr>sender = ''a@b.example'', recipients = [''u@x.example''], exclude = [''5''],
     auth_user = None, helo = ''client''\<rparr>"


lemmas select_eval = select_def candidates_def matched_detail_def general_candidates_def eligible_among_def
  eligible_at_def is_eligible_def circuit_state_def quota_exhausted_def has_capacity_def new_relay_def
  default_relay_def new_circuit_def new_usage_def roll_def update_at_def excluded_def in_rotation_def id_of_def
  override_rule_def recipient_domain_def match_override_def default_routing_def sticky_key_def
  pick_sticky_or_strategy_def pick_by_strategy_def next_cursor_def sample_request_def sample_pool_def
  second_def signed_divide_int_def

lemma sample_select:
  "fst (select (\<lambda>_. 0) (second 60) sample_request (sample_pool [5, 1, 1])) = Inr (1, ''round_robin'')"
proof -
  have d: "dec 5 = ''5''" "dec (Suc 0) = ''1''" by (code_simp, code_simp)
  show ?thesis by (simp add: select_eval d upt_rec)
qed

theorem select_sound_witness:
  "fst (is_eligible (second 60) (relays (sample_pool [5, 1, 1]) ! 1)) \<and> id_of (relays (sample_pool [5, 1, 1]) ! 1) \<noteq> ''5''"
proof -
  obtain q where "select (\<lambda>_. 0) (second 60) sample_request (sample_pool [5, 1, 1]) = (Inr (1, ''round_robin''), q)"
    using sample_select by (metis prod.collapse)
  from select_sound[OF this] show ?thesis by (simp add: sample_request_def)
qed



text \<open>C33. While a relay of the general rotation is available, no message without an SMTP detail of its own
  goes to a relay that is dedicated to a detail or taken out of the rotation - whatever the strategy,
  the stickiness and the domain overrides are.\<close>

theorem select_isolation:
  assumes "select hash clk req p = (Inr (n, why), q)"
    and "\<forall>d. matched_detail req p = Some d \<longrightarrow> \<not> list_ex (linked_to d) (relays p)"
    and "\<exists>m. routable clk req p m \<and> in_rotation p m \<and> smtp_detail_id (rcfg (relays p ! m)) = None"
  shows "in_rotation p n \<and> smtp_detail_id (rcfg (relays p ! n)) = None"
proof -
  obtain ns bound p1 where c: "candidates clk req p = (Inr (ns, bound), p1)" "n \<in> set ns"
    by (rule select_from_candidates[OF assms(1)]) (rule that)
  obtain ms p2 where g: "general_candidates clk req p = (ms, p2)" by (cases "general_candidates clk req p")
  have "candidates clk req p = (Inr (ms, False), p2)"
    using assms(2) g by (auto simp: candidates_def split: option.splits)
  then have "ns = ms" using c(1) by simp
  moreover have "\<exists>m. routable clk req p m \<and> general p m" using assms(3) by (simp add: general_def)
  ultimately show ?thesis using general_candidates_spec(1)[OF g] c(2) by (auto simp: general_def)
qed

theorem select_isolation_witness: "in_rotation (sample_pool [5, 1, 1]) 1"
proof -
  obtain q where s: "select (\<lambda>_. 0) (second 60) sample_request (sample_pool [5, 1, 1]) = (Inr (1, ''round_robin''), q)"
    using sample_select by (metis prod.collapse)
  have d: "dec 5 = ''5''" "dec (Suc 0) = ''1''" by (code_simp, code_simp)
  have "routable (second 60) sample_request (sample_pool [5, 1, 1]) 1"
    "in_rotation (sample_pool [5, 1, 1]) 1" "smtp_detail_id (rcfg (relays (sample_pool [5, 1, 1]) ! 1)) = None"
    "matched_detail sample_request (sample_pool [5, 1, 1]) = None"
    by (simp_all add: routable_def eligible_pos_def select_eval d)
  then show ?thesis using select_isolation[OF s] by auto
qed

text \<open>Stickiness respects the traffic split: of the hash values below the total weight, exactly the
  weight of a candidate are mapped to it.\<close>

theorem sticky_respects_weights:
  assumes "distinct cs" "c \<in> set cs"
  shows "card {h. h < sum_list (map (hash_weight p) cs) \<and> weighted_pick_by_hash p cs h = c} = max (weight (rcfg (relays p ! c))) 1"
proof -
  let ?W = "sum_list (map (hash_weight p) cs)"
  have "hash_weight p c \<le> ?W" using assms(2) by (simp add: member_le_sum_list)
  then have "?W \<noteq> 0" by (simp add: hash_weight_def del: sum_list_eq_0_iff)
  then have "weighted_pick_by_hash p cs h = hash_walk (hash_weight p) (last cs) cs h" if "h < ?W" for h
    using that by (simp add: weighted_pick_by_hash_def Let_def del: sum_list_eq_0_iff)
  then have "{h. h < ?W \<and> weighted_pick_by_hash p cs h = c}
      = {h. h < ?W \<and> hash_walk (hash_weight p) (last cs) cs h = c}"
    by auto
  then show ?thesis using hash_walk_share[OF assms, of "hash_weight p" "last cs"] by (simp add: hash_weight_def)
qed

theorem sticky_respects_weights_witness:
  "card {h. h < sum_list (map (hash_weight (sample_pool [5, 1, 1])) [0, 2])
      \<and> weighted_pick_by_hash (sample_pool [5, 1, 1]) [0, 2] h = 0} = 5"
  using sticky_respects_weights[of "[0, 2]" 0 "sample_pool [5, 1, 1]"]
  by (simp add: sample_pool_def new_relay_def)

end
