(* ===== verification/Queue.thy ===== *)
theory Queue
  imports Selector "HOL-Library.AList"
begin

text \<open>The delivery queue (src/queue.rs): messages ordered by due time and insertion, an index by id,
  the ids in flight, and the spool that survives a crash. Times are milliseconds. The spool is a pair
  of maps, metadata and bodies by file stem; metadata that does not parse is \<open>Some None\<close>. Whether a
  write reaches the disk is an argument of the operations that write.\<close>

section \<open>Messages and keys\<close>

record queued_message =
  qm_id :: str
  qm_sender :: str
  qm_recipients :: "str list"
  original_from :: str
  qm_subject :: "str option"
  client_ip :: "ip_addr option"
  qm_helo :: str
  received_at :: int
  qm_attempts :: nat
  next_attempt_at :: int
  tried_relays :: "str list"
  qm_last_error :: "str option"
  qm_auth_user :: "str option"
  raw :: bytes

definition size_bytes :: "queued_message \<Rightarrow> nat" where
  "size_bytes m = length (raw m)"

record queue_entry_summary =
  es_id :: str
  es_sender :: str
  es_original_from :: str
  es_recipients :: "str list"
  es_subject :: "str option"
  es_attempts :: nat
  es_received_at :: int
  es_next_attempt_at :: int
  seconds_until_retry :: int
  es_tried_relays :: "str list"
  es_last_error :: "str option"
  es_size_bytes :: nat

text \<open>Whole seconds of a duration, rounded toward zero.\<close>

definition summary :: "int \<Rightarrow> queued_message \<Rightarrow> queue_entry_summary" where
  "summary now m = \<lparr>es_id = qm_id m, es_sender = qm_sender m, es_original_from = original_from m,
     es_recipients = qm_recipients m, es_subject = qm_subject m, es_attempts = qm_attempts m,
     es_received_at = received_at m, es_next_attempt_at = next_attempt_at m,
     seconds_until_retry = max ((next_attempt_at m - now) sdiv 1000) 0,
     es_tried_relays = tried_relays m, es_last_error = qm_last_error m, es_size_bytes = size_bytes m\<rparr>"

datatype enqueue_error = Disabled | Full nat

fun enqueue_error_str :: "enqueue_error \<Rightarrow> str" where
  "enqueue_error_str Disabled = ''the delivery queue is disabled''"
| "enqueue_error_str (Full n) = ''the delivery queue is full ('' @ dec n @ '' messages)''"

datatype schedule_key = Key (due: int) (seq: nat)

instantiation schedule_key :: linorder
begin

definition less_eq_schedule_key :: "schedule_key \<Rightarrow> schedule_key \<Rightarrow> bool" where
  "less_eq_schedule_key a b \<longleftrightarrow> due a < due b \<or> (due a = due b \<and> seq a \<le> seq b)"

definition less_schedule_key :: "schedule_key \<Rightarrow> schedule_key \<Rightarrow> bool" where
  "less_schedule_key a b \<longleftrightarrow> due a < due b \<or> (due a = due b \<and> seq a < seq b)"

instance
  by standard (auto simp: less_eq_schedule_key_def less_schedule_key_def schedule_key.expand)

end

section \<open>The queue\<close>

record spool =
  meta :: "str \<Rightarrow> queued_message option option"
  body :: "str \<Rightarrow> bytes option"

record queue =
  scheduled :: "(schedule_key \<times> queued_message) list"
  by_id :: "(str \<times> schedule_key) list"
  inflight :: "(str \<times> int) list"
  sequence :: nat
  qu_enabled :: bool
  qu_capacity :: nat
  qu_persist :: bool
  files :: spool

text \<open>\<open>have_dir\<close>: whether the spool directory exists after the attempt to create it.\<close>

definition new_queue :: "bool \<Rightarrow> spool \<Rightarrow> queue_config \<Rightarrow> queue" where
  "new_queue have_dir fs cfg = \<lparr>scheduled = [], by_id = [], inflight = [], sequence = 0,
     qu_enabled = q_enabled cfg, qu_capacity = max (capacity cfg) 1,
     qu_persist = (q_enabled cfg \<and> persist cfg \<and> have_dir), files = fs\<rparr>"

definition depth :: "queue \<Rightarrow> nat" where
  "depth q = length (scheduled q)"

definition flying :: "queue \<Rightarrow> nat" where
  "flying q = length (inflight q)"

definition due_count :: "int \<Rightarrow> queue \<Rightarrow> nat" where
  "due_count now q = length (takeWhile (\<lambda>(k, m). due k \<le> now) (scheduled q))"

text \<open>Writes to the spool: the body first, then the metadata without the body.\<close>

datatype write_result = BodyFails | MetaFails | Written

definition write_spool :: "write_result \<Rightarrow> queued_message \<Rightarrow> spool \<Rightarrow> spool" where
  "write_spool w m fs =
     (case w of
        BodyFails \<Rightarrow> fs
      | MetaFails \<Rightarrow> fs\<lparr>body := (body fs)(qm_id m := Some (raw m))\<rparr>
      | Written \<Rightarrow> fs\<lparr>body := (body fs)(qm_id m := Some (raw m)),
                     meta := (meta fs)(qm_id m := Some (Some (m\<lparr>raw := []\<rparr>)))\<rparr>)"

definition remove_spool :: "str \<Rightarrow> spool \<Rightarrow> spool" where
  "remove_spool i fs = fs\<lparr>meta := (meta fs)(i := None), body := (body fs)(i := None)\<rparr>"

text \<open>The insertion shared by \<^verbatim>\<open>enqueue\<close>, \<^verbatim>\<open>requeue\<close> and \<^verbatim>\<open>recover\<close>.\<close>

definition insert_message :: "queued_message \<Rightarrow> queue \<Rightarrow> queue" where
  "insert_message m q =
     (let key = Key (next_attempt_at m) (sequence q)
      in q\<lparr>by_id := AList.update (qm_id m) key (by_id q), scheduled := bt_insert key m (scheduled q),
           sequence := sequence q + 1\<rparr>)"

definition spool_if :: "write_result \<Rightarrow> queued_message \<Rightarrow> queue \<Rightarrow> queue" where
  "spool_if w m q = (if qu_persist q then q\<lparr>files := write_spool w m (files q)\<rparr> else q)"

definition enqueue :: "write_result \<Rightarrow> queued_message \<Rightarrow> queue \<Rightarrow> (enqueue_error + unit) \<times> queue" where
  "enqueue w m q =
     (if \<not> qu_enabled q then (Inl Disabled, q)
      else if qu_capacity q \<le> length (scheduled q) then (Inl (Full (qu_capacity q)), q)
      else (Inr (), insert_message m (spool_if w m q)))"

definition take_due :: "int \<Rightarrow> queue \<Rightarrow> queued_message option \<times> queue" where
  "take_due now q =
     (case scheduled q of
        [] \<Rightarrow> (None, q)
      | (key, m) # rest \<Rightarrow>
          if due key \<le> now
          then (Some m, q\<lparr>scheduled := rest, by_id := AList.delete (qm_id m) (by_id q),
                  inflight := AList.update (qm_id m) now (inflight q)\<rparr>)
          else (None, q))"

definition finish :: "str \<Rightarrow> queue \<Rightarrow> queue" where
  "finish i q =
     (let q = q\<lparr>inflight := AList.delete i (inflight q)\<rparr>
      in if qu_persist q then q\<lparr>files := remove_spool i (files q)\<rparr> else q)"

text \<open>A delay too long for the calendar library counts as a minute.\<close>

definition delay_ms :: "nat \<Rightarrow> int" where
  "delay_ms s = (if int s \<le> (2 ^ 63 - 1) div 1000 then int s * 1000 else 60000)"

definition requeue :: "write_result \<Rightarrow> int \<Rightarrow> queued_message \<Rightarrow> nat \<Rightarrow> queue \<Rightarrow> queue" where
  "requeue w now m delay q =
     (let m = m\<lparr>next_attempt_at := now + delay_ms delay\<rparr>;
          q = q\<lparr>inflight := AList.delete (qm_id m) (inflight q)\<rparr>
      in insert_message m (spool_if w m q))"

definition remove :: "str \<Rightarrow> queue \<Rightarrow> bool \<times> queue" where
  "remove i q =
     (case map_of (by_id q) i of
        None \<Rightarrow> (False, q)
      | Some key \<Rightarrow>
          let removed = map_of (scheduled q) key \<noteq> None;
              q = q\<lparr>by_id := AList.delete i (by_id q), scheduled := bt_remove key (scheduled q)\<rparr>
          in (removed, if removed \<and> qu_persist q then q\<lparr>files := remove_spool i (files q)\<rparr> else q))"

fun flush_loop :: "int \<Rightarrow> schedule_key list \<Rightarrow> queue \<Rightarrow> queue" where
  "flush_loop now [] q = q"
| "flush_loop now (k # ks) q =
     (case map_of (scheduled q) k of
        None \<Rightarrow> flush_loop now ks q
      | Some m \<Rightarrow> flush_loop now ks
          (insert_message (m\<lparr>next_attempt_at := now\<rparr>) (q\<lparr>scheduled := bt_remove k (scheduled q)\<rparr>)))"

definition flush_now :: "int \<Rightarrow> queue \<Rightarrow> nat \<times> queue" where
  "flush_now now q =
     (let later = filter (\<lambda>k. now < due k) (map fst (scheduled q))
      in (length later, flush_loop now later q))"

fun purge_loop :: "str list \<Rightarrow> nat \<Rightarrow> queue \<Rightarrow> nat \<times> queue" where
  "purge_loop [] n q = (n, q)"
| "purge_loop (i # is) n q =
     (let (yes, q) = remove i q in purge_loop is (if yes then n + 1 else n) q)"

definition purge :: "queue \<Rightarrow> nat \<times> queue" where
  "purge q = purge_loop (map fst (by_id q)) 0 q"

definition time_until_due :: "int \<Rightarrow> queue \<Rightarrow> nat option" where
  "time_until_due now q =
     (case scheduled q of [] \<Rightarrow> None | (k, m) # _ \<Rightarrow> Some (nat (max (due k - now) 0)))"

text \<open>How long a worker sleeps when nothing wakes it.\<close>

definition wait_for_work :: "int \<Rightarrow> nat \<Rightarrow> queue \<Rightarrow> nat" where
  "wait_for_work now max_idle q =
     (case time_until_due now q of Some d \<Rightarrow> min d max_idle | None \<Rightarrow> max_idle)"

definition list_entries :: "int \<Rightarrow> nat \<Rightarrow> queue \<Rightarrow> queue_entry_summary list" where
  "list_entries now limit q = map (summary now \<circ> snd) (take limit (scheduled q))"

definition get_message :: "str \<Rightarrow> queue \<Rightarrow> queued_message option" where
  "get_message i q = Option.bind (map_of (by_id q) i) (map_of (scheduled q))"

section \<open>Recovery\<close>

text \<open>\<open>Inl ()\<close> for an unreadable entry; the files are cleaned up when the body is missing or empty.\<close>

definition recover_one :: "str \<Rightarrow> spool \<Rightarrow> (unit + queued_message option) \<times> spool" where
  "recover_one name fs =
     (case meta fs name of
        None \<Rightarrow> (Inl (), fs)
      | Some None \<Rightarrow> (Inl (), fs)
      | Some (Some m) \<Rightarrow>
          (case body fs (qm_id m) of
             Some (c # cs) \<Rightarrow> (Inr (Some (m\<lparr>raw := c # cs\<rparr>)), fs)
           | _ \<Rightarrow> (Inr None, fs\<lparr>meta := (meta fs)(name := None), body := (body fs)(qm_id m := None)\<rparr>)))"

text \<open>\<open>names\<close> are the stems of the \<^verbatim>\<open>.json\<close> files in the order of the directory.\<close>

fun recover_loop :: "str list \<Rightarrow> nat \<Rightarrow> queue \<Rightarrow> nat \<times> queue" where
  "recover_loop [] n q = (n, q)"
| "recover_loop (name # names) n q =
     (case recover_one name (files q) of
        (Inr (Some m), fs) \<Rightarrow>
          if qu_capacity q \<le> length (scheduled q) then (n, q\<lparr>files := fs\<rparr>)
          else recover_loop names (n + 1) (insert_message m (q\<lparr>files := fs\<rparr>))
      | (_, fs) \<Rightarrow> recover_loop names n (q\<lparr>files := fs\<rparr>))"

definition recover :: "str list \<Rightarrow> queue \<Rightarrow> nat \<times> queue" where
  "recover names q = (if \<not> qu_persist q then (0, q) else recover_loop names 0 q)"

section \<open>The index and the schedule agree\<close>

definition queue_ok :: "queue \<Rightarrow> bool" where
  "queue_ok q = (bt_sorted (scheduled q) \<and> distinct (map fst (by_id q))
     \<and> (\<forall>i k. map_of (by_id q) i = Some k \<longleftrightarrow> (\<exists>m. (k, m) \<in> set (scheduled q) \<and> qm_id m = i))
     \<and> (\<forall>(k, m)\<in>set (scheduled q). due k = next_attempt_at m \<and> seq k < sequence q))"

text \<open>The queue as a map from ids to waiting messages, and the ids in flight.\<close>

abbreviation waiting :: "queue \<Rightarrow> str \<Rightarrow> queued_message option" where
  "waiting q i \<equiv> get_message i q"

definition flying_ids :: "queue \<Rightarrow> str set" where
  "flying_ids q = fst ` set (inflight q)"

lemma queue_okD:
  assumes "queue_ok q"
  shows "bt_sorted (scheduled q)" "distinct (map fst (by_id q))"
    "map_of (by_id q) i = Some k \<longleftrightarrow> (\<exists>m. (k, m) \<in> set (scheduled q) \<and> qm_id m = i)"
    "(k, m) \<in> set (scheduled q) \<Longrightarrow> due k = next_attempt_at m \<and> seq k < sequence q"
    "map_of (scheduled q) k = Some m \<longleftrightarrow> (k, m) \<in> set (scheduled q)"
    "(k, m) \<in> set (scheduled q) \<Longrightarrow> (k, m') \<in> set (scheduled q) \<Longrightarrow> m' = m"
  using assms bt_sorted_map_of[of "scheduled q"] bt_sorted_distinct[of "scheduled q"]
  by (auto simp: queue_ok_def simp del: map_of_eq_Some_iff dest: eq_key_imp_eq_value)

lemma waiting_iff:
  assumes "queue_ok q"
  shows "waiting q i = Some m \<longleftrightarrow> (\<exists>k. (k, m) \<in> set (scheduled q) \<and> qm_id m = i)"
proof
  assume "waiting q i = Some m"
  then obtain k where k: "map_of (by_id q) i = Some k" "map_of (scheduled q) k = Some m"
    by (auto simp: get_message_def bind_eq_Some_conv)
  obtain m' where "(k, m') \<in> set (scheduled q)" "qm_id m' = i" using k(1) queue_okD(3)[OF assms] by blast
  then show "\<exists>k. (k, m) \<in> set (scheduled q) \<and> qm_id m = i"
    using k(2) queue_okD(5,6)[OF assms] by blast
next
  assume "\<exists>k. (k, m) \<in> set (scheduled q) \<and> qm_id m = i"
  then obtain k where "(k, m) \<in> set (scheduled q)" "qm_id m = i" by blast
  then show "waiting q i = Some m"
    using queue_okD(3,5)[OF assms] unfolding get_message_def bind_eq_Some_conv by blast
qed

lemma waiting_eqI:
  assumes "queue_ok q" "\<And>m. x = Some m \<longleftrightarrow> (\<exists>k. (k, m) \<in> set (scheduled q) \<and> qm_id m = i)"
  shows "waiting q i = x"
proof -
  have "waiting q i = Some m \<longleftrightarrow> x = Some m" for m using waiting_iff[OF assms(1), of i m] assms(2)[of m] by simp
  then show ?thesis by (metis not_None_eq)
qed

lemma waiting_id: "queue_ok q \<Longrightarrow> waiting q i = Some m \<Longrightarrow> qm_id m = i"
  by (auto simp: waiting_iff)

lemma waiting_None: "queue_ok q \<Longrightarrow> waiting q i = None \<longleftrightarrow> (\<forall>(k, m)\<in>set (scheduled q). qm_id m \<noteq> i)"
  using waiting_iff[of q i] by (cases "waiting q i") fastforce+

lemma waiting_by_id: "queue_ok q \<Longrightarrow> waiting q i = None \<longleftrightarrow> map_of (by_id q) i = None"
  using waiting_iff[of q i] queue_okD(3)[of q i] by (metis not_None_eq)

lemma insert_message_fields [simp]:
  "inflight (insert_message m q) = inflight q" "qu_enabled (insert_message m q) = qu_enabled q"
  "qu_capacity (insert_message m q) = qu_capacity q" "qu_persist (insert_message m q) = qu_persist q"
  "files (insert_message m q) = files q"
  by (simp_all add: insert_message_def Let_def)

lemma insert_message_ok:
  assumes "queue_ok q" "waiting q (qm_id m) = None"
  shows "queue_ok (insert_message m q)" "get_message i (insert_message m q) = ((\<lambda>i. waiting q i)(qm_id m \<mapsto> m)) i"
    "length (scheduled (insert_message m q)) = length (scheduled q) + 1"
proof -
  let ?k = "Key (next_attempt_at m) (sequence q)" and ?q = "insert_message m q"
  have fresh: "?k \<notin> fst ` set (scheduled q)" using assms(1) by (force simp: queue_ok_def)
  have s: "set (scheduled ?q) = insert (?k, m) (set (scheduled q))"
    using bt_insert_fresh_set[OF fresh] by (simp add: insert_message_def Let_def)
  have b: "map_of (by_id ?q) = (map_of (by_id q))(qm_id m \<mapsto> ?k)"
    by (simp add: insert_message_def Let_def update_conv')
  have old: "(k, m') \<in> set (scheduled q) \<Longrightarrow> qm_id m' \<noteq> qm_id m" for k m'
    using assms by (auto simp: waiting_None)
  have idx: "map_of (by_id q) i = Some k \<longleftrightarrow> (\<exists>m. (k, m) \<in> set (scheduled q) \<and> qm_id m = i)" for i k
    using queue_okD(3)[OF assms(1)] .
  show ok: "queue_ok ?q"
    unfolding queue_ok_def
  proof (intro conjI)
    show "bt_sorted (scheduled ?q)"
      using assms(1) bt_insert_sorted by (auto simp: insert_message_def Let_def queue_ok_def)
    show "distinct (map fst (by_id ?q))"
      using assms(1) distinct_update by (auto simp: insert_message_def Let_def queue_ok_def)
    show "\<forall>i k. map_of (by_id ?q) i = Some k \<longleftrightarrow> (\<exists>m. (k, m) \<in> set (scheduled ?q) \<and> qm_id m = i)"
    proof (intro allI)
      fix i k
      show "map_of (by_id ?q) i = Some k \<longleftrightarrow> (\<exists>m. (k, m) \<in> set (scheduled ?q) \<and> qm_id m = i)"
        using old idx[of i k] by (cases "i = qm_id m") (auto simp: b s)
    qed
    show "\<forall>(k, m)\<in>set (scheduled ?q). due k = next_attempt_at m \<and> seq k < sequence ?q"
      using queue_okD(4)[OF assms(1)] unfolding s by (auto simp: insert_message_def Let_def intro: less_SucI)
  qed
  show "get_message i ?q = ((\<lambda>i. waiting q i)(qm_id m \<mapsto> m)) i"
    by (rule waiting_eqI[OF ok]) (use old waiting_iff[OF assms(1), of i] in \<open>auto simp: s\<close>)
  show "length (scheduled ?q) = length (scheduled q) + 1"
    using bt_insert_fresh_length[OF fresh] by (simp add: insert_message_def Let_def)
qed

lemma queue_ok_cong:
  "scheduled q' = scheduled q \<Longrightarrow> by_id q' = by_id q \<Longrightarrow> sequence q' = sequence q \<Longrightarrow> queue_ok q' = queue_ok q"
  "scheduled q' = scheduled q \<Longrightarrow> by_id q' = by_id q \<Longrightarrow> get_message i q' = get_message i q"
  by (simp_all add: queue_ok_def get_message_def)

lemma spool_if_fields [simp]:
  "scheduled (spool_if w m q) = scheduled q" "by_id (spool_if w m q) = by_id q"
  "sequence (spool_if w m q) = sequence q" "inflight (spool_if w m q) = inflight q"
  "qu_persist (spool_if w m q) = qu_persist q" "qu_capacity (spool_if w m q) = qu_capacity q"
  "files (spool_if w m q) = (if qu_persist q then write_spool w m (files q) else files q)"
  by (simp_all add: spool_if_def)

text \<open>Taking a key out of both the schedule and the index.\<close>

definition unlink :: "schedule_key \<Rightarrow> str \<Rightarrow> queue \<Rightarrow> queue" where
  "unlink k i q = q\<lparr>scheduled := bt_remove k (scheduled q), by_id := AList.delete i (by_id q)\<rparr>"

lemma unlink_ok:
  assumes "queue_ok q" "(k, m) \<in> set (scheduled q)"
  shows "queue_ok (unlink k (qm_id m) q)" "get_message i (unlink k (qm_id m) q) = ((\<lambda>i. waiting q i)(qm_id m := None)) i"
proof -
  let ?q = "unlink k (qm_id m) q"
  have s: "set (scheduled ?q) = {p \<in> set (scheduled q). fst p \<noteq> k}" by (simp add: unlink_def set_bt_remove)
  have b: "map_of (by_id ?q) = (map_of (by_id q))(qm_id m := None)" by (simp add: unlink_def delete_conv')
  have idx: "map_of (by_id q) i = Some k \<longleftrightarrow> (\<exists>m. (k, m) \<in> set (scheduled q) \<and> qm_id m = i)" for i k
    using queue_okD(3)[OF assms(1)] .
  have same: "(k', m') \<in> set (scheduled q) \<Longrightarrow> qm_id m' = qm_id m \<Longrightarrow> k' = k" for k' m'
    using idx[of "qm_id m"] assms(2) by (metis option.inject)
  have one: "(k, m') \<in> set (scheduled q) \<Longrightarrow> m' = m" for m'
    using queue_okD(6)[OF assms] .
  show ok: "queue_ok ?q"
    unfolding queue_ok_def
  proof (intro conjI)
    show "bt_sorted (scheduled ?q)" using assms(1) by (simp add: unlink_def bt_remove_sorted queue_ok_def)
    show "distinct (map fst (by_id ?q))"
      using assms(1) by (simp add: unlink_def distinct_delete queue_ok_def)
    show "\<forall>i k. map_of (by_id ?q) i = Some k \<longleftrightarrow> (\<exists>m. (k, m) \<in> set (scheduled ?q) \<and> qm_id m = i)"
    proof (intro allI)
      fix i k'
      show "map_of (by_id ?q) i = Some k' \<longleftrightarrow> (\<exists>m. (k', m) \<in> set (scheduled ?q) \<and> qm_id m = i)"
      proof (cases "i = qm_id m")
        case True
        then show ?thesis using same by (auto simp: b s)
      next
        case False
        then have "(k, m') \<in> set (scheduled q) \<Longrightarrow> qm_id m' \<noteq> i" for m' using one by blast
        then show ?thesis using False idx[of i k'] by (auto simp: b s)
      qed
    qed
    show "\<forall>(k, m)\<in>set (scheduled ?q). due k = next_attempt_at m \<and> seq k < sequence ?q"
      using queue_okD(4)[OF assms(1)] unfolding s by (auto simp: unlink_def)
  qed
  show "get_message i ?q = ((\<lambda>i. waiting q i)(qm_id m := None)) i"
  proof (rule waiting_eqI[OF ok])
    fix m'
    show "((\<lambda>i. waiting q i)(qm_id m := None)) i = Some m' \<longleftrightarrow> (\<exists>k. (k, m') \<in> set (scheduled ?q) \<and> qm_id m' = i)"
    proof (cases "i = qm_id m")
      case True
      then show ?thesis using same by (auto simp: s)
    next
      case False
      then have "(k, m') \<in> set (scheduled q) \<Longrightarrow> qm_id m' \<noteq> i" for m' using one by blast
      then show ?thesis using False waiting_iff[OF assms(1), of i m'] by (auto simp: s)
    qed
  qed
qed

lemma queue_ok_map_cong:
  assumes "queue_ok q" "scheduled q' = scheduled q" "sequence q' = sequence q"
    and "map_of (by_id q') = map_of (by_id q)" "distinct (map fst (by_id q'))"
  shows "queue_ok q'" "get_message i q' = get_message i q"
  using assms by (simp_all add: queue_ok_def get_message_def del: map_of_eq_Some_iff)

section \<open>What each operation does\<close>

lemma queue_ok_new: "queue_ok (new_queue d fs cfg)" "get_message i (new_queue d fs cfg) = None"
  by (simp_all add: new_queue_def queue_ok_def get_message_def)

lemma enqueue_spec:
  assumes "queue_ok q" "waiting q (qm_id m) = None" "enqueue w m q = (Inr (), q')"
  shows "queue_ok q'" "get_message i q' = ((\<lambda>i. waiting q i)(qm_id m \<mapsto> m)) i" "inflight q' = inflight q"
    "length (scheduled q') \<le> qu_capacity q'"
proof -
  have q': "q' = insert_message m (spool_if w m q)" and cap: "length (scheduled q) < qu_capacity q"
    using assms(3) by (auto simp: enqueue_def split: if_splits)
  have ok: "queue_ok (spool_if w m q)" "waiting (spool_if w m q) i = waiting q i" for i
    using assms(1) queue_ok_cong[of "spool_if w m q" q] by simp_all
  show "queue_ok q'" "get_message i q' = ((\<lambda>i. waiting q i)(qm_id m \<mapsto> m)) i"
    using insert_message_ok[OF ok(1)] assms(2) ok(2) by (simp_all add: q')
  show "inflight q' = inflight q" by (simp add: q')
  show "length (scheduled q') \<le> qu_capacity q'"
    using insert_message_ok(3)[OF ok(1)] assms(2) ok(2) cap by (simp add: q')
qed

lemma requeue_spec:
  assumes "queue_ok q" "waiting q (qm_id m) = None"
  shows "queue_ok (requeue w now m d q)"
    "get_message i (requeue w now m d q) =
       ((\<lambda>i. waiting q i)(qm_id m \<mapsto> m\<lparr>next_attempt_at := now + delay_ms d\<rparr>)) i"
    "inflight (requeue w now m d q) = AList.delete (qm_id m) (inflight q)"
proof -
  let ?m = "m\<lparr>next_attempt_at := now + delay_ms d\<rparr>"
  let ?q = "spool_if w ?m (q\<lparr>inflight := AList.delete (qm_id m) (inflight q)\<rparr>)"
  have ok: "queue_ok ?q" "waiting ?q i = waiting q i" for i
    using assms(1) queue_ok_cong[of ?q q] by simp_all
  show "queue_ok (requeue w now m d q)"
    "get_message i (requeue w now m d q) = ((\<lambda>i. waiting q i)(qm_id m \<mapsto> ?m)) i"
    using insert_message_ok[OF ok(1), of ?m] assms(2) ok(2) by (simp_all add: requeue_def Let_def)
  show "inflight (requeue w now m d q) = AList.delete (qm_id m) (inflight q)" by (simp add: requeue_def Let_def)
qed

lemma take_due_spec:
  assumes "queue_ok q" "take_due now q = (Some m, q')"
  shows "queue_ok q'" "waiting q (qm_id m) = Some m" "next_attempt_at m \<le> now"
    "waiting q j = Some m' \<Longrightarrow> next_attempt_at m \<le> next_attempt_at m'"
    "get_message i q' = ((\<lambda>i. waiting q i)(qm_id m := None)) i"
    "inflight q' = AList.update (qm_id m) now (inflight q)" "files q' = files q" "qu_persist q' = qu_persist q"
proof -
  obtain k rest where s: "scheduled q = (k, m) # rest" "due k \<le> now"
    and q': "q' = q\<lparr>scheduled := rest, by_id := AList.delete (qm_id m) (by_id q),
       inflight := AList.update (qm_id m) now (inflight q)\<rparr>"
    using assms(2) by (auto simp: take_due_def split: list.splits if_splits)
  have km: "(k, m) \<in> set (scheduled q)" by (simp add: s)
  have below: "\<forall>(k', m')\<in>set rest. k < k'" using queue_okD(1)[OF assms(1)] by (auto simp: s)
  then have "bt_remove k (scheduled q) = rest" by (auto simp: s bt_remove_def filter_id_conv)
  then have u: "scheduled q' = scheduled (unlink k (qm_id m) q)" "by_id q' = by_id (unlink k (qm_id m) q)"
    "sequence q' = sequence (unlink k (qm_id m) q)" by (simp_all add: q' unlink_def)
  show "queue_ok q'" "get_message i q' = ((\<lambda>i. waiting q i)(qm_id m := None)) i"
    using unlink_ok[OF assms(1) km] queue_ok_cong[OF u(1,2)] u(3) by simp_all
  show "waiting q (qm_id m) = Some m" using waiting_iff[OF assms(1)] km by blast
  show "next_attempt_at m \<le> now" using queue_okD(4)[OF assms(1) km] s(2) by simp
  show "next_attempt_at m \<le> next_attempt_at m'" if w: "waiting q j = Some m'"
  proof -
    obtain k' where k': "(k', m') \<in> set (scheduled q)" using waiting_iff[OF assms(1)] w by blast
    then have "k \<le> k'" using below by (auto simp: s intro: order.strict_implies_order)
    then show ?thesis
      using queue_okD(4)[OF assms(1) km] queue_okD(4)[OF assms(1) k'] by (auto simp: less_eq_schedule_key_def)
  qed
qed (use assms(2) in \<open>auto simp: take_due_def split: list.splits if_splits\<close>)

lemma take_due_none:
  assumes "queue_ok q" "take_due now q = (None, q')"
  shows "q' = q" "waiting q i = Some m \<Longrightarrow> now < next_attempt_at m"
proof -
  show "q' = q" using assms(2) by (auto simp: take_due_def split: list.splits if_splits)
  assume "waiting q i = Some m"
  then obtain k where k: "(k, m) \<in> set (scheduled q)" using waiting_iff[OF assms(1)] by blast
  then obtain k0 m0 rest where s: "scheduled q = (k0, m0) # rest" by (cases "scheduled q") auto
  then have "now < due k0" using assms(2) by (auto simp: take_due_def split: if_splits)
  moreover have "k0 \<le> k"
    using k s queue_okD(1)[OF assms(1)] by (auto intro: order.strict_implies_order)
  ultimately have "now < due k" by (auto simp: less_eq_schedule_key_def)
  then show "now < next_attempt_at m" using queue_okD(4)[OF assms(1) k] by simp
qed

lemma finish_spec:
  "queue_ok (finish i q) = queue_ok q" "get_message j (finish i q) = get_message j q"
  "inflight (finish i q) = AList.delete i (inflight q)"
  using queue_ok_cong[of "finish i q" q] by (simp_all add: finish_def Let_def)

lemma remove_spec:
  assumes "queue_ok q" "remove i q = (yes, q')"
  shows "queue_ok q'" "yes \<longleftrightarrow> waiting q i \<noteq> None" "get_message j q' = ((\<lambda>j. waiting q j)(i := None)) j"
    "inflight q' = inflight q" "qu_persist q' = qu_persist q"
    "files q' = (if yes \<and> qu_persist q then remove_spool i (files q) else files q)"
proof -
  have "queue_ok q' \<and> (yes \<longleftrightarrow> waiting q i \<noteq> None) \<and> (\<forall>j. get_message j q' = ((\<lambda>j. waiting q j)(i := None)) j)
      \<and> inflight q' = inflight q \<and> qu_persist q' = qu_persist q
      \<and> files q' = (if yes \<and> qu_persist q then remove_spool i (files q) else files q)"
  proof (cases "map_of (by_id q) i")
    case None
    then show ?thesis using assms waiting_by_id[OF assms(1), of i] by (auto simp: remove_def)
  next
    case (Some k)
    then obtain m where m: "(k, m) \<in> set (scheduled q)" "qm_id m = i" using queue_okD(3)[OF assms(1)] by blast
    let ?u = "unlink k i q"
    have yes: "yes" and q': "q' = (if qu_persist q then ?u\<lparr>files := remove_spool i (files q)\<rparr> else ?u)"
      using assms(2) Some m queue_okD(5)[OF assms(1)] by (auto simp: remove_def unlink_def Let_def)
    have w: "waiting q i \<noteq> None" using waiting_iff[OF assms(1)] m by auto
    have "queue_ok q' = queue_ok ?u" "get_message j q' = get_message j ?u" for j
      using queue_ok_cong[of q' ?u] by (simp_all add: q')
    moreover have "inflight q' = inflight q" "qu_persist q' = qu_persist q"
      "files q' = (if qu_persist q then remove_spool i (files q) else files q)"
      by (simp_all add: q' unlink_def)
    ultimately show ?thesis using unlink_ok[OF assms(1) m(1)] m(2) yes w by simp
  qed
  then show "queue_ok q'" "yes \<longleftrightarrow> waiting q i \<noteq> None" "get_message j q' = ((\<lambda>j. waiting q j)(i := None)) j"
    "inflight q' = inflight q" "qu_persist q' = qu_persist q"
    "files q' = (if yes \<and> qu_persist q then remove_spool i (files q) else files q)" by blast+
qed

subsection \<open>Flushing\<close>

lemma bt_insert_middle:
  "\<forall>p\<in>set xs. fst p < k \<Longrightarrow> \<forall>p\<in>set ys. k < fst p \<Longrightarrow> bt_insert k v (xs @ ys) = xs @ (k, v) # ys"
proof (induction xs)
  case Nil
  then show ?case by (cases ys) auto
qed auto

lemma reschedule_ok:
  assumes "queue_ok q" "(k, m) \<in> set (scheduled q)" "qm_id m' = qm_id m"
  shows "queue_ok (insert_message m' (q\<lparr>scheduled := bt_remove k (scheduled q)\<rparr>))"
proof -
  let ?u = "unlink k (qm_id m) q" and ?q = "q\<lparr>scheduled := bt_remove k (scheduled q)\<rparr>"
  note u = unlink_ok[OF assms(1,2)]
  have i: "queue_ok (insert_message m' ?u)" using insert_message_ok(1)[OF u(1)] u(2) assms(3) by simp
  have "map_of (by_id (insert_message m' ?q)) = map_of (by_id (insert_message m' ?u))"
    using assms(3) by (auto simp: insert_message_def Let_def unlink_def update_conv' delete_conv' fun_eq_iff)
  moreover have "distinct (map fst (by_id (insert_message m' ?q)))"
    using queue_okD(2)[OF assms(1)] distinct_update by (simp add: insert_message_def Let_def)
  moreover have "scheduled (insert_message m' ?q) = scheduled (insert_message m' ?u)"
    "sequence (insert_message m' ?q) = sequence (insert_message m' ?u)"
    by (simp_all add: insert_message_def Let_def unlink_def)
  ultimately show ?thesis using queue_ok_map_cong(1)[OF i] by blast
qed

lemma flush_loop_spec:
  assumes "queue_ok q" "scheduled q = A @ L" "\<forall>p\<in>set A. fst p < Key now (sequence q)" "\<forall>p\<in>set L. now < due (fst p)"
  shows "queue_ok (flush_loop now (map fst L) q)
    \<and> map snd (scheduled (flush_loop now (map fst L) q)) = map snd A @ map (\<lambda>p. (snd p)\<lparr>next_attempt_at := now\<rparr>) L
    \<and> inflight (flush_loop now (map fst L) q) = inflight q \<and> files (flush_loop now (map fst L) q) = files q
    \<and> qu_persist (flush_loop now (map fst L) q) = qu_persist q"
  using assms
proof (induction L arbitrary: q A)
  case (Cons p L)
  obtain k m where p: "p = (k, m)" by (cases p)
  have km: "(k, m) \<in> set (scheduled q)" using Cons.prems(2) p by simp
  have d: "distinct (map fst (scheduled q))" using bt_sorted_distinct[OF queue_okD(1)[OF Cons.prems(1)]] .
  let ?m = "m\<lparr>next_attempt_at := now\<rparr>"
  let ?q = "insert_message ?m (q\<lparr>scheduled := bt_remove k (scheduled q)\<rparr>)"
  let ?k = "Key now (sequence q)"
  have rm: "bt_remove k (scheduled q) = A @ L"
  proof -
    have "\<forall>r\<in>set A \<union> set L. fst r \<noteq> k" using d unfolding Cons.prems(2) p by force
    then show ?thesis unfolding Cons.prems(2) p bt_remove_def by (simp add: filter_id_conv)
  qed
  have L: "\<forall>p\<in>set L. ?k < fst p" using Cons.prems(4) by (auto simp: less_schedule_key_def)
  have s: "scheduled ?q = (A @ [(?k, ?m)]) @ L"
    using bt_insert_middle[OF Cons.prems(3) L] rm by (simp add: insert_message_def Let_def)
  have seq: "sequence ?q = sequence q + 1" by (simp add: insert_message_def Let_def)
  have A: "\<forall>p\<in>set (A @ [(?k, ?m)]). fst p < Key now (sequence ?q)"
    using Cons.prems(3) by (auto simp: seq less_schedule_key_def)
  have run: "flush_loop now (map fst (p # L)) q = flush_loop now (map fst L) ?q"
  proof -
    have "map_of (scheduled q) k = Some m" using queue_okD(5)[OF Cons.prems(1)] km by blast
    then show ?thesis by (simp add: p)
  qed
  have "queue_ok ?q" using reschedule_ok[OF Cons.prems(1) km] by simp
  from Cons.IH[OF this s A] Cons.prems(4) show ?case unfolding run by (simp add: p)
qed simp

definition made_due :: "int \<Rightarrow> queued_message \<Rightarrow> queued_message" where
  "made_due now m = (if now < next_attempt_at m then m\<lparr>next_attempt_at := now\<rparr> else m)"

lemma flush_now_spec:
  assumes "queue_ok q"
  shows "queue_ok (snd (flush_now now q))"
    "map snd (scheduled (snd (flush_now now q))) = map (made_due now \<circ> snd) (scheduled q)"
    "inflight (snd (flush_now now q)) = inflight q" "files (snd (flush_now now q)) = files q"
    "qu_persist (snd (flush_now now q)) = qu_persist q"
proof -
  let ?A = "filter (\<lambda>p. \<not> now < due (fst p)) (scheduled q)" and ?L = "filter (\<lambda>p. now < due (fst p)) (scheduled q)"
  have split: "bt_sorted xs \<Longrightarrow> xs = filter (\<lambda>p. \<not> now < due (fst p)) xs @ filter (\<lambda>p. now < due (fst p)) xs"
    for xs :: "(schedule_key \<times> queued_message) list"
  proof (induction xs)
    case (Cons p xs)
    show ?case
    proof (cases "now < due (fst p)")
      case True
      then have "\<forall>r\<in>set xs. now < due (fst r)" using Cons.prems by (fastforce simp: less_schedule_key_def)
      then have "filter (\<lambda>p. \<not> now < due (fst p)) xs = []" "filter (\<lambda>p. now < due (fst p)) xs = xs"
        by (auto simp: filter_empty_conv filter_id_conv)
      with True show ?thesis by simp
    qed (use Cons in auto)
  qed simp
  have s: "scheduled q = ?A @ ?L" using split[OF queue_okD(1)[OF assms]] .
  have A: "\<forall>p\<in>set ?A. fst p < Key now (sequence q)"
    using queue_okD(4)[OF assms] by (fastforce simp: less_schedule_key_def)
  have due: "\<forall>p\<in>set (scheduled q). due (fst p) = next_attempt_at (snd p)" using queue_okD(4)[OF assms] by auto
  have r: "snd (flush_now now q) = flush_loop now (map fst ?L) q"
    by (simp add: flush_now_def Let_def filter_map comp_def)
  note spec = flush_loop_spec[OF assms s A, folded r]
  have "map (made_due now \<circ> snd) (scheduled q) = map (made_due now \<circ> snd) ?A @ map (made_due now \<circ> snd) ?L"
    by (subst s) simp
  also have "map (made_due now \<circ> snd) ?A = map snd ?A" using due by (auto simp: made_due_def)
  also have "map (made_due now \<circ> snd) ?L = map (\<lambda>p. (snd p)\<lparr>next_attempt_at := now\<rparr>) ?L"
    using due by (auto simp: made_due_def)
  finally show "map snd (scheduled (snd (flush_now now q))) = map (made_due now \<circ> snd) (scheduled q)"
    using spec by (simp add: comp_def)
  show "queue_ok (snd (flush_now now q))" "inflight (snd (flush_now now q)) = inflight q"
    "files (snd (flush_now now q)) = files q" "qu_persist (snd (flush_now now q)) = qu_persist q"
    using spec by simp_all
qed

subsection \<open>Purging\<close>

lemma purge_loop_spec:
  assumes "queue_ok q" "distinct is" "\<forall>i. waiting q i \<noteq> None \<longleftrightarrow> i \<in> set is"
  shows "fst (purge_loop is n q) = n + length is \<and> queue_ok (snd (purge_loop is n q))
    \<and> (\<forall>i. get_message i (snd (purge_loop is n q)) = None)
    \<and> inflight (snd (purge_loop is n q)) = inflight q \<and> qu_persist (snd (purge_loop is n q)) = qu_persist q
    \<and> (qu_persist q \<longrightarrow> files (snd (purge_loop is n q)) = fold remove_spool is (files q))"
  using assms
proof (induction "is" arbitrary: n q)
  case (Cons i "is")
  obtain yes q1 where r: "remove i q = (yes, q1)" by (cases "remove i q")
  note s = remove_spec[OF Cons.prems(1) r]
  have yes: yes using s(2) Cons.prems(3) by auto
  have "\<forall>j. waiting q1 j \<noteq> None \<longleftrightarrow> j \<in> set is" using s(3) Cons.prems(2,3) by auto
  from Cons.IH[OF s(1) _ this, of "n + 1"] Cons.prems(2) s(4-6) yes r show ?case by simp
qed simp

lemma purge_spec:
  assumes "queue_ok q"
  shows "fst (purge q) = length (by_id q)" "queue_ok (snd (purge q))" "get_message i (snd (purge q)) = None"
    "inflight (snd (purge q)) = inflight q" "qu_persist (snd (purge q)) = qu_persist q"
    "qu_persist q \<Longrightarrow> files (snd (purge q)) = fold remove_spool (map fst (by_id q)) (files q)"
proof -
  have "waiting q i \<noteq> None \<longleftrightarrow> i \<in> set (map fst (by_id q))" for i
    using waiting_by_id[OF assms] by (simp add: map_of_eq_None_iff)
  with purge_loop_spec[OF assms queue_okD(2)[OF assms], of 0]
  show "fst (purge q) = length (by_id q)" "queue_ok (snd (purge q))" "get_message i (snd (purge q)) = None"
    "inflight (snd (purge q)) = inflight q" "qu_persist (snd (purge q)) = qu_persist q"
    "qu_persist q \<Longrightarrow> files (snd (purge q)) = fold remove_spool (map fst (by_id q)) (files q)"
    by (simp_all add: purge_def)
qed

lemma fold_remove_spool:
  "meta (fold remove_spool is fs) i = (if i \<in> set is then None else meta fs i)"
  "body (fold remove_spool is fs) i = (if i \<in> set is then None else body fs i)"
  by (induction "is" arbitrary: fs) (auto simp: remove_spool_def)

section \<open>The queue at work\<close>

text \<open>The operations as the daemon issues them: new messages have fresh ids, and a message is finished
  or put back only by the worker that took it. All writes reach the disk.\<close>

datatype queue_op =
    Enqueue queued_message | Take int | Finish str | Requeue int queued_message nat
  | Remove str | Flush int | Purge

inductive queue_step :: "queue \<Rightarrow> queue_op \<Rightarrow> queue \<Rightarrow> bool" where
  enqueue: "waiting q (qm_id m) = None \<Longrightarrow> qm_id m \<notin> flying_ids q \<Longrightarrow>
     queue_step q (Enqueue m) (snd (enqueue Written m q))"
| take: "queue_step q (Take now) (snd (take_due now q))"
| finish: "i \<in> flying_ids q \<Longrightarrow> queue_step q (Finish i) (finish i q)"
| requeue: "qm_id m \<in> flying_ids q \<Longrightarrow> queue_step q (Requeue now m d) (requeue Written now m d q)"
| remove: "queue_step q (Remove i) (snd (remove i q))"
| flush: "queue_step q (Flush now) (snd (flush_now now q))"
| purge: "queue_step q Purge (snd (purge q))"

inductive_cases queue_stepE: "queue_step q op q'"

inductive queue_steps :: "queue \<Rightarrow> queue_op list \<Rightarrow> queue \<Rightarrow> bool" where
  queue_nil: "queue_steps q [] q"
| queue_cons: "queue_step q op q' \<Longrightarrow> queue_steps q' ops q'' \<Longrightarrow> queue_steps q (op # ops) q''"

inductive_simps queue_steps_simps [simp]: "queue_steps q [] q'" "queue_steps q (op # ops) q'"

text \<open>A message is recorded in the spool when its metadata and body are there, up to the due time,
  which flushing does not write back.\<close>

definition recorded :: "spool \<Rightarrow> queued_message \<Rightarrow> bool" where
  "recorded fs m = (body fs (qm_id m) = Some (raw m)
     \<and> (\<exists>t. meta fs (qm_id m) = Some (Some (m\<lparr>raw := [], next_attempt_at := t\<rparr>))))"

definition spool_ok :: "queue \<Rightarrow> bool" where
  "spool_ok q = ((\<forall>i. meta (files q) i \<noteq> None \<longleftrightarrow> waiting q i \<noteq> None \<or> i \<in> flying_ids q)
     \<and> (\<forall>i m. waiting q i = Some m \<longrightarrow> recorded (files q) m)
     \<and> (\<forall>i. meta (files q) i \<noteq> None \<longrightarrow> (\<exists>m b. meta (files q) i = Some (Some m) \<and> qm_id m = i \<and> body (files q) i = Some b)))"

definition queue_inv :: "queue \<Rightarrow> bool" where
  "queue_inv q = (queue_ok q \<and> (\<forall>i\<in>flying_ids q. waiting q i = None) \<and> (qu_persist q \<longrightarrow> spool_ok q))"

lemma flying_update: "fst ` set (AList.update i t xs) = insert i (fst ` set xs)"
  using dom_update[of i t xs] by (simp add: dom_map_of_conv_image_fst)

lemma flying_delete: "fst ` set (AList.delete i xs) = fst ` set xs - {i}"
  by (metis delete_keys set_map set_removeAll)

lemma recorded_written: "recorded (write_spool Written m fs) m"
  by (auto simp: recorded_def write_spool_def intro: exI[of _ "next_attempt_at m"])

lemma recorded_frame:
  "qm_id m \<noteq> i \<Longrightarrow> recorded (remove_spool i fs) m = recorded fs m"
  "qm_id m \<noteq> qm_id m' \<Longrightarrow> recorded (write_spool Written m' fs) m = recorded fs m"
  by (simp_all add: recorded_def remove_spool_def write_spool_def)

lemma spool_ok_add:
  assumes "spool_ok q" "queue_ok q" "files q' = write_spool Written m (files q)"
    and "\<And>i. get_message i q' = ((\<lambda>i. waiting q i)(qm_id m \<mapsto> m)) i"
    and "flying_ids q' - {qm_id m} = flying_ids q - {qm_id m}"
  shows "spool_ok q'"
proof -
  have "recorded (files q') m'" if "get_message i q' = Some m'" for i m'
    using that assms(1-4) recorded_written recorded_frame(2)[of m' m] waiting_id[OF assms(2)]
    by (cases "i = qm_id m") (auto simp: spool_ok_def)
  moreover have "meta (files q') i \<noteq> None \<longleftrightarrow> get_message i q' \<noteq> None \<or> i \<in> flying_ids q'" for i
    using assms by (cases "i = qm_id m") (auto simp: spool_ok_def write_spool_def)
  moreover have "\<exists>m b. meta (files q') i = Some (Some m) \<and> qm_id m = i \<and> body (files q') i = Some b"
    if "meta (files q') i \<noteq> None" for i
    using that assms(1,3) by (cases "i = qm_id m") (auto simp: spool_ok_def write_spool_def)
  ultimately show ?thesis by (simp add: spool_ok_def)
qed

lemma spool_ok_removed:
  assumes "spool_ok q" "queue_ok q" "\<And>i. meta (files q') i = (if i \<in> I then None else meta (files q) i)"
    and "\<And>i. body (files q') i = (if i \<in> I then None else body (files q) i)"
    and "\<And>i. get_message i q' = (if i \<in> I then None else waiting q i)" "flying_ids q' = flying_ids q - I"
  shows "spool_ok q'"
proof -
  have "recorded (files q') m" if "get_message i q' = Some m" for i m
  proof -
    have i: "i \<notin> I" "waiting q i = Some m" using that assms(5) by (auto split: if_splits)
    then have "qm_id m = i" using waiting_id[OF assms(2)] by blast
    then show ?thesis using i assms(1,3,4) by (auto simp: spool_ok_def recorded_def)
  qed
  then show ?thesis using assms by (auto simp: spool_ok_def)
qed

lemma spool_ok_cong:
  assumes "spool_ok q" "files q' = files q" "\<And>i. get_message i q' = get_message i q" "flying_ids q' = flying_ids q"
  shows "spool_ok q'"
  using assms by (simp add: spool_ok_def)

lemma flush_waiting:
  assumes "queue_ok q"
  shows "get_message i (snd (flush_now now q)) = map_option (made_due now) (waiting q i)"
proof (rule waiting_eqI[OF flush_now_spec(1)[OF assms]])
  fix m
  let ?s = "scheduled (snd (flush_now now q))"
  have "set (map snd ?s) = set (map (made_due now \<circ> snd) (scheduled q))"
    using flush_now_spec(2)[OF assms] by simp
  then have "(\<exists>k. (k, m) \<in> set ?s) \<longleftrightarrow> (\<exists>m0 k. (k, m0) \<in> set (scheduled q) \<and> m = made_due now m0)"
    by (force simp: image_iff)
  moreover have id: "qm_id (made_due now m0) = qm_id m0" for m0 by (simp add: made_due_def)
  ultimately have "(\<exists>k. (k, m) \<in> set ?s \<and> qm_id m = i)
      \<longleftrightarrow> (\<exists>m0. waiting q i = Some m0 \<and> m = made_due now m0)"
    using waiting_iff[OF assms, of i] by metis
  then show "map_option (made_due now) (waiting q i) = Some m \<longleftrightarrow> (\<exists>k. (k, m) \<in> set ?s \<and> qm_id m = i)"
    by auto
qed

lemma recorded_made_due: "recorded fs m \<Longrightarrow> recorded fs (made_due now m)"
  by (auto simp: recorded_def made_due_def)

lemma persist_kept [simp]:
  "qu_persist (snd (enqueue w m q)) = qu_persist q" "qu_persist (finish i q) = qu_persist q"
  "qu_persist (requeue w now m d q) = qu_persist q" "qu_persist (snd (take_due now q)) = qu_persist q"
  by (auto simp: enqueue_def finish_def requeue_def take_due_def Let_def split: list.splits)

lemma queue_inv_enqueue:
  assumes "queue_inv q" "waiting q (qm_id m) = None" "qm_id m \<notin> flying_ids q"
  shows "queue_inv (snd (enqueue Written m q))"
proof (cases "enqueue Written m q")
  case (Pair r q')
  show ?thesis
  proof (cases r)
    case (Inl e)
    then have "q' = q" using Pair by (auto simp: enqueue_def split: if_splits)
    then show ?thesis using Pair assms(1) by simp
  next
    case (Inr u)
    then have e: "enqueue Written m q = (Inr (), q')" using Pair by simp
    have ok: "queue_ok q" using assms(1) by (simp add: queue_inv_def)
    note s = enqueue_spec[OF ok assms(2) e]
    have "files q' = (if qu_persist q then write_spool Written m (files q) else files q)"
      using e by (auto simp: enqueue_def split: if_splits)
    moreover have f: "flying_ids q' = flying_ids q" using s(3) by (simp add: flying_ids_def)
    ultimately have "qu_persist q \<Longrightarrow> spool_ok q'"
      using spool_ok_add[of q q' m] assms(1) ok s(2) by (simp add: queue_inv_def)
    then show ?thesis
      using Pair persist_kept(1)[of Written m q] assms s(1,2) f by (auto simp: queue_inv_def)
  qed
qed

lemma queue_inv_take:
  assumes "queue_inv q"
  shows "queue_inv (snd (take_due now q))"
proof (cases "take_due now q")
  case (Pair r q')
  have ok: "queue_ok q" using assms by (simp add: queue_inv_def)
  show ?thesis
  proof (cases r)
    case None
    then show ?thesis using take_due_none(1)[OF ok, of now q'] Pair assms by simp
  next
    case (Some m)
    then have t: "take_due now q = (Some m, q')" using Pair by simp
    note s = take_due_spec[OF ok t]
    have f: "flying_ids q' = insert (qm_id m) (flying_ids q)" using s(6) by (simp add: flying_ids_def flying_update)
    have "spool_ok q'" if "qu_persist q"
    proof -
      have "spool_ok q" using assms that by (simp add: queue_inv_def)
      then show ?thesis using s(2) by (simp add: spool_ok_def s(5,7) f)
    qed
    then show ?thesis using s(1,8) assms Pair by (auto simp: queue_inv_def f s(5))
  qed
qed

lemma queue_inv_finish:
  assumes "queue_inv q" "i \<in> flying_ids q"
  shows "queue_inv (finish i q)"
proof -
  have f: "flying_ids (finish i q) = flying_ids q - {i}" by (simp add: flying_ids_def finish_spec flying_delete)
  have fs: "files (finish i q) = (if qu_persist q then remove_spool i (files q) else files q)"
    by (simp add: finish_def Let_def)
  have "spool_ok (finish i q)" if "qu_persist q"
  proof (rule spool_ok_removed[where I = "{i}" and q = q])
    show "spool_ok q" "queue_ok q" using assms that by (simp_all add: queue_inv_def)
    show "get_message j (finish i q) = (if j \<in> {i} then None else waiting q j)" for j
      using assms by (auto simp: finish_spec queue_inv_def)
  qed (use that in \<open>simp_all add: f fs remove_spool_def\<close>)
  then show ?thesis using assms by (auto simp: queue_inv_def finish_spec f)
qed

lemma queue_inv_requeue:
  assumes "queue_inv q" "qm_id m \<in> flying_ids q"
  shows "queue_inv (requeue Written now m d q)"
proof -
  let ?m = "m\<lparr>next_attempt_at := now + delay_ms d\<rparr>" and ?q = "requeue Written now m d q"
  have ok: "queue_ok q" and w: "waiting q (qm_id m) = None" using assms by (auto simp: queue_inv_def)
  note s = requeue_spec[OF ok w]
  have f: "flying_ids ?q = flying_ids q - {qm_id m}" by (simp add: flying_ids_def s(3) flying_delete)
  have fs: "files ?q = (if qu_persist q then write_spool Written ?m (files q) else files q)"
    by (simp add: requeue_def Let_def)
  have "spool_ok ?q" if "qu_persist q"
    using spool_ok_add[of q ?q ?m] assms that ok s(2) f fs by (auto simp: queue_inv_def)
  then show ?thesis using assms s by (auto simp: queue_inv_def f)
qed

lemma queue_inv_remove:
  assumes "queue_inv q"
  shows "queue_inv (snd (remove i q))"
proof (cases "remove i q")
  case (Pair yes q')
  have ok: "queue_ok q" using assms by (simp add: queue_inv_def)
  note s = remove_spec[OF ok Pair]
  have f: "flying_ids q' = flying_ids q" by (simp add: flying_ids_def s(4))
  have "spool_ok q'" if p: "qu_persist q"
  proof (cases yes)
    case True
    show ?thesis
    proof (rule spool_ok_removed[where I = "{i}" and q = q])
      show "spool_ok q" "queue_ok q" using assms p by (simp_all add: queue_inv_def)
      show "flying_ids q' = flying_ids q - {i}" using True s(2) assms by (auto simp: f queue_inv_def)
    qed (use True p s in \<open>simp_all add: remove_spool_def\<close>)
  next
    case False
    show ?thesis
      by (rule spool_ok_cong[of q]) (use False p assms s f in \<open>auto simp: queue_inv_def\<close>)
  qed
  then show ?thesis using Pair s assms by (auto simp: queue_inv_def f)
qed

lemma queue_inv_flush:
  assumes "queue_inv q"
  shows "queue_inv (snd (flush_now now q))"
proof -
  let ?q = "snd (flush_now now q)"
  have ok: "queue_ok q" using assms by (simp add: queue_inv_def)
  note s = flush_now_spec[OF ok, of now] and w = flush_waiting[OF ok, of _ now]
  have f: "flying_ids ?q = flying_ids q" by (simp add: flying_ids_def s(3))
  have "spool_ok ?q" if "qu_persist q"
  proof -
    have "spool_ok q" using assms that by (simp add: queue_inv_def)
    then show ?thesis by (auto simp: spool_ok_def w f s(4) intro: recorded_made_due)
  qed
  then show ?thesis using assms s by (auto simp: queue_inv_def f w)
qed

lemma queue_inv_purge:
  assumes "queue_inv q"
  shows "queue_inv (snd (purge q))"
proof -
  let ?q = "snd (purge q)" and ?is = "map fst (by_id q)"
  have ok: "queue_ok q" using assms by (simp add: queue_inv_def)
  note s = purge_spec[OF ok]
  have dom: "waiting q i \<noteq> None \<longleftrightarrow> i \<in> set ?is" for i
    using waiting_by_id[OF ok] by (simp add: map_of_eq_None_iff)
  have f: "flying_ids ?q = flying_ids q" by (simp add: flying_ids_def s(4))
  have "spool_ok ?q" if p: "qu_persist q"
  proof (rule spool_ok_removed[where I = "set ?is" and q = q])
    show "spool_ok q" "queue_ok q" using assms p by (simp_all add: queue_inv_def)
    have "i \<notin> set ?is" if "i \<in> flying_ids q" for i using dom[of i] assms that by (simp add: queue_inv_def)
    then show "flying_ids ?q = flying_ids q - set ?is" unfolding f by blast
    show "get_message i ?q = (if i \<in> set ?is then None else waiting q i)" for i
      using dom[of i] s(3) by (cases "waiting q i") auto
  qed (use p s(6) in \<open>simp_all add: fold_remove_spool\<close>)
  then show ?thesis using assms s by (auto simp: queue_inv_def f)
qed

lemma queue_inv_step: "queue_step q op q' \<Longrightarrow> queue_inv q \<Longrightarrow> queue_inv q'"
  by (induction rule: queue_step.induct)
    (simp_all add: queue_inv_enqueue queue_inv_take queue_inv_finish queue_inv_requeue
      queue_inv_remove queue_inv_flush queue_inv_purge)

lemma queue_inv_steps: "queue_steps q ops q' \<Longrightarrow> queue_inv q \<Longrightarrow> queue_inv q'"
  by (induction rule: queue_steps.induct) (auto dest: queue_inv_step)

definition empty_spool :: spool where
  "empty_spool = \<lparr>meta = (\<lambda>i. None), body = (\<lambda>i. None)\<rparr>"

lemma queue_inv_new: "queue_inv (new_queue d empty_spool cfg)"
  by (simp add: queue_inv_def queue_ok_new spool_ok_def flying_ids_def)
    (simp add: new_queue_def empty_spool_def)

subsection \<open>Recovery\<close>

definition recoverable :: "spool \<Rightarrow> str \<Rightarrow> queued_message \<Rightarrow> bool" where
  "recoverable fs i m = ((\<exists>m0. meta fs i = Some (Some m0) \<and> m = m0\<lparr>raw := raw m\<rparr>) \<and> qm_id m = i
     \<and> body fs i = Some (raw m) \<and> raw m \<noteq> [])"

lemma recover_loop_spec:
  assumes "queue_ok q" "distinct names" "\<forall>i\<in>set names. recoverable (files q) i (msg i)"
    and "\<forall>i\<in>set names. waiting q i = None" "length (scheduled q) + length names \<le> qu_capacity q"
  shows "fst (recover_loop names n q) = n + length names \<and> queue_ok (snd (recover_loop names n q))
    \<and> (\<forall>i. get_message i (snd (recover_loop names n q)) = (if i \<in> set names then Some (msg i) else waiting q i))"
  using assms
proof (induction names arbitrary: n q)
  case (Cons i names)
  let ?m = "msg i"
  have r: "recoverable (files q) i ?m" using Cons.prems(3) by simp
  then obtain m0 where m0: "meta (files q) i = Some (Some m0)" "?m = m0\<lparr>raw := raw ?m\<rparr>" "qm_id ?m = i"
    "body (files q) i = Some (raw ?m)" "raw ?m \<noteq> []" by (auto simp: recoverable_def)
  then have "qm_id m0 = i" by (metis queued_message.select_convs(1) queued_message.surjective queued_message.update_convs(14))
  then have one: "recover_one i (files q) = (Inr (Some ?m), files q)"
    using m0 by (cases "raw ?m") (auto simp: recover_one_def)
  let ?q = "insert_message ?m q"
  have w: "waiting q (qm_id ?m) = None" using r Cons.prems(4) by (auto simp: recoverable_def)
  note ins = insert_message_ok[OF Cons.prems(1) w]
  have id: "qm_id ?m = i" using r by (simp add: recoverable_def)
  have run: "recover_loop (i # names) n q = recover_loop names (n + 1) ?q"
    using one Cons.prems(5) by simp
  have "\<forall>j\<in>set names. waiting ?q j = None" using ins(2) Cons.prems(2,4) id by auto
  from Cons.IH[OF ins(1) _ _ this, of "n + 1"] show ?case
    unfolding run using Cons.prems ins id by auto
qed simp

section \<open>The interface of the workers\<close>

text \<open>What a delivery worker needs of the queue: taking moves a message from waiting to in flight,
  retiring ends it, putting it back makes it wait again, and nothing else moves.\<close>

locale delivery_queue =
  fixes ok :: "'q \<Rightarrow> bool" and held :: "'q \<Rightarrow> str \<Rightarrow> 'm option" and flying :: "'q \<Rightarrow> str set"
    and ident :: "'m \<Rightarrow> str" and take :: "int \<Rightarrow> 'q \<Rightarrow> 'm option \<times> 'q"
    and retire :: "str \<Rightarrow> 'q \<Rightarrow> 'q" and again :: "int \<Rightarrow> 'm \<Rightarrow> nat \<Rightarrow> 'q \<Rightarrow> 'q"
  assumes take_some: "ok q \<Longrightarrow> take now q = (Some m, q') \<Longrightarrow> ok q' \<and> held q (ident m) = Some m
        \<and> held q' = (held q)(ident m := None) \<and> flying q' = insert (ident m) (flying q)"
    and take_none: "ok q \<Longrightarrow> take now q = (None, q') \<Longrightarrow> q' = q"
    and retired: "ok q \<Longrightarrow> i \<in> flying q \<Longrightarrow>
        ok (retire i q) \<and> held (retire i q) = held q \<and> flying (retire i q) = flying q - {i}"
    and put_back: "ok q \<Longrightarrow> ident m \<in> flying q \<Longrightarrow> ok (again now m d q)
        \<and> dom (held (again now m d q)) = insert (ident m) (dom (held q)) \<and> flying (again now m d q) = flying q - {ident m}"
begin

lemma retire_round:
  assumes "ok q" "take now q = (Some m, q1)" "ident m \<notin> flying q"
  shows "ok (retire (ident m) q1)"
    "dom (held (retire (ident m) q1)) \<union> flying (retire (ident m) q1) = dom (held q) \<union> flying q - {ident m}"
  using take_some[OF assms(1,2)] retired[of q1 "ident m"] assms(3) by auto

lemma again_round:
  assumes "ok q" "take now q = (Some m, q1)" "ident m' = ident m" "ident m \<notin> flying q"
  shows "ok (again t m' d q1)" "dom (held (again t m' d q1)) \<union> flying (again t m' d q1) = dom (held q) \<union> flying q"
proof -
  have t: "ok q1" "held q (ident m) = Some m" "held q1 = (held q)(ident m := None)"
    "flying q1 = insert (ident m) (flying q)" using take_some[OF assms(1,2)] by auto
  have "ident m' \<in> flying q1" using t(4) assms(3) by simp
  note p = put_back[OF t(1) this, of t d]
  show "ok (again t m' d q1)" using p by blast
  show "dom (held (again t m' d q1)) \<union> flying (again t m' d q1) = dom (held q) \<union> flying q"
    using p t(2-4) assms(3,4) by auto
qed

end

interpretation dq: delivery_queue queue_inv "\<lambda>q i. get_message i q" flying_ids qm_id take_due finish "requeue Written"
proof unfold_locales
  fix q now m q'
  assume inv: "queue_inv q" and t: "take_due now q = (Some m, q')"
  then have ok: "queue_ok q" by (simp add: queue_inv_def)
  note s = take_due_spec[OF ok t]
  show "queue_inv q' \<and> waiting q (qm_id m) = Some m
      \<and> (\<lambda>i. get_message i q') = (\<lambda>i. waiting q i)(qm_id m := None) \<and> flying_ids q' = insert (qm_id m) (flying_ids q)"
    using queue_inv_take[OF inv, of now] t s by (auto simp: flying_ids_def flying_update)
next
  fix q now q'
  assume "queue_inv q" "take_due now q = (None, q')"
  then show "q' = q" using take_due_none(1) by (simp add: queue_inv_def)
next
  fix q i
  assume "queue_inv q" "i \<in> flying_ids q"
  then show "queue_inv (finish i q) \<and> (\<lambda>j. get_message j (finish i q)) = (\<lambda>j. get_message j q)
      \<and> flying_ids (finish i q) = flying_ids q - {i}"
    by (simp add: queue_inv_finish finish_spec flying_ids_def flying_delete)
next
  fix q now d and m :: queued_message
  assume inv: "queue_inv q" and f: "qm_id m \<in> flying_ids q"
  then have ok: "queue_ok q" and w: "waiting q (qm_id m) = None" by (auto simp: queue_inv_def)
  have "(\<lambda>i. get_message i (requeue Written now m d q))
      = (\<lambda>i. waiting q i)(qm_id m \<mapsto> m\<lparr>next_attempt_at := now + delay_ms d\<rparr>)"
    using requeue_spec(2)[OF ok w] by (simp add: fun_eq_iff)
  then show "queue_inv (requeue Written now m d q)
      \<and> dom (\<lambda>i. get_message i (requeue Written now m d q)) = insert (qm_id m) (dom (\<lambda>i. waiting q i))
      \<and> flying_ids (requeue Written now m d q) = flying_ids q - {qm_id m}"
    using queue_inv_requeue[OF inv f] by (simp add: flying_ids_def requeue_spec(3)[OF ok w] flying_delete)
qed

lemma queue_steps_persist: "queue_steps q ops q' \<Longrightarrow> queue_inv q \<Longrightarrow> qu_persist q' = qu_persist q"
proof (induction rule: queue_steps.induct)
  case (queue_cons q op q' ops q'')
  have ok: "queue_ok q" using queue_cons.prems by (simp add: queue_inv_def)
  have "qu_persist (snd (remove i q)) = qu_persist q" for i
    using remove_spec(5)[OF ok, of i] by (cases "remove i q") auto
  then have "qu_persist q' = qu_persist q"
    using queue_cons.hyps(1) flush_now_spec(5)[OF ok] purge_spec(5)[OF ok]
    by (cases rule: queue_stepE) auto
  then show ?case using queue_cons queue_inv_step by simp
qed simp

section \<open>Properties\<close>

definition sample_message :: queued_message where
  "sample_message = \<lparr>qm_id = ''m1'', qm_sender = ''a@b.c'', qm_recipients = [''x@y.z''],
     original_from = ''a@b.c'', qm_subject = None, client_ip = None, qm_helo = ''h'', received_at = 5,
     qm_attempts = 0, next_attempt_at = 5, tried_relays = [], qm_last_error = None,
     qm_auth_user = None, raw = ''Subject: hi''\<rparr>"

definition one_waiting :: queue where
  "one_waiting = snd (enqueue Written sample_message (new_queue True empty_spool default_queue))"

lemma one_waiting_steps: "queue_steps (new_queue True empty_spool default_queue) [Enqueue sample_message] one_waiting"
proof -
  have "flying_ids (new_queue True empty_spool default_queue) = {}" by (simp add: flying_ids_def new_queue_def)
  then show ?thesis
    by (auto simp: one_waiting_def queue_ok_new intro!: queue_step.enqueue)
qed

text \<open>C21. The workers see the queue in order of due time: what is taken is due, nothing that waits was due
  earlier, and nothing is taken only while nothing is due. This holds after any sequence of
  operations.\<close>

theorem take_due_earliest:
  assumes "queue_steps (new_queue d empty_spool cfg) ops q"
  shows "case take_due now q of
      (Some m, q') \<Rightarrow> get_message (qm_id m) q = Some m \<and> next_attempt_at m \<le> now
        \<and> (\<forall>i m'. get_message i q = Some m' \<longrightarrow> next_attempt_at m \<le> next_attempt_at m')
        \<and> get_message (qm_id m) q' = None
    | (None, q') \<Rightarrow> q' = q \<and> (\<forall>i m. get_message i q = Some m \<longrightarrow> now < next_attempt_at m)"
proof -
  have ok: "queue_ok q" using queue_inv_steps[OF assms queue_inv_new] by (simp add: queue_inv_def)
  show ?thesis
    using take_due_spec[OF ok, of now] take_due_none[OF ok, of now] by (auto split: prod.splits option.splits)
qed

theorem take_due_earliest_witness:
  "case take_due 7 one_waiting of
      (Some m, q') \<Rightarrow> get_message (qm_id m) one_waiting = Some m \<and> next_attempt_at m \<le> 7
        \<and> get_message (qm_id m) q' = None
    | (None, q') \<Rightarrow> q' = one_waiting"
  using take_due_earliest[OF one_waiting_steps, of 7] by (auto split: prod.splits option.splits)





text \<open>Flushing reorders nothing and loses nothing: the queue afterwards lists the same messages in the
  same order, those that were not yet due with the due time \<open>now\<close>, and reports how many it moved.\<close>

theorem flush_keeps_order:
  assumes "queue_steps (new_queue d empty_spool cfg) ops q"
  shows "map snd (scheduled (snd (flush_now now q)))
      = map (\<lambda>(k, m). if now < next_attempt_at m then m\<lparr>next_attempt_at := now\<rparr> else m) (scheduled q)
    \<and> fst (flush_now now q) = length (filter (\<lambda>(k, m). now < next_attempt_at m) (scheduled q))"
proof -
  have ok: "queue_ok q" using queue_inv_steps[OF assms queue_inv_new] by (simp add: queue_inv_def)
  have "map fst (filter (\<lambda>(k, m). now < next_attempt_at m) (scheduled q)) = filter (\<lambda>k. now < due k) (map fst (scheduled q))"
    unfolding filter_map by (rule arg_cong[where f = "map fst"], rule filter_cong)
      (auto dest: queue_okD(4)[OF ok])
  then have "length (filter (\<lambda>k. now < due k) (map fst (scheduled q)))
      = length (filter (\<lambda>(k, m). now < next_attempt_at m) (scheduled q))" by (metis length_map)
  then show ?thesis
    using flush_now_spec(2)[OF ok, of now] by (auto simp: flush_now_def Let_def made_due_def split_def)
qed

theorem flush_keeps_order_witness:
  "fst (flush_now 3 one_waiting) = 1 \<and> fst (flush_now 7 one_waiting) = 0"
proof -
  have s: "scheduled one_waiting = [(Key 5 0, sample_message)]"
    by (simp add: one_waiting_def enqueue_def new_queue_def default_queue_def insert_message_def
        spool_if_def sample_message_def Let_def)
  show ?thesis
    using flush_keeps_order[OF one_waiting_steps, of 3] flush_keeps_order[OF one_waiting_steps, of 7]
    by (simp add: s sample_message_def)
qed

end
