(* ===== verification/Headers.thy ===== *)
theory Headers
  imports Config
begin

text \<open>The header codec (src/message/headers.rs): a message is an ordered list of fields with their raw,
  still folded values and an opaque body. The mailbox grammar of the same file works on the
  characters of an unfolded value. A string is the list of its UTF-8 bytes.\<close>

section \<open>Fields\<close>

record header =
  hname :: str
  hlower :: str
  raw_value :: bytes

definition from_parts :: "str \<Rightarrow> bytes \<Rightarrow> header" where
  "from_parts name value = \<lparr>hname = name, hlower = to_lower name, raw_value = value\<rparr>"

definition new_header :: "str \<Rightarrow> str \<Rightarrow> header" where
  "new_header name value = \<lparr>hname = name, hlower = to_lower name, raw_value = CHR '' '' # value\<rparr>"

definition is_fold :: "str \<Rightarrow> bool" where
  "is_fold ch = (ch = [CR] \<or> ch = [LF] \<or> ch = '' '' \<or> ch = [TAB])"

fun unfold_loop :: "str list \<Rightarrow> bool \<Rightarrow> str \<Rightarrow> str" where
  "unfold_loop [] pending_space out = out"
| "unfold_loop (ch # rest) pending_space out =
     (if is_fold ch then unfold_loop rest True out
      else unfold_loop rest False (out @ (if pending_space \<and> out \<noteq> [] then '' '' else []) @ ch))"

definition unfold :: "bytes \<Rightarrow> str" where
  "unfold bs = unfold_loop (chars (utf8_lossy bs)) False []"

definition unfolded :: "header \<Rightarrow> str" where
  "unfolded h = unfold (raw_value h)"

section \<open>Messages\<close>

record mail =
  headers :: "header list"
  mail_body :: bytes
  was_lf_only :: bool

definition find_needle :: "bytes \<Rightarrow> bytes \<Rightarrow> nat option" where
  "find_needle haystack needle =
     (if needle = [] \<or> length haystack < length needle then None else find_sub needle haystack)"

definition split_header_block :: "bytes \<Rightarrow> bytes \<times> bytes \<times> bool" where
  "split_header_block bs =
     (case find_needle bs (CRLF @ CRLF) of
        Some n \<Rightarrow> (take (n + 2) bs, drop (n + 4) bs, False)
      | None \<Rightarrow>
          (case find_needle bs [LF, LF] of
             Some n \<Rightarrow> (take (n + 1) bs, drop (n + 2) bs, True)
           | None \<Rightarrow> (bs, [], find_sub CRLF bs = None \<and> LF \<in> set bs)))"

text \<open>Lines without their ending; the accumulator is the line read so far.\<close>

fun split_lines_from :: "bytes \<Rightarrow> bytes \<Rightarrow> bytes list" where
  "split_lines_from acc [] = (if acc = [] then [] else [acc])"
| "split_lines_from acc (c # cs) =
     (if c = LF
      then (if acc \<noteq> [] \<and> last acc = CR then butlast acc else acc) # split_lines_from [] cs
      else split_lines_from (acc @ [c]) cs)"

definition split_lines :: "bytes \<Rightarrow> bytes list" where
  "split_lines block = split_lines_from [] block"

definition is_continuation :: "bytes \<Rightarrow> bool" where
  "is_continuation line = (case line of c # _ \<Rightarrow> c = CHR '' '' \<or> c = TAB | [] \<Rightarrow> False)"

text \<open>The field that a line begins; \<open>None\<close> when there is no colon or no name before it.\<close>

definition field_of :: "bytes \<Rightarrow> (str \<times> bytes) option" where
  "field_of line =
     (case find_byte ((=) CHR '':'') line of
        Some colon \<Rightarrow>
          if 0 < colon then Some (trim (utf8_lossy (take colon line)), drop (colon + 1) line) else None
      | None \<Rightarrow> None)"

definition pushed :: "(str \<times> bytes) option \<Rightarrow> header list" where
  "pushed current = (case current of Some (name, value) \<Rightarrow> [from_parts name value] | None \<Rightarrow> [])"

fun parse_lines :: "bytes list \<Rightarrow> (str \<times> bytes) option \<Rightarrow> header list" where
  "parse_lines [] current = pushed current"
| "parse_lines (line # rest) current =
     (if line = [] then parse_lines rest current
      else if is_continuation line
      then parse_lines rest (map_option (\<lambda>(name, value). (name, value @ CRLF @ line)) current)
      else pushed current @ parse_lines rest (field_of line))"

definition parse_header_block :: "bytes \<Rightarrow> header list" where
  "parse_header_block block = parse_lines (split_lines block) None"

datatype message_error = NoHeaderSeparator

definition parse_mail_bytes :: "bytes \<Rightarrow> message_error + mail" where
  "parse_mail_bytes bs =
     (if bs = [] then Inl NoHeaderSeparator
      else let (block, rest, lf) = split_header_block bs
           in Inr \<lparr>headers = parse_header_block block, mail_body = rest, was_lf_only = lf\<rparr>)"

subsection \<open>Access and editing\<close>

definition set_body :: "bytes \<Rightarrow> mail \<Rightarrow> mail" where
  "set_body b m = m\<lparr>mail_body := b\<rparr>"

definition get_header :: "str \<Rightarrow> mail \<Rightarrow> header option" where
  "get_header name m = (let needle = to_lower name in List.find (\<lambda>h. hlower h = needle) (headers m))"

definition has_header :: "str \<Rightarrow> mail \<Rightarrow> bool" where
  "has_header name m = (get_header name m \<noteq> None)"

definition header_value :: "str \<Rightarrow> mail \<Rightarrow> str option" where
  "header_value name m = map_option unfolded (get_header name m)"

definition count_header :: "str \<Rightarrow> mail \<Rightarrow> nat" where
  "count_header name m = (let needle = to_lower name in length (filter (\<lambda>h. hlower h = needle) (headers m)))"

definition remove_all :: "str \<Rightarrow> mail \<Rightarrow> nat \<times> mail" where
  "remove_all name m =
     (let needle = to_lower name; left = filter (\<lambda>h. hlower h \<noteq> needle) (headers m)
      in (length (headers m) - length left, m\<lparr>headers := left\<rparr>))"

definition remove_prefix :: "str \<Rightarrow> mail \<Rightarrow> nat \<times> mail" where
  "remove_prefix pre m =
     (let needle = to_lower pre; left = filter (\<lambda>h. \<not> starts_with needle (hlower h)) (headers m)
      in (length (headers m) - length left, m\<lparr>headers := left\<rparr>))"

definition position_of :: "str \<Rightarrow> header list \<Rightarrow> nat option" where
  "position_of needle hs =
     (let n = length (takeWhile (\<lambda>h. hlower h \<noteq> needle) hs) in if n < length hs then Some n else None)"

text \<open>The retain closure keeps the first field of the name.\<close>

fun retain_first :: "str \<Rightarrow> bool \<Rightarrow> header list \<Rightarrow> header list" where
  "retain_first needle seen [] = []"
| "retain_first needle seen (h # hs) =
     (if hlower h \<noteq> needle then h # retain_first needle seen hs
      else if seen then retain_first needle seen hs
      else h # retain_first needle True hs)"

definition set_header :: "str \<Rightarrow> str \<Rightarrow> mail \<Rightarrow> mail" where
  "set_header name value m =
     (let needle = to_lower name; replacement = new_header name value
      in case position_of needle (headers m) of
           Some n \<Rightarrow> m\<lparr>headers := retain_first needle False ((headers m)[n := replacement])\<rparr>
         | None \<Rightarrow> m\<lparr>headers := headers m @ [replacement]\<rparr>)"

definition prepend_header :: "str \<Rightarrow> str \<Rightarrow> mail \<Rightarrow> mail" where
  "prepend_header name value m = m\<lparr>headers := new_header name value # headers m\<rparr>"

definition append_header :: "str \<Rightarrow> str \<Rightarrow> mail \<Rightarrow> mail" where
  "append_header name value m = m\<lparr>headers := headers m @ [new_header name value]\<rparr>"

subsection \<open>Serialisation\<close>

fun normalize_from :: "char \<Rightarrow> bytes \<Rightarrow> bytes" where
  "normalize_from previous [] = []"
| "normalize_from previous (c # cs) =
     (if c = LF \<and> previous \<noteq> CR then [CR] else []) @ c # normalize_from c cs"

definition normalize_crlf :: "bytes \<Rightarrow> bytes" where
  "normalize_crlf input = normalize_from NUL input"

definition header_bytes :: "bool \<Rightarrow> header \<Rightarrow> bytes" where
  "header_bytes lf h =
     hname h @ '':'' @ (if lf then normalize_crlf (raw_value h) else raw_value h) @ CRLF"

definition to_bytes :: "mail \<Rightarrow> bytes" where
  "to_bytes m = concat (map (header_bytes (was_lf_only m)) (headers m)) @ CRLF
     @ (if was_lf_only m then normalize_crlf (mail_body m) else mail_body m)"

text \<open>The value of one field without parsing the message.\<close>

fun peek_lines :: "bytes list \<Rightarrow> str \<Rightarrow> bytes option \<Rightarrow> str option" where
  "peek_lines [] needle current = map_option unfold current"
| "peek_lines (line # rest) needle current =
     (if line = [] then map_option unfold current
      else if is_continuation line
      then peek_lines rest needle (map_option (\<lambda>value. value @ CRLF @ line) current)
      else case current of
        Some value \<Rightarrow> Some (unfold value)
      | None \<Rightarrow>
          peek_lines rest needle
            (case find_byte ((=) CHR '':'') line of
               Some colon \<Rightarrow>
                 if to_lower (trim (utf8_lossy (take colon line))) = needle
                 then Some (drop (colon + 1) line) else None
             | None \<Rightarrow> None))"

definition peek :: "bytes \<Rightarrow> str \<Rightarrow> str option" where
  "peek bs name = (let (block, _, _) = split_header_block bs in peek_lines (split_lines block) (to_lower name) None)"

section \<open>Mailboxes\<close>

record mailbox =
  display_name :: str
  mb_address :: str

fun angle_loop :: "bytes \<Rightarrow> nat \<Rightarrow> bool \<Rightarrow> bool \<Rightarrow> nat option \<Rightarrow> nat option \<Rightarrow> nat option \<times> nat option" where
  "angle_loop [] n quoted escaped left right = (left, right)"
| "angle_loop (c # cs) n quoted escaped left right =
     (if escaped then angle_loop cs (n + 1) quoted False left right
      else if c = BACKSLASH \<and> quoted then angle_loop cs (n + 1) quoted True left right
      else if c = DQ then angle_loop cs (n + 1) (\<not> quoted) False left right
      else if c = CHR ''<'' \<and> \<not> quoted then angle_loop cs (n + 1) quoted False (Some n) right
      else if c = CHR ''>'' \<and> \<not> quoted
      then angle_loop cs (n + 1) quoted False left
             (case left of Some start \<Rightarrow> if start < n then Some n else right | None \<Rightarrow> right)
      else angle_loop cs (n + 1) quoted False left right)"

definition find_angle_addr :: "str \<Rightarrow> (nat \<times> nat) option" where
  "find_angle_addr txt =
     (case angle_loop txt 0 False False None None of
        (Some l, Some r) \<Rightarrow> if l < r then Some (l, r) else None
      | _ \<Rightarrow> None)"

definition strip_source_route :: "str \<Rightarrow> str" where
  "strip_source_route address =
     (let trimmed = trim address
      in if starts_with ''@'' trimmed
         then (case split_once CHR '':'' trimmed of Some (_, rest) \<Rightarrow> trim rest | None \<Rightarrow> trimmed)
         else trimmed)"

fun strip_comments_loop :: "str list \<Rightarrow> nat \<Rightarrow> bool \<Rightarrow> bool \<Rightarrow> str" where
  "strip_comments_loop [] nesting quoted escaped = []"
| "strip_comments_loop (ch # rest) nesting quoted escaped =
     (if escaped then (if nesting = 0 then ch else []) @ strip_comments_loop rest nesting quoted False
      else if ch = [BACKSLASH] then (if nesting = 0 then ch else []) @ strip_comments_loop rest nesting quoted True
      else if ch = [DQ] then ch @ strip_comments_loop rest nesting (\<not> quoted) False
      else if ch = ''('' \<and> \<not> quoted then strip_comments_loop rest (nesting + 1) quoted False
      else if ch = '')'' \<and> \<not> quoted \<and> 0 < nesting then strip_comments_loop rest (nesting - 1) quoted False
      else (if nesting = 0 then ch else []) @ strip_comments_loop rest nesting quoted False)"

definition strip_comments :: "str \<Rightarrow> str" where
  "strip_comments txt = strip_comments_loop (chars txt) 0 False False"

definition rfind_byte :: "char \<Rightarrow> bytes \<Rightarrow> nat option" where
  "rfind_byte c s = map_option (\<lambda>n. length s - 1 - n) (find_byte ((=) c) (rev s))"

definition extract_comment :: "str \<Rightarrow> str option" where
  "extract_comment txt =
     (case (find_byte ((=) CHR ''('') txt, rfind_byte CHR '')'' txt) of
        (Some start, Some stop) \<Rightarrow>
          if stop \<le> start + 1 then None
          else let comment = trim (take (stop - (start + 1)) (drop (start + 1) txt))
               in if comment = [] then None else Some comment
      | _ \<Rightarrow> None)"

fun unescape :: "str list \<Rightarrow> bool \<Rightarrow> str" where
  "unescape [] escaped = []"
| "unescape (ch # rest) escaped =
     (if escaped then ch @ unescape rest False
      else if ch = [BACKSLASH] then unescape rest True
      else ch @ unescape rest False)"

definition unquote :: "str \<Rightarrow> str" where
  "unquote txt =
     (let trimmed = trim txt
      in if 2 \<le> length trimmed \<and> starts_with [DQ] trimmed \<and> ends_with [DQ] trimmed
         then trim (unescape (chars (take (length trimmed - 2) (drop 1 trimmed))) False)
         else trimmed)"

text \<open>The list of trimmed, non-empty parts between the commas outside quotes, angle brackets and
  comments.\<close>

definition part_of :: "str \<Rightarrow> str list" where
  "part_of current = (if trim current = [] then [] else [trim current])"

fun split_address_loop :: "str list \<Rightarrow> str \<Rightarrow> bool \<Rightarrow> bool \<Rightarrow> nat \<Rightarrow> nat \<Rightarrow> str list" where
  "split_address_loop [] current quoted escaped angles comments = part_of current"
| "split_address_loop (ch # rest) current quoted escaped angles comments =
     (if escaped then split_address_loop rest (current @ ch) quoted False angles comments
      else if ch = [BACKSLASH] then split_address_loop rest (current @ ch) quoted True angles comments
      else if ch = [DQ] then split_address_loop rest (current @ ch) (\<not> quoted) False angles comments
      else if ch = ''<'' \<and> \<not> quoted then split_address_loop rest (current @ ch) quoted False (angles + 1) comments
      else if ch = ''>'' \<and> \<not> quoted then split_address_loop rest (current @ ch) quoted False (angles - 1) comments
      else if ch = ''('' \<and> \<not> quoted then split_address_loop rest (current @ ch) quoted False angles (comments + 1)
      else if ch = '')'' \<and> \<not> quoted then split_address_loop rest (current @ ch) quoted False angles (comments - 1)
      else if ch = '','' \<and> \<not> quoted \<and> angles = 0 \<and> comments = 0
      then part_of current @ split_address_loop rest [] quoted False angles comments
      else split_address_loop rest (current @ ch) quoted False angles comments)"

definition split_address_list :: "str \<Rightarrow> str list" where
  "split_address_list value = split_address_loop (chars value) [] False False 0 0"

definition parse_single_mailbox :: "str \<Rightarrow> mailbox option" where
  "parse_single_mailbox entry =
     (let txt = trim entry
      in if txt = [] then None
         else case find_angle_addr txt of
           Some (l, r) \<Rightarrow>
             let address = strip_source_route (trim (take (r - (l + 1)) (drop (l + 1) txt)));
                 display = strip_comments (take l txt)
             in if address = [] then None
                else Some \<lparr>display_name = unquote (trim display), mb_address = address\<rparr>
         | None \<Rightarrow>
             let bare = trim (strip_comments txt);
                 token = (case List.find (\<lambda>t. CHR ''@'' \<in> set t) (split_whitespace bare) of Some t \<Rightarrow> t | None \<Rightarrow> bare)
             in if CHR ''@'' \<notin> set token then None
                else Some \<lparr>display_name = (case extract_comment txt of Some c \<Rightarrow> c | None \<Rightarrow> []),
                           mb_address = strip_source_route token\<rparr>)"

definition parse_mailbox :: "str \<Rightarrow> mailbox option" where
  "parse_mailbox value =
     (let trimmed = trim value
      in case split_address_list trimmed of
           [] \<Rightarrow> None
         | entry # _ \<Rightarrow>
             if CHR ''@'' \<in> set entry then parse_single_mailbox entry else parse_single_mailbox trimmed)"

definition parse_mailbox_list :: "str \<Rightarrow> mailbox list" where
  "parse_mailbox_list value = List.map_filter parse_single_mailbox (split_address_list value)"

section \<open>Lines\<close>

abbreviation line_bytes :: "bytes list \<Rightarrow> bytes" where
  "line_bytes ls \<equiv> concat (map (\<lambda>l. l @ CRLF) ls)"

lemma split_lines_from_line: "LF \<notin> set l \<Longrightarrow> split_lines_from acc (l @ CRLF @ t) = (acc @ l) # split_lines t"
  by (induction l arbitrary: acc) (auto simp: split_lines_def)

lemma split_lines_from_last: "LF \<notin> set l \<Longrightarrow> split_lines_from acc l = (if acc @ l = [] then [] else [acc @ l])"
  by (induction l arbitrary: acc) auto

lemma split_lines_Nil [simp]: "split_lines [] = []"
  by (simp add: split_lines_def)

lemma split_lines_line [simp]: "LF \<notin> set l \<Longrightarrow> split_lines (l @ CR # LF # t) = l # split_lines t"
  using split_lines_from_line[of l "[]" t] by (simp add: split_lines_def)

lemma split_lines_one: "LF \<notin> set l \<Longrightarrow> split_lines l = (if l = [] then [] else [l])"
  using split_lines_from_last[of l "[]"] by (simp add: split_lines_def)

lemma split_lines_bytes: "\<forall>l\<in>set ls. LF \<notin> set l \<Longrightarrow> split_lines (line_bytes ls) = ls"
  by (induction ls) auto

lemma split_lines_no_LF: "LF \<notin> set acc \<Longrightarrow> l \<in> set (split_lines_from acc s) \<Longrightarrow> LF \<notin> set l"
  by (induction acc s rule: split_lines_from.induct) (auto split: if_splits dest: in_set_butlastD)

text \<open>A folded value is a line and its continuation lines.\<close>

definition folded :: "bytes \<Rightarrow> bool" where
  "folded v = (join CRLF (split_lines v) = v \<and> list_all is_continuation (tl (split_lines v)))"

lemma join_Cons: "join sep (x # xs) = x @ concat (map (\<lambda>y. sep @ y) xs)"
  by (induction xs arbitrary: x) auto

lemma is_continuation_ne: "is_continuation l \<Longrightarrow> l \<noteq> []"
  by (auto simp: is_continuation_def)

lemma split_lines_join:
  assumes "\<forall>l\<in>set (s # ss). LF \<notin> set l" "list_all is_continuation ss"
  shows "split_lines (join CRLF (s # ss)) = (if s = [] \<and> ss = [] then [] else s # ss)"
  using assms
proof (induction ss arbitrary: s)
  case Nil
  then show ?case by (simp add: split_lines_one)
next
  case (Cons t ss)
  then show ?case using is_continuation_ne[of t] by auto
qed

lemma folded_join:
  assumes "\<forall>l\<in>set (s # ss). LF \<notin> set l" "list_all is_continuation ss"
  shows "folded (join CRLF (s # ss))"
  using split_lines_join[OF assms] assms(2) by (auto simp: folded_def)

lemma folded_cases:
  assumes "folded v"
  obtains s ss where "v = join CRLF (s # ss)" "\<forall>l\<in>set (s # ss). LF \<notin> set l" "list_all is_continuation ss"
proof (cases "split_lines v")
  case Nil
  then have "v = join CRLF ([] # [])" using assms by (simp add: folded_def)
  then show ?thesis using that[of "[]" "[]"] by simp
next
  case (Cons s ss)
  then show ?thesis
    using that[of s ss] assms split_lines_no_LF[of "[]" _ v] by (auto simp: folded_def split_lines_def)
qed

section \<open>Well-formed fields survive the codec\<close>

definition wf_name :: "str \<Rightarrow> bool" where
  "wf_name n = (n \<noteq> [] \<and> utf8_valid n \<and> trim n = n \<and> CHR '':'' \<notin> set n \<and> LF \<notin> set n)"

definition wf_header :: "header \<Rightarrow> bool" where
  "wf_header h = (wf_name (hname h) \<and> hlower h = to_lower (hname h) \<and> folded (raw_value h))"

lemma trim_hd_not_ws:
  assumes "trim n = n" "n \<noteq> []" "byte (hd n) < 128"
  shows "\<not> is_ws [hd n]"
proof -
  have "trim_chars (chars n) = chars n" using assms(1) chars_trim by metis
  then have "\<not> is_ws (hd (chars n))" using trim_chars_ends(1)[of "chars n"] assms(2) by simp
  then show ?thesis using assms(2,3) by (cases n) (auto simp: utf8_width_ascii)
qed

lemma wf_name_start:
  assumes "wf_name n"
  shows "\<not> is_continuation (n @ t)" "hd n \<noteq> CR"
proof -
  obtain c cs where n: "n = c # cs" using assms by (cases n) (auto simp: wf_name_def)
  have "c \<noteq> CHR '' ''" "c \<noteq> TAB" "c \<noteq> CR"
    using trim_hd_not_ws[of n] assms n by (auto simp: wf_name_def is_ws_byte_iff byte_def)
  then show "\<not> is_continuation (n @ t)" "hd n \<noteq> CR" by (simp_all add: n is_continuation_def)
qed

lemma field_of_name: "wf_name n \<Longrightarrow> field_of (n @ CHR '':'' # v) = Some (n, v)"
proof -
  assume n: "wf_name n"
  have "find_byte ((=) CHR '':'') (n @ CHR '':'' # v) = Some (length n)"
    using n by (auto simp: find_byte_Some wf_name_def nth_append)
  then show ?thesis using n by (simp add: field_of_def wf_name_def utf8_lossy_valid)
qed

lemma parse_continuations:
  "list_all is_continuation ss \<Longrightarrow>
     parse_lines (ss @ ls) (Some (n, v)) = parse_lines ls (Some (n, v @ concat (map (\<lambda>y. CRLF @ y) ss)))"
  by (induction ss arbitrary: v) (auto dest: is_continuation_ne)

text \<open>The lines of one field.\<close>

definition field_lines :: "header \<Rightarrow> bytes list" where
  "field_lines h = (case split_lines (raw_value h) of
      [] \<Rightarrow> [hname h @ '':'']
    | s # ss \<Rightarrow> (hname h @ '':'' @ s) # ss)"

lemma field_lines_bytes:
  assumes "wf_header h"
  shows "header_bytes False h = line_bytes (field_lines h)"
proof -
  have "line_bytes (x # xs) = join CRLF (x # xs) @ CRLF" for x and xs :: "bytes list"
    by (induction xs arbitrary: x) auto
  moreover have "join CRLF (split_lines (raw_value h)) = raw_value h"
    using assms by (simp add: wf_header_def folded_def)
  ultimately show ?thesis
    by (cases "split_lines (raw_value h)") (auto simp: header_bytes_def field_lines_def join_Cons)
qed

lemma field_lines_parse:
  assumes "wf_header h"
  shows "parse_lines (field_lines h @ ls) current = pushed current @ parse_lines ls (Some (hname h, raw_value h))"
proof -
  have j: "join CRLF (split_lines (raw_value h)) = raw_value h"
    and c: "list_all is_continuation (tl (split_lines (raw_value h)))" and n: "wf_name (hname h)"
    using assms by (simp_all add: wf_header_def folded_def)
  show ?thesis
  proof (cases "split_lines (raw_value h)")
    case Nil
    then have "raw_value h = []" using j by simp
    then show ?thesis using Nil n wf_name_start(1)[OF n] field_of_name[OF n, of "[]"] by (simp add: field_lines_def)
  next
    case (Cons s ss)
    then show ?thesis
      using j c n wf_name_start(1)[OF n] field_of_name[OF n, of s] parse_continuations[of ss]
      by (simp add: field_lines_def join_Cons)
  qed
qed

lemma wf_header_eta: "wf_header h \<Longrightarrow> from_parts (hname h) (raw_value h) = h"
  by (simp add: wf_header_def from_parts_def)

lemma parse_fields: "list_all wf_header hs \<Longrightarrow> parse_lines (concat (map field_lines hs)) current = pushed current @ hs"
proof (induction hs arbitrary: current)
  case (Cons h hs)
  then show ?case by (simp add: field_lines_parse pushed_def wf_header_eta)
qed simp

lemma field_lines_clean:
  assumes "wf_header h" "l \<in> set (field_lines h)"
  shows "LF \<notin> set l" "l \<noteq> []" "hd l \<noteq> CR"
proof -
  have n: "wf_name (hname h)" and c: "list_all is_continuation (tl (split_lines (raw_value h)))"
    using assms(1) by (simp_all add: wf_header_def folded_def)
  have s: "LF \<notin> set x" if "x \<in> set (split_lines (raw_value h))" for x
    using split_lines_no_LF[of "[]"] that by (simp add: split_lines_def)
  have cont: "x \<noteq> [] \<and> hd x \<noteq> CR" if "is_continuation x" for x
    using that by (auto simp: is_continuation_def split: list.splits)
  have "LF \<notin> set l \<and> l \<noteq> [] \<and> hd l \<noteq> CR"
  proof (cases "split_lines (raw_value h)")
    case Nil
    then show ?thesis using assms(2) n wf_name_start(2)[OF n] by (auto simp: field_lines_def wf_name_def)
  next
    case (Cons s0 ss)
    then show ?thesis
      using assms(2) n wf_name_start(2)[OF n] s c cont by (auto simp: field_lines_def wf_name_def list_all_iff)
  qed
  then show "LF \<notin> set l" "l \<noteq> []" "hd l \<noteq> CR" by blast+
qed

text \<open>The blank line after them is the first one.\<close>

lemma find_blank_line:
  "LF \<notin> set l \<Longrightarrow> find_sub (CRLF @ CRLF) (l @ CRLF @ t) =
     (if starts_with CRLF t then Some (length l)
      else map_option ((+) (length l + 2)) (find_sub (CRLF @ CRLF) t))"
proof (induction l)
  case Nil
  show ?case by (simp add: starts_with_def option.map_comp comp_def)
next
  case (Cons c l)
  have "\<not> starts_with (CRLF @ CRLF) (c # l @ CRLF @ t)"
    using Cons.prems by (cases l) (auto simp: starts_with_def)
  then have "find_sub (CRLF @ CRLF) ((c # l) @ CRLF @ t) = map_option Suc (find_sub (CRLF @ CRLF) (l @ CRLF @ t))"
    by simp
  also have "find_sub (CRLF @ CRLF) (l @ CRLF @ t) = (if starts_with CRLF t then Some (length l)
      else map_option ((+) (length l + 2)) (find_sub (CRLF @ CRLF) t))" using Cons by simp
  finally show ?case by (auto simp: option.map_comp comp_def)
qed

lemma find_end_of_fields:
  assumes "ls \<noteq> []" "\<forall>l\<in>set ls. LF \<notin> set l \<and> l \<noteq> [] \<and> hd l \<noteq> CR"
  shows "find_sub (CRLF @ CRLF) (line_bytes ls @ CRLF @ t) = Some (length (line_bytes ls) - 2)"
  using assms
proof (induction ls)
  case (Cons l ls)
  note one = find_blank_line[of l]
  show ?case
  proof (cases ls)
    case Nil
    then show ?thesis using one[of "CRLF @ t"] Cons.prems by (simp add: starts_with_def)
  next
    case (Cons l' ls')
    then have "\<not> starts_with CRLF (line_bytes ls @ CRLF @ t)"
      using Cons.prems by (cases l') (auto simp: starts_with_def)
    moreover have "2 \<le> length (line_bytes ls)" using Cons by simp
    ultimately show ?thesis
      using one[of "line_bytes ls @ CRLF @ t"] Cons.prems Cons.IH Cons by simp
  qed
qed simp

section \<open>Line endings\<close>

lemma normalize_line: "LF \<notin> set l \<Longrightarrow> normalize_from p (l @ CRLF @ t) = l @ CRLF @ normalize_from LF t"
  by (induction l arbitrary: p) auto

lemma normalize_plain: "LF \<notin> set l \<Longrightarrow> normalize_from p l = l"
  by (induction l arbitrary: p) auto

lemma normalize_join: "\<forall>l\<in>set (s # ss). LF \<notin> set l \<Longrightarrow> normalize_from p (join CRLF (s # ss)) = join CRLF (s # ss)"
  by (induction ss arbitrary: s p) (simp_all add: normalize_plain normalize_line[simplified])

lemma normalize_folded: "folded v \<Longrightarrow> normalize_crlf v = v"
  by (erule folded_cases) (simp only: normalize_crlf_def normalize_join)

lemma header_bytes_lf: "wf_header h \<Longrightarrow> header_bytes lf h = header_bytes False h"
  by (simp add: header_bytes_def wf_header_def normalize_folded)

definition crlf_body :: "mail \<Rightarrow> bytes" where
  "crlf_body m = (if was_lf_only m then normalize_crlf (mail_body m) else mail_body m)"

lemma to_bytes_lines:
  assumes "list_all wf_header (headers m)"
  shows "to_bytes m = line_bytes (concat (map field_lines (headers m))) @ CRLF @ crlf_body m"
proof -
  have "concat (map (header_bytes (was_lf_only m)) hs) = line_bytes (concat (map field_lines hs))"
    if "list_all wf_header hs" for hs
    using that by (induction hs) (simp_all add: header_bytes_lf[of _ "was_lf_only m"] field_lines_bytes)
  then show ?thesis using assms by (simp add: to_bytes_def crlf_body_def)
qed

lemma reparse:
  assumes "list_all wf_header (headers m)" "headers m \<noteq> []"
  shows "parse_mail_bytes (to_bytes m) = Inr (m\<lparr>was_lf_only := False, mail_body := crlf_body m\<rparr>)"
proof -
  let ?ls = "concat (map field_lines (headers m))" and ?b = "crlf_body m"
  have clean: "\<forall>l\<in>set ?ls. LF \<notin> set l \<and> l \<noteq> [] \<and> hd l \<noteq> CR"
    using assms(1) by (simp add: list_all_iff) (intro ballI conjI; blast dest: field_lines_clean)
  have ne: "?ls \<noteq> []" using assms(2) by (cases "headers m") (auto simp: field_lines_def split: list.splits)
  define L where "L = line_bytes ?ls"
  have len: "2 \<le> length L" using ne unfolding L_def by (cases ?ls) auto
  have bytes: "to_bytes m = L @ CRLF @ ?b" using to_bytes_lines[OF assms(1)] by (simp add: L_def)
  have "find_sub (CRLF @ CRLF) (L @ CRLF @ ?b) = Some (length L - 2)"
    using find_end_of_fields[OF ne clean] by (simp add: L_def)
  then have "find_needle (L @ CRLF @ ?b) (CRLF @ CRLF) = Some (length L - 2)"
    using len by (simp add: find_needle_def)
  moreover obtain k where "length L = k + 2" using len by (metis le_add_diff_inverse2)
  ultimately have "split_header_block (to_bytes m) = (L, ?b, False)"
    by (simp add: split_header_block_def bytes)
  moreover have "parse_header_block L = headers m"
    using split_lines_bytes[of ?ls] clean parse_fields[OF assms(1), of None]
    by (simp add: parse_header_block_def L_def pushed_def)
  moreover have "to_bytes m \<noteq> []" using bytes by simp
  ultimately show ?thesis by (simp add: parse_mail_bytes_def)
qed

section \<open>What parsing yields\<close>

lemma set_utf8_lossy: "set (utf8_lossy s) \<subseteq> set s \<union> set replacement"
proof (induction s rule: utf8_lossy.induct)
  case (1 s)
  show ?case
  proof (cases "s = []")
    case False
    obtain ok n where st: "utf8_step s = (ok, n)" by (cases "utf8_step s")
    have "set (utf8_lossy (drop n s)) \<subseteq> set s \<union> set replacement"
      using 1[OF False st[symmetric]] st set_drop_subset[of n s] by auto
    moreover have "set (take n s) \<subseteq> set s" by (rule set_take_subset)
    ultimately show ?thesis using False st by (subst utf8_lossy.simps) auto
  qed simp
qed

lemma field_of_parts:
  assumes "field_of l = Some (n, v)" "LF \<notin> set l"
  shows "n = [] \<or> wf_name n" "LF \<notin> set v"
proof -
  obtain k where k: "find_byte ((=) CHR '':'') l = Some k" "n = trim (utf8_lossy (take k l))" "v = drop (k + 1) l"
    using assms(1) by (auto simp: field_of_def split: option.splits if_splits)
  have "set n \<subseteq> set (take k l) \<union> set replacement" using k(2) set_trim set_utf8_lossy by blast
  moreover have "CHR '':'' \<notin> set (take k l)" using k(1) by (auto simp: find_byte_Some in_set_conv_nth)
  moreover have "LF \<notin> set (take k l)" using assms(2) by (auto dest: in_set_takeD)
  ultimately have "CHR '':'' \<notin> set n" "LF \<notin> set n" by auto
  moreover have "utf8_valid n" unfolding k(2) by (intro utf8_valid_trim utf8_valid_lossy)
  ultimately show "n = [] \<or> wf_name n" using k(2) by (auto simp: wf_name_def)
  show "LF \<notin> set v" using assms(2) k(3) by (auto dest: in_set_dropD)
qed

definition cur_ok :: "(str \<times> bytes) option \<Rightarrow> bool" where
  "cur_ok current = (case current of None \<Rightarrow> True | Some (n, v) \<Rightarrow> (n = [] \<or> wf_name n) \<and> folded v)"

lemma folded_line: "LF \<notin> set v \<Longrightarrow> folded v"
  using folded_join[of v "[]"] by simp

lemma folded_continue:
  assumes "folded v" "LF \<notin> set l" "is_continuation l"
  shows "folded (v @ CRLF @ l)"
  using assms(1)
proof (rule folded_cases)
  fix s ss
  assume "v = join CRLF (s # ss)" "\<forall>l\<in>set (s # ss). LF \<notin> set l" "list_all is_continuation ss"
  then show ?thesis using folded_join[of s "ss @ [l]"] assms(2,3) by (simp add: join_Cons)
qed

lemma cur_ok_field: "LF \<notin> set l \<Longrightarrow> cur_ok (field_of l)"
  using field_of_parts[of l] folded_line by (auto simp: cur_ok_def split: option.splits)

lemma cur_ok_continue:
  "cur_ok current \<Longrightarrow> LF \<notin> set l \<Longrightarrow> is_continuation l \<Longrightarrow>
     cur_ok (map_option (\<lambda>(name, value). (name, value @ CRLF @ l)) current)"
  using folded_continue[of _ l] by (cases current) (auto simp: cur_ok_def)

lemma pushed_wf: "cur_ok current \<Longrightarrow> h \<in> set (pushed current) \<Longrightarrow> hname h \<noteq> [] \<Longrightarrow> wf_header h"
  by (auto simp: pushed_def cur_ok_def wf_header_def from_parts_def split: option.splits)

lemma parse_lines_wf:
  assumes "\<forall>l\<in>set ls. LF \<notin> set l" "cur_ok current" "h \<in> set (parse_lines ls current)" "hname h \<noteq> []"
  shows "wf_header h"
  using assms
proof (induction ls current rule: parse_lines.induct)
  case (1 current)
  then show ?case using pushed_wf by simp
next
  case (2 line rest current)
  consider "line = []" | "line \<noteq> []" "is_continuation line" | "line \<noteq> []" "\<not> is_continuation line" by blast
  then show ?case
  proof cases
    case 1
    then show ?thesis using 2 by simp
  next
    case c: 2
    have "cur_ok (map_option (\<lambda>(name, value). (name, value @ CRLF @ line)) current)"
      using 2(4,5) c(2) by (intro cur_ok_continue) simp_all
    then show ?thesis using 2(2)[OF c] 2(4-) c by simp
  next
    case 3
    then show ?thesis using 2(3)[OF 3] 2(4-) cur_ok_field[of line] pushed_wf[of current h] by auto
  qed
qed

lemma parsed_wf:
  assumes "parse_mail_bytes bs = Inr m" "h \<in> set (headers m)" "hname h \<noteq> []"
  shows "wf_header h"
proof -
  have clean: "\<forall>l\<in>set (split_lines block). LF \<notin> set l" for block
    using split_lines_no_LF[of "[]"] by (auto simp: split_lines_def)
  obtain block rest lf where "headers m = parse_lines (split_lines block) None"
    using assms(1) by (auto simp: parse_mail_bytes_def parse_header_block_def split: if_splits prod.splits)
  then show ?thesis
    using parse_lines_wf[OF clean, of None h block] assms(2,3) by (simp add: cur_ok_def)
qed

section \<open>Reading one field\<close>

lemma parts_simps [simp]: "hlower (from_parts n v) = to_lower n" "unfolded (from_parts n v) = unfold v"
  by (simp_all add: from_parts_def unfolded_def)

lemma peek_lines_parse:
  assumes "needle \<noteq> []" "[] \<notin> set ls"
  shows "peek_lines ls needle (case current of Some (n, v) \<Rightarrow> if to_lower n = needle then Some v else None | None \<Rightarrow> None)
    = map_option unfolded (List.find (\<lambda>h. hlower h = needle) (parse_lines ls current))"
  using assms(2)
proof (induction ls arbitrary: current)
  case Nil
  then show ?case by (cases current) (auto simp: pushed_def)
next
  case (Cons line rest)
  have ne: "line \<noteq> []" "[] \<notin> set rest" using Cons.prems by auto
  let ?next = "case find_byte ((=) CHR '':'') line of
      Some colon \<Rightarrow> if to_lower (trim (utf8_lossy (take colon line))) = needle then Some (drop (colon + 1) line) else None
    | None \<Rightarrow> None"
  have "?next = (case field_of line of Some (n, v) \<Rightarrow> if to_lower n = needle then Some v else None | None \<Rightarrow> None)"
    using assms(1) by (auto simp: field_of_def split: option.splits)
  then have next_line: "peek_lines rest needle ?next
      = map_option unfolded (List.find (\<lambda>h. hlower h = needle) (parse_lines rest (field_of line)))"
    using Cons.IH[OF ne(2), of "field_of line"] by simp
  show ?case
  proof (cases "is_continuation line")
    case True
    then show ?thesis
      using ne Cons.IH[OF ne(2), of "map_option (\<lambda>(n, v). (n, v @ CRLF @ line)) current"]
      by (cases current) (auto split: prod.splits if_splits)
  next
    case False
    then show ?thesis
      using ne(1) next_line by (cases current) (auto simp: pushed_def)
  qed
qed

section \<open>Properties\<close>

text \<open>C31. A message of well-formed fields survives serialisation and parsing: every field comes back with
  its name, its folding and its place, and the body byte for byte - or with its bare line feeds made
  CRLF when the message was submitted with those. Every named field that parsing yields is
  well-formed.\<close>

theorem message_roundtrip:
  assumes "parse_mail_bytes bs = Inr m" "headers m \<noteq> []" "\<forall>h\<in>set (headers m). hname h \<noteq> []"
  shows "parse_mail_bytes (to_bytes m)
    = Inr (m\<lparr>was_lf_only := False, mail_body := (if was_lf_only m then normalize_crlf (mail_body m) else mail_body m)\<rparr>)"
  using reparse[of m] parsed_wf[OF assms(1)] assms(2,3) by (simp add: list_all_iff crlf_body_def)

definition sample_mail :: bytes where
  "sample_mail = ''From: a@b.c'' @ CRLF @ ''subject: hi'' @ CRLF @ '' there'' @ CRLF @ CRLF @ ''x: y'' @ CRLF"

definition sample_parsed :: mail where
  "sample_parsed = \<lparr>headers = [from_parts ''From'' '' a@b.c'', from_parts ''subject'' ('' hi'' @ CRLF @ '' there'')],
     mail_body = ''x: y'' @ CRLF, was_lf_only = False\<rparr>"

lemma sample_parses: "parse_mail_bytes sample_mail = Inr sample_parsed"
  by (simp only: sample_mail_def sample_parsed_def) code_simp

theorem message_roundtrip_witness:
  "parse_mail_bytes (to_bytes sample_parsed) = Inr sample_parsed \<and> to_bytes sample_parsed = sample_mail"
proof -
  have "to_bytes sample_parsed = sample_mail" by (simp only: sample_mail_def sample_parsed_def) code_simp
  moreover have "headers sample_parsed \<noteq> []" "\<forall>h\<in>set (headers sample_parsed). hname h \<noteq> []" "\<not> was_lf_only sample_parsed"
    by (auto simp: sample_parsed_def from_parts_def)
  ultimately show ?thesis using message_roundtrip[OF sample_parses] by simp
qed



text \<open>Parsing does not split at the first empty line but at the first \<^verbatim>\<open>\r\n\r\n\<close>: a message that
  starts with its empty line, because it has no fields, loses the first paragraph of its body.\<close>

theorem first_paragraph_lost:
  assumes "para \<noteq> []" "LF \<notin> set para" "CHR '':'' \<notin> set para" "hd para \<noteq> CR"
  shows "\<exists>m. parse_mail_bytes (CRLF @ para @ CRLF @ CRLF @ rest) = Inr m
    \<and> headers m = [] \<and> to_bytes m = CRLF @ rest"
proof -
  let ?bs = "CRLF @ para @ CRLF @ CRLF @ rest"
  have "\<not> starts_with CRLF (para @ CRLF @ CRLF @ rest)"
    using assms(1,4) by (cases para) (auto simp: starts_with_def)
  then have "find_sub (CRLF @ CRLF) ?bs = Some (2 + length para)"
    using find_blank_line[of "[]" "para @ CRLF @ CRLF @ rest"] find_blank_line[OF assms(2), of "CRLF @ rest"]
    by (simp add: starts_with_def)
  then have "split_header_block ?bs = (CRLF @ para @ CRLF, rest, False)"
    by (simp add: split_header_block_def find_needle_def eval_nat_numeral)
  moreover have "parse_header_block (CRLF @ para @ CRLF) = []"
  proof -
    have "split_lines (CRLF @ para @ CRLF) = [[], para]"
      using split_lines_line[of "[]" "para @ CRLF"] split_lines_line[OF assms(2), of "[]"] by simp
    moreover have "find_byte ((=) CHR '':'') para = None" using assms(3) by (auto simp: find_byte_None)
    ultimately show ?thesis by (simp add: parse_header_block_def pushed_def field_of_def)
  qed
  ultimately show ?thesis by (simp add: parse_mail_bytes_def to_bytes_def)
qed

theorem first_paragraph_lost_witness:
  "\<exists>m. parse_mail_bytes (CRLF @ ''Dear customer,'' @ CRLF @ CRLF @ ''your order has shipped.'') = Inr m
    \<and> headers m = [] \<and> to_bytes m = CRLF @ ''your order has shipped.''"
  by (rule first_paragraph_lost) auto

end
