(* ===== verification/Rotation.thy ===== *)
theory Rotation
  imports Headers "HOL-Library.Monad_Syntax"
begin

text \<open>Encoded words (src/message/mod.rs) and content rotation (src/message/rotation.rs): what a template
  needs of the inbound message (click links, pixels, the view and unsubscribe links), the edits of its
  HTML, and the multipart body that replaces the original. Slicing out of range panics in the code;
  the functions that slice so return \<open>None\<close> for a panic. Base64 is a parameter, and so is the
  random part of the boundary.\<close>

section \<open>Searching and replacing\<close>

definition str_contains :: "str \<Rightarrow> str \<Rightarrow> bool" where
  "str_contains s needle = (needle = [] \<or> find_sub needle s \<noteq> None)"

fun rfind_sub :: "bytes \<Rightarrow> bytes \<Rightarrow> nat option" where
  "rfind_sub needle [] = None"
| "rfind_sub needle (x # xs) =
     (case rfind_sub needle xs of
        Some n \<Rightarrow> Some (Suc n)
      | None \<Rightarrow> if starts_with needle (x # xs) then Some 0 else None)"

definition split_once_sub :: "str \<Rightarrow> str \<Rightarrow> (str \<times> str) option" where
  "split_once_sub needle s =
     map_option (\<lambda>n. (take n s, drop (n + length needle) s)) (find_sub needle s)"

definition before_sub :: "str \<Rightarrow> str \<Rightarrow> str" where
  "before_sub needle s = (case find_sub needle s of Some n \<Rightarrow> take n s | None \<Rightarrow> s)"

text \<open>\<^verbatim>\<open>str::split\<close> at a non-empty separator, and \<^verbatim>\<open>str::replace\<close>.\<close>

function split_sub :: "str \<Rightarrow> str \<Rightarrow> str \<Rightarrow> str list" where
  "split_sub needle acc s =
     (if needle \<noteq> [] \<and> starts_with needle s then acc # split_sub needle [] (drop (length needle) s)
      else case s of [] \<Rightarrow> [acc] | c # cs \<Rightarrow> split_sub needle (acc @ [c]) cs)"
  by pat_completeness auto
termination by (relation "measure (\<lambda>(n, acc, s). length s)") (auto simp: starts_with_iff)

declare split_sub.simps [simp del]

definition replace_all :: "str \<Rightarrow> str \<Rightarrow> str \<Rightarrow> str" where
  "replace_all needle new s = join new (split_sub needle [] s)"

fun split_where :: "(char \<Rightarrow> bool) \<Rightarrow> str \<Rightarrow> str list" where
  "split_where p [] = [[]]"
| "split_where p (c # cs) =
     (if p c then [] # split_where p cs
      else case split_where p cs of w # ws \<Rightarrow> (c # w) # ws | [] \<Rightarrow> [[c]])"

definition trim_matches :: "char set \<Rightarrow> str \<Rightarrow> str" where
  "trim_matches cs s = rev (dropWhile (\<lambda>c. c \<in> cs) (rev (dropWhile (\<lambda>c. c \<in> cs) s)))"

definition trim_end_matches :: "char set \<Rightarrow> str \<Rightarrow> str" where
  "trim_end_matches cs s = rev (dropWhile (\<lambda>c. c \<in> cs) (rev s))"

function trim_start_sub :: "str \<Rightarrow> str \<Rightarrow> str" where
  "trim_start_sub needle s =
     (if needle \<noteq> [] \<and> starts_with needle s then trim_start_sub needle (drop (length needle) s) else s)"
  by pat_completeness auto
termination by (relation "measure (\<lambda>(n, s). length s)") (auto simp: starts_with_iff)

declare trim_start_sub.simps [simp del]

section \<open>Encoded words\<close>

definition hex_digit :: "char \<Rightarrow> nat option" where
  "hex_digit c = (let n = byte c in
     if 48 \<le> n \<and> n \<le> 57 then Some (n - 48)
     else if 97 \<le> n \<and> n \<le> 102 then Some (n - 97 + 10)
     else if 65 \<le> n \<and> n \<le> 70 then Some (n - 65 + 10)
     else None)"

definition hex_pair :: "char \<Rightarrow> char \<Rightarrow> char option" where
  "hex_pair high low = (do { h \<leftarrow> hex_digit high; l \<leftarrow> hex_digit low; Some (char_of (16 * h + l)) })"

fun q_decode :: "bytes \<Rightarrow> bytes" where
  "q_decode [] = []"
| "q_decode (c # cs) =
     (if c = CHR ''_'' then CHR '' '' # q_decode cs
      else if c = CHR ''=''
      then (case cs of
              d # e # rest \<Rightarrow> (case hex_pair d e of Some b \<Rightarrow> b # q_decode rest | None \<Rightarrow> CHR ''='' # q_decode cs)
            | _ \<Rightarrow> c # q_decode cs)
      else c # q_decode cs)"

text \<open>A byte as the code point of the same number.\<close>

definition latin1_char :: "char \<Rightarrow> str" where
  "latin1_char c = (if byte c < 128 then [c] else [char_of (192 + byte c div 64), char_of (128 + byte c mod 64)])"

definition parse_encoded_word :: "(str \<Rightarrow> bytes option) \<Rightarrow> str \<Rightarrow> (str \<times> nat) option" where
  "parse_encoded_word b64d input = (do {
     rest \<leftarrow> strip_prefix ''=?'' input;
     stop \<leftarrow> find_sub ''?='' rest;
     (charset, more) \<leftarrow> split_once CHR ''?'' (take stop rest);
     (encoding, txt) \<leftarrow> split_once CHR ''?'' more;
     if CHR ''?'' \<in> set txt then None
     else do {
       bs \<leftarrow> (if to_lower encoding = ''b'' then b64d txt
             else if to_lower encoding = ''q'' then Some (q_decode txt) else None);
       Some (if to_lower charset \<in> {''utf-8'', ''utf8'', ''us-ascii'', ''ascii''} then utf8_lossy bs
             else concat (map latin1_char bs), 2 + stop + 2)
     } })"

function decode_words :: "(str \<Rightarrow> bytes option) \<Rightarrow> str \<Rightarrow> bool \<Rightarrow> str \<Rightarrow> str" where
  "decode_words b64d out previous rest =
     (case find_sub ''=?'' rest of
        None \<Rightarrow> out @ rest
      | Some start \<Rightarrow>
          let before = take start rest; tail = drop start rest
          in case parse_encoded_word b64d tail of
               Some (decoded, consumed) \<Rightarrow>
                 decode_words b64d
                   (out @ (if previous \<and> trim before = [] \<and> before \<noteq> [] then [] else before) @ decoded)
                   True (drop consumed tail)
             | None \<Rightarrow> decode_words b64d (out @ before @ ''=?'') False (drop 2 tail))"
  by pat_completeness auto
termination
proof (relation "measure (\<lambda>(b, out, p, rest). length rest)")
  fix rest :: str and b64d out previous and start x decoded consumed
    and before tail :: str
  assume "find_sub ''=?'' rest = Some start" "tail = drop start rest"
    "parse_encoded_word b64d tail = Some x" "(decoded, consumed) = x"
  then have "0 < consumed" "start < length rest" "tail = drop start rest"
    using find_sub_starts by (auto simp: parse_encoded_word_def bind_eq_Some_conv split: if_splits prod.splits)
  then show "((b64d, out @ (if previous \<and> trim before = [] \<and> before \<noteq> [] then [] else before) @ decoded, True, drop consumed tail),
      b64d, out, previous, rest) \<in> measure (\<lambda>(b, out, p, rest). length rest)" by auto
qed (auto dest: find_sub_starts)

declare decode_words.simps [simp del]

definition decode_encoded_words :: "(str \<Rightarrow> bytes option) \<Rightarrow> str \<Rightarrow> str" where
  "decode_encoded_words b64d input =
     (if \<not> str_contains input ''=?'' then input else decode_words b64d [] False input)"

definition normalize_subject :: "(str \<Rightarrow> bytes option) \<Rightarrow> str \<Rightarrow> str" where
  "normalize_subject b64d value = to_lower (join '' '' (split_whitespace (decode_encoded_words b64d value)))"

definition template_matches :: "(str \<Rightarrow> bytes option) \<Rightarrow> content_template \<Rightarrow> str \<Rightarrow> bool" where
  "template_matches b64d template inbound_subject =
     (let needle = normalize_subject b64d (match_subject template)
      in needle \<noteq> [] \<and> needle = normalize_subject b64d inbound_subject)"

section \<open>URLs\<close>

datatype url_kind = View | Unsubscribe | Click

definition url_path :: "str \<Rightarrow> str" where
  "url_path url =
     (let low = to_lower (trim url);
          after_scheme = (case split_once_sub ''://'' low of Some (_, rest) \<Rightarrow> rest | None \<Rightarrow> low);
          after_host = (case split_once CHR ''/'' after_scheme of Some (_, path) \<Rightarrow> path | None \<Rightarrow> [])
      in ''/'' @ after_host)"

definition classify_url :: "str \<Rightarrow> url_kind" where
  "classify_url url =
     (let path = url_path url
      in if str_contains path ''/email/unsubscribe'' \<or> str_contains path ''/unsubscribe'' then Unsubscribe
         else if str_contains path ''/email/view'' then View
         else Click)"

definition keep_url :: "str \<Rightarrow> bool" where
  "keep_url url =
     (let url = trim url
      in if url = [] \<or> starts_with ''#'' url \<or> starts_with ''{{'' url then False
         else let low = to_lower url
              in (starts_with ''http://'' low \<or> starts_with ''https://'' low)
                 \<and> \<not> starts_with ''mailto:'' low \<and> \<not> starts_with ''javascript:'' low)"

text \<open>The first bracketed URL; an unclosed bracket ends the whole search.\<close>

function bracketed_url :: "str \<Rightarrow> str option option" where
  "bracketed_url rest =
     (case split_once CHR ''<'' rest of
        None \<Rightarrow> Some None
      | Some (_, rest) \<Rightarrow>
          (case split_once CHR ''>'' rest of
             None \<Rightarrow> None
           | Some (inside, rest) \<Rightarrow>
               if keep_url (trim inside) then Some (Some (trim inside)) else bracketed_url rest))"
  by pat_completeness auto
termination by (relation "measure length") (auto dest!: split_once_Some[THEN iffD1])

declare bracketed_url.simps [simp del]

definition list_unsubscribe_https :: "str \<Rightarrow> str option" where
  "list_unsubscribe_https value =
     (case bracketed_url value of
        None \<Rightarrow> None
      | Some (Some url) \<Rightarrow> Some url
      | Some None \<Rightarrow>
          List.find keep_url
            (map (trim_matches {CHR ''<'', CHR ''>'', DQ, SQ})
               (split_where (\<lambda>c. c \<in> {CHR '','', CHR '' '', TAB}) value)))"

section \<open>Bodies of the inbound message\<close>

definition sniff_line :: "str \<Rightarrow> str option" where
  "sniff_line line =
     (case strip_prefix ''--'' (trim line) of
        None \<Rightarrow> None
      | Some rest \<Rightarrow>
          if rest = [] then None
          else let rest = trim (if ends_with ''--'' rest then take (length rest - 2) rest else rest)
               in if rest = [] then None else Some rest)"

definition sniff_boundary :: "bytes \<Rightarrow> str option" where
  "sniff_boundary bs =
     (case List.map_filter sniff_line (split_lines (utf8_lossy bs)) of b # _ \<Rightarrow> Some b | [] \<Rightarrow> None)"

definition content_type_param :: "str \<Rightarrow> str \<Rightarrow> str option" where
  "content_type_param hdr name = (do {
     start \<leftarrow> find_sub (name @ ''='') (to_lower hdr);
     let rest = trim (drop (start + length name + 1) hdr);
     case strip_prefix [DQ] rest of
       Some stripped \<Rightarrow> map_option fst (split_once DQ stripped)
     | None \<Rightarrow> Some (trim_matches {DQ} (concat (takeWhile (\<lambda>ch. ch \<noteq> '';'' \<and> \<not> is_ws ch) (chars rest)))) })"

definition multipart_chunk :: "str \<Rightarrow> str option" where
  "multipart_chunk chunk =
     (let chunk = trim_start_sub [LF] (trim_start_sub CRLF chunk)
      in if chunk = [] \<or> starts_with ''--'' chunk then None else Some chunk)"

definition split_multipart :: "bytes \<Rightarrow> str \<Rightarrow> bytes list" where
  "split_multipart bs boundary = List.map_filter multipart_chunk (split_sub (''--'' @ boundary) [] (utf8_lossy bs))"

definition part_is :: "bytes \<Rightarrow> str \<Rightarrow> bool" where
  "part_is part mime =
     str_contains (before_sub [LF, LF] (before_sub (CRLF @ CRLF) (to_lower (utf8_lossy part)))) mime"

definition split_part :: "str \<Rightarrow> str \<times> str" where
  "split_part part =
     (case split_once_sub (CRLF @ CRLF) part of
        Some p \<Rightarrow> p
      | None \<Rightarrow> (case split_once_sub [LF, LF] part of Some p \<Rightarrow> p | None \<Rightarrow> ([], part)))"

definition skip_one :: "char \<Rightarrow> bytes \<Rightarrow> bytes" where
  "skip_one c bs = (case bs of x # rest \<Rightarrow> if x = c then rest else bs | [] \<Rightarrow> [])"

lemma length_skip_one: "length (skip_one c bs) \<le> length bs"
  by (cases bs) (auto simp: skip_one_def)

function qp_decode :: "bytes \<Rightarrow> bytes" where
  "qp_decode [] = []"
| "qp_decode (c # cs) =
     (if c = CHR ''='' \<and> cs \<noteq> []
      then if hd cs = CR \<or> hd cs = LF then qp_decode (skip_one LF (skip_one CR cs))
           else (case cs of
                   d # e # rest \<Rightarrow> (case hex_pair d e of Some b \<Rightarrow> b # qp_decode rest | None \<Rightarrow> c # qp_decode cs)
                 | _ \<Rightarrow> c # qp_decode cs)
      else c # qp_decode cs)"
  by pat_completeness auto
termination
  by (relation "measure length")
    (auto intro!: le_imp_less_Suc order.trans[OF length_skip_one] simp: length_skip_one)

definition decode_body :: "(str \<Rightarrow> bytes option) \<Rightarrow> bytes \<Rightarrow> str \<Rightarrow> str" where
  "decode_body b64d bs encoding =
     (let encoding = to_lower (trim encoding)
      in utf8_lossy
           (if encoding = ''base64''
            then (case b64d (concat (filter (\<lambda>ch. \<not> is_ws ch) (chars (utf8_lossy bs)))) of
                    Some decoded \<Rightarrow> decoded | None \<Rightarrow> bs)
            else if encoding = ''quoted-printable'' then qp_decode bs
            else bs))"

text \<open>The last transfer encoding among the header lines wins.\<close>

definition decode_part_body :: "(str \<Rightarrow> bytes option) \<Rightarrow> bytes \<Rightarrow> str" where
  "decode_part_body b64d part =
     (let (header_block, rest) = split_part (utf8_lossy part);
          encodings = map trim (List.map_filter (\<lambda>line. strip_prefix ''content-transfer-encoding:'' (to_lower line))
                        (split_lines header_block))
      in decode_body b64d rest (if encodings = [] then [] else last encodings))"

definition part_from_multipart :: "(str \<Rightarrow> bytes option) \<Rightarrow> bytes \<Rightarrow> str \<Rightarrow> str \<Rightarrow> str option" where
  "part_from_multipart b64d bs content_type mime =
     (if \<not> str_contains (to_lower content_type) ''multipart'' \<and> sniff_boundary bs = None then None
      else case (case content_type_param content_type ''boundary'' of Some b \<Rightarrow> Some b | None \<Rightarrow> sniff_boundary bs) of
             None \<Rightarrow> None
           | Some boundary \<Rightarrow>
               map_option (decode_part_body b64d) (List.find (\<lambda>p. part_is p mime) (split_multipart bs boundary)))"

definition or_empty :: "str option \<Rightarrow> str" where
  "or_empty s = (case s of Some s \<Rightarrow> s | None \<Rightarrow> [])"

definition extract_html :: "(str \<Rightarrow> bytes option) \<Rightarrow> bytes \<Rightarrow> str option" where
  "extract_html b64d bs =
     (case parse_mail_bytes bs of
        Inl _ \<Rightarrow> None
      | Inr m \<Rightarrow>
          let content_type = or_empty (header_value ''content-type'' m); lossy = utf8_lossy (mail_body m)
          in case part_from_multipart b64d (mail_body m) content_type ''text/html'' of
               Some html \<Rightarrow> Some html
             | None \<Rightarrow>
                 if str_contains (to_lower content_type) ''text/html''
                 then Some (decode_body b64d (mail_body m) (or_empty (header_value ''content-transfer-encoding'' m)))
                 else if str_contains lossy ''<html'' \<or> str_contains lossy ''<a '' \<or> str_contains lossy ''<img''
                   \<or> str_contains lossy ''<p>''
                 then (if str_contains lossy ''=3D'' \<or> str_contains lossy (''='' @ CRLF)
                       then Some (decode_body b64d lossy ''quoted-printable'')
                       else Some lossy)
                 else None)"

definition extract_text :: "(str \<Rightarrow> bytes option) \<Rightarrow> bytes \<Rightarrow> str option" where
  "extract_text b64d bs =
     (case parse_mail_bytes bs of
        Inl _ \<Rightarrow> None
      | Inr m \<Rightarrow>
          let content_type = or_empty (header_value ''content-type'' m)
          in case part_from_multipart b64d (mail_body m) content_type ''text/plain'' of
               Some txt \<Rightarrow> Some txt
             | None \<Rightarrow>
                 if str_contains (to_lower content_type) ''text/plain''
                 then Some (decode_body b64d (mail_body m) (or_empty (header_value ''content-transfer-encoding'' m)))
                 else None)"

definition decoded_bodies :: "(str \<Rightarrow> bytes option) \<Rightarrow> bytes \<Rightarrow> str option \<times> str option" where
  "decoded_bodies b64d bs = (extract_html b64d bs, extract_text b64d bs)"

definition extract_unsubscribe :: "bytes \<Rightarrow> str option" where
  "extract_unsubscribe bs =
     (case parse_mail_bytes bs of
        Inl _ \<Rightarrow> None
      | Inr m \<Rightarrow> Option.bind (header_value ''list-unsubscribe'' m) list_unsubscribe_https)"

section \<open>Scanning HTML\<close>

text \<open>\<^verbatim>\<open>rest.split(c).next()\<close>: up to the first character of the kind, or everything.\<close>

definition up_to :: "char \<Rightarrow> str \<Rightarrow> str" where
  "up_to c s = takeWhile (\<lambda>x. x \<noteq> c) s"

definition up_to_ws_or_gt :: "str \<Rightarrow> str" where
  "up_to_ws_or_gt s = concat (takeWhile (\<lambda>ch. \<not> is_ws ch \<and> ch \<noteq> ''>'') (chars s))"

definition attr_value :: "str \<Rightarrow> str" where
  "attr_value rest =
     (case strip_prefix [DQ] rest of
        Some quoted \<Rightarrow> up_to DQ quoted
      | None \<Rightarrow>
          (case strip_prefix [SQ] rest of
             Some quoted \<Rightarrow> up_to SQ quoted
           | None \<Rightarrow> up_to_ws_or_gt rest))"

definition strip_or_keep :: "str \<Rightarrow> str \<Rightarrow> str" where
  "strip_or_keep p s = (case strip_prefix p s of Some rest \<Rightarrow> rest | None \<Rightarrow> s)"

text \<open>\<open>None\<close>: the slice of the next search starts past the end of the text.\<close>

function hrefs_loop :: "str \<Rightarrow> nat \<Rightarrow> str list \<Rightarrow> str list option" where
  "hrefs_loop html search links =
     (if length html < search then None
      else case find_sub ''href'' (drop search (to_lower html)) of
        None \<Rightarrow> Some links
      | Some rel \<Rightarrow>
          let start = search + rel + 4;
              url = attr_value (trim_start (strip_or_keep ''='' (trim_start (drop start html))))
          in hrefs_loop html (start + 1) (if keep_url url \<and> url \<notin> set links then links @ [url] else links))"
  by pat_completeness auto
termination by (relation "measure (\<lambda>(html, search, links). length html + 1 - search)") auto

declare hrefs_loop.simps [simp del]

definition extract_hrefs :: "str \<Rightarrow> str list option" where
  "extract_hrefs html = hrefs_loop html 0 []"

definition extract_bare_urls :: "str \<Rightarrow> str list" where
  "extract_bare_urls txt =
     foldl (\<lambda>links url. if url \<in> set links then links else links @ [url]) [] (filter keep_url (map (trim_end_matches {CHR ''.'', CHR '','', CHR '')'', CHR '']''}) (split_whitespace txt)))"

definition attr :: "str \<Rightarrow> str \<Rightarrow> str option" where
  "attr tag name =
     map_option (\<lambda>pos. attr_value (trim_start (drop (pos + length name + 1) tag)))
       (find_sub (name @ ''='') (to_lower tag))"

definition looks_like_pixel :: "str \<Rightarrow> str \<Rightarrow> bool" where
  "looks_like_pixel tag src =
     (let tag = to_lower tag; src = to_lower src
      in str_contains tag (''width='' @ [DQ] @ ''1'' @ [DQ]) \<or> str_contains tag (''width='' @ [SQ] @ ''1'' @ [SQ])
         \<or> str_contains tag (''height='' @ [DQ] @ ''1'' @ [DQ]) \<or> str_contains tag (''height='' @ [SQ] @ ''1'' @ [SQ])
         \<or> str_contains src ''/email/'' \<or> str_contains src ''tracking'' \<or> str_contains src ''pixel''
         \<or> str_contains src ''/open'' \<or> ends_with ''.gif'' src)"

text \<open>The end of the tag that starts at a position.\<close>

definition tag_end_from :: "nat \<Rightarrow> str \<Rightarrow> nat" where
  "tag_end_from start s = (case find_byte ((=) CHR ''>'') (drop start s) of Some n \<Rightarrow> start + n + 1 | None \<Rightarrow> length s)"

lemma tag_end_from: "start < length s \<Longrightarrow> start < tag_end_from start s \<and> tag_end_from start s \<le> length s"
  by (auto simp: tag_end_from_def find_byte_Some split: option.splits)

function pixels_loop :: "str \<Rightarrow> nat \<Rightarrow> str list \<Rightarrow> str list" where
  "pixels_loop html search pixels =
     (case find_sub ''<img'' (drop search (to_lower html)) of
        None \<Rightarrow> pixels
      | Some rel \<Rightarrow>
          let start = search + rel; stop = tag_end_from start (to_lower html);
              tag = take (stop - start) (drop start html)
          in pixels_loop html stop
               (case attr tag ''src'' of
                  Some src \<Rightarrow> if looks_like_pixel tag src \<and> src \<notin> set pixels then pixels @ [src] else pixels
                | None \<Rightarrow> pixels))"
  by pat_completeness auto
termination
proof (relation "measure (\<lambda>(html, search, pixels). length html - search)")
  fix html :: str and search start stop rel :: nat and tag :: str and pixels :: "str list"
  assume "find_sub ''<img'' (drop search (to_lower html)) = Some rel" "start = search + rel"
    "stop = tag_end_from start (to_lower html)"
  moreover have "rel < length (drop search (to_lower html))" using calculation(1) find_sub_starts by blast
  then have "search + rel < length (to_lower html)" by simp
  ultimately have "search < stop" "stop \<le> length html"
    using tag_end_from[of start "to_lower html"] by simp_all
  then show "((html, stop, case attr tag ''src'' of
        Some src \<Rightarrow> if looks_like_pixel tag src \<and> src \<notin> set pixels then pixels @ [src] else pixels | None \<Rightarrow> pixels),
      html, search, pixels) \<in> measure (\<lambda>(html, search, pixels). length html - search)"
    by simp
qed simp

declare pixels_loop.simps [simp del]

definition extract_pixels :: "str \<Rightarrow> str list" where
  "extract_pixels html = pixels_loop html 0 []"

section \<open>Tracking\<close>

record tracking =
  tr_links :: "str list"
  tr_pixels :: "str list"
  tr_unsubscribe :: "str option"
  tr_view :: "str option"

fun sort_urls :: "str list \<Rightarrow> str list \<Rightarrow> str option \<Rightarrow> str option \<Rightarrow> str list \<times> str option \<times> str option" where
  "sort_urls [] links view unsub = (links, view, unsub)"
| "sort_urls (url # urls) links view unsub =
     (case classify_url url of
        View \<Rightarrow> sort_urls urls links (if view = None then Some url else view) unsub
      | Unsubscribe \<Rightarrow> sort_urls urls links view (if unsub = None then Some url else unsub)
      | Click \<Rightarrow> sort_urls urls (if url \<in> set links then links else links @ [url]) view unsub)"

definition extract_tracking :: "(str \<Rightarrow> bytes option) \<Rightarrow> bytes \<Rightarrow> tracking option" where
  "extract_tracking b64d bs = (do {
     let html = or_empty (extract_html b64d bs);
     hrefs \<leftarrow> extract_hrefs html;
     let hrefs = (if hrefs = [] then (case extract_text b64d bs of Some txt \<Rightarrow> extract_bare_urls txt | None \<Rightarrow> []) else hrefs);
     let (links, view, body_unsub) = sort_urls hrefs [] None None;
     Some \<lparr>tr_links = links, tr_pixels = extract_pixels html,
       tr_unsubscribe = (case extract_unsubscribe bs of Some u \<Rightarrow> Some u | None \<Rightarrow> body_unsub), tr_view = view\<rparr> })"

section \<open>Editing HTML\<close>

definition replace_ci :: "str \<Rightarrow> str \<Rightarrow> str \<Rightarrow> str" where
  "replace_ci input needle new =
     (case find_sub (to_lower needle) (to_lower input) of
        Some n \<Rightarrow> take n input @ new @ drop (n + length needle) input
      | None \<Rightarrow> input)"

definition link_tokens :: "nat \<Rightarrow> str list" where
  "link_tokens n = [''{{link'' @ dec n @ ''}}'', ''{{LINK'' @ dec n @ ''}}'', ''{{ link'' @ dec n @ '' }}'']"

definition unsubscribe_tokens :: "str list" where
  "unsubscribe_tokens = [''{{unsubscribe}}'', ''{{UNSUBSCRIBE}}'', ''{{ unsubscribe }}'']"

definition view_tokens :: "str list" where
  "view_tokens = [''{{view}}'', ''{{VIEW}}'', ''{{ view }}'', ''{{webview}}'', ''{{browser}}'']"

definition replace_link_placeholders :: "str \<Rightarrow> str list \<Rightarrow> str" where
  "replace_link_placeholders input links =
     (if \<not> str_contains input ''{{link'' \<and> \<not> str_contains (to_lower input) ''{{link'' then input
      else fold (\<lambda>(n, link) out. fold (\<lambda>token out. replace_all token link out) (link_tokens (n + 1)) out)
             (enumerate 0 links) input)"

definition replace_placeholders :: "str \<Rightarrow> tracking \<Rightarrow> str" where
  "replace_placeholders input t =
     (let out = replace_link_placeholders input (tr_links t);
          out = (case tr_unsubscribe t of Some url \<Rightarrow> fold (\<lambda>token out. replace_ci out token url) unsubscribe_tokens out
                                        | None \<Rightarrow> out)
      in case tr_view t of Some url \<Rightarrow> fold (\<lambda>token out. replace_ci out token url) view_tokens out | None \<Rightarrow> out)"

text \<open>The quoted value of an attribute; other forms are skipped.\<close>

definition quoted_value :: "str \<Rightarrow> str option" where
  "quoted_value padded =
     (case strip_prefix [DQ] padded of
        Some quoted \<Rightarrow> Some (up_to DQ quoted)
      | None \<Rightarrow> map_option (up_to SQ) (strip_prefix [SQ] padded))"

function rewrite_hrefs_loop :: "str \<Rightarrow> url_kind \<Rightarrow> str \<Rightarrow> str \<Rightarrow> nat \<Rightarrow> nat \<Rightarrow> str" where
  "rewrite_hrefs_loop html kind new out finished search =
     (case find_sub ''href'' (drop search (to_lower html)) of
        None \<Rightarrow> out @ drop finished html
      | Some rel \<Rightarrow>
          let after = search + rel + 4
          in case find_byte ((=) CHR ''='') (drop after html) of
               None \<Rightarrow> rewrite_hrefs_loop html kind new out finished after
             | Some eq \<Rightarrow>
                 let value_at = after + eq + 1; padded = trim_start (drop value_at html);
                     start = value_at + (length (drop value_at html) - length padded)
                 in case quoted_value padded of
                      None \<Rightarrow> rewrite_hrefs_loop html kind new out finished after
                    | Some url \<Rightarrow>
                        let url_start = start + 1; search = url_start + length url
                        in if starts_with ''{{'' url \<or> url = new \<or> classify_url url \<noteq> kind
                           then rewrite_hrefs_loop html kind new out finished search
                           else rewrite_hrefs_loop html kind new
                                  (out @ take (url_start - finished) (drop finished html) @ new) search search)"
  by pat_completeness auto
termination
  by (relation "measure (\<lambda>(html, kind, new, out, finished, search). length html - search)")
    (use find_sub_starts in \<open>fastforce simp: Let_def\<close>)+

declare rewrite_hrefs_loop.simps [simp del]

definition rewrite_hrefs_of_kind :: "str \<Rightarrow> url_kind \<Rightarrow> str \<Rightarrow> str" where
  "rewrite_hrefs_of_kind html kind new = rewrite_hrefs_loop html kind new [] 0 0"

definition rewrite_special_hrefs :: "str \<Rightarrow> tracking \<Rightarrow> str" where
  "rewrite_special_hrefs html t =
     (let out = (case tr_unsubscribe t of Some url \<Rightarrow> rewrite_hrefs_of_kind html Unsubscribe url | None \<Rightarrow> html)
      in case tr_view t of Some url \<Rightarrow> rewrite_hrefs_of_kind out View url | None \<Rightarrow> out)"

fun strip_tags :: "str list \<Rightarrow> bool \<Rightarrow> str" where
  "strip_tags [] in_tag = []"
| "strip_tags (ch # rest) in_tag =
     (if ch = ''<'' then strip_tags rest True
      else if ch = ''>'' then strip_tags rest False
      else (if in_tag then [] else ch) @ strip_tags rest in_tag)"

definition html_to_text :: "str \<Rightarrow> str" where
  "html_to_text html = join '' '' (split_whitespace (strip_tags (chars html) False))"

definition html_has_unsubscribe :: "str \<Rightarrow> str \<Rightarrow> bool option" where
  "html_has_unsubscribe html url =
     (if str_contains html url then Some True
      else map_option (list_ex (\<lambda>href. classify_url href = Unsubscribe)) (extract_hrefs html))"

text \<open>\<open>None\<close>: the closing tag lies before the end of the opening one, and the slice between them panics.\<close>

function unsub_label_loop :: "str \<Rightarrow> nat \<Rightarrow> str option" where
  "unsub_label_loop html search =
     (case find_sub ''<a'' (drop search (to_lower html)) of
        None \<Rightarrow> Some ''Unsubscribe''
      | Some rel \<Rightarrow>
          let start = search + rel;
              close = map_option ((+) start) (find_sub ''</a>'' (drop start (to_lower html)));
              tag_end = tag_end_from start (to_lower html);
              href = or_empty (attr (take (tag_end - start) (drop start html)) ''href'')
          in if classify_url href \<noteq> Unsubscribe then unsub_label_loop html tag_end
             else case close of
               None \<Rightarrow> unsub_label_loop html tag_end
             | Some close \<Rightarrow>
                 if close < tag_end then None
                 else let label = html_to_text (take (close - tag_end) (drop tag_end html))
                      in if label \<noteq> [] then Some label else unsub_label_loop html tag_end)"
  by pat_completeness auto
termination
proof -
  have step: "length html - tag_end_from (search + rel) (to_lower html) < length html - search"
    if "find_sub ''<a'' (drop search (to_lower html)) = Some rel" for html :: str and search rel
  proof -
    have "rel < length (drop search (to_lower html))" using that find_sub_starts by blast
    then have "search + rel < length (to_lower html)" by simp
    then have "search < tag_end_from (search + rel) (to_lower html)"
      "tag_end_from (search + rel) (to_lower html) \<le> length html"
      using tag_end_from[of "search + rel" "to_lower html"] by simp_all
    then show ?thesis by simp
  qed
  show ?thesis
    by (relation "measure (\<lambda>(html, search). length html - search)") (simp_all add: step)
qed

declare unsub_label_loop.simps [simp del]

definition original_unsub_label :: "str \<Rightarrow> str option" where
  "original_unsub_label html = unsub_label_loop html 0"

definition insert_before_close_body :: "str \<Rightarrow> str \<Rightarrow> str" where
  "insert_before_close_body html snippet =
     (case rfind_sub ''</body>'' (to_lower html) of
        Some n \<Rightarrow> take n html @ snippet @ drop n html
      | None \<Rightarrow> html @ snippet)"

definition unsub_snippet :: "str \<Rightarrow> str \<Rightarrow> str" where
  "unsub_snippet url label =
     ''<p style='' @ [DQ] @ ''margin:16px 0;font-size:12px;text-align:center'' @ [DQ] @ ''><a href='' @ [DQ] @ url
       @ [DQ] @ ''>'' @ label @ ''</a></p>''"

definition ensure_unsubscribe :: "str \<Rightarrow> tracking \<Rightarrow> str \<Rightarrow> str option" where
  "ensure_unsubscribe html t label =
     (case tr_unsubscribe t of
        None \<Rightarrow> Some html
      | Some url \<Rightarrow>
          map_option (\<lambda>yes. if yes then html else insert_before_close_body html (unsub_snippet url label))
            (html_has_unsubscribe html url))"

definition strip_unused_placeholders :: "str \<Rightarrow> str" where
  "strip_unused_placeholders html =
     (let out = fold (\<lambda>token out. replace_ci out token [])
            (view_tokens @ unsubscribe_tokens @ [''{{pixel}}'', ''{{PIXEL}}'']) html
      in fold (\<lambda>n out. fold (\<lambda>token out. replace_all token [] out) (link_tokens n) out) [1..<21] out)"

definition pixel_tag :: "str \<Rightarrow> str" where
  "pixel_tag src = ''<img src='' @ [DQ] @ src @ [DQ] @ '' width='' @ [DQ] @ ''1'' @ [DQ] @ '' height='' @ [DQ] @ ''1''
     @ [DQ] @ '' alt='' @ [DQ, DQ] @ '' />''"

definition inject_pixels :: "str \<Rightarrow> str list \<Rightarrow> str" where
  "inject_pixels html pixels =
     (if pixels = [] then html
      else let tags = concat (map pixel_tag pixels)
           in if str_contains (to_lower html) ''{{pixel}}'' then replace_ci html ''{{pixel}}'' tags
              else insert_before_close_body html tags)"

section \<open>The new body\<close>

definition hex_upper :: "nat \<Rightarrow> char" where
  "hex_upper d = (if d < 10 then char_of (48 + d) else char_of (55 + d))"

definition qp_byte :: "char \<Rightarrow> str" where
  "qp_byte c =
     (if c = CHR '' '' \<or> c = TAB \<or> (33 \<le> byte c \<and> byte c \<le> 126 \<and> byte c \<noteq> 61) then [c]
      else [CHR ''='', hex_upper (byte c div 16), hex_upper (byte c mod 16)])"

fun qp_encode_loop :: "bytes \<Rightarrow> str \<Rightarrow> str" where
  "qp_encode_loop [] line = line"
| "qp_encode_loop (c # cs) line =
     (if c = LF then line @ CRLF @ qp_encode_loop cs []
      else if c = CR then qp_encode_loop cs line
      else if 73 < length line + length (qp_byte c) then line @ ''='' @ CRLF @ qp_encode_loop cs (qp_byte c)
      else qp_encode_loop cs (line @ qp_byte c))"

definition encode_quoted_printable :: "str \<Rightarrow> str" where
  "encode_quoted_printable input = qp_encode_loop input []"

definition part_header :: "str \<Rightarrow> str \<Rightarrow> str" where
  "part_header boundary mime = ''--'' @ boundary @ CRLF @ ''Content-Type: '' @ mime @ ''; charset=utf-8'' @ CRLF
     @ ''Content-Transfer-Encoding: quoted-printable'' @ CRLF @ CRLF"

definition build_alternative :: "str \<Rightarrow> str \<Rightarrow> str \<Rightarrow> bytes" where
  "build_alternative boundary plain html =
     part_header boundary ''text/plain'' @ encode_quoted_printable plain @ CRLF
     @ part_header boundary ''text/html'' @ encode_quoted_printable html @ CRLF
     @ ''--'' @ boundary @ ''--'' @ CRLF"

text \<open>The message is the one already rewritten; the tracking comes from the original bytes.\<close>

definition apply_template ::
  "(str \<Rightarrow> bytes option) \<Rightarrow> (bytes \<Rightarrow> str) \<Rightarrow> str \<Rightarrow> content_template \<Rightarrow> bytes \<Rightarrow> mail \<times> str list \<Rightarrow> (mail \<times> str list) option" where
  "apply_template b64d b64e nonce t original m_notes = (do {
     let (m, notes) = m_notes;
     tracked \<leftarrow> extract_tracking b64d original;
     let html = (if trim (ct_body t) = []
       then (case extract_html b64d original of Some html \<Rightarrow> html | None \<Rightarrow> utf8_lossy (mail_body m))
       else ct_body t);
     let html = rewrite_special_hrefs (replace_placeholders html tracked) tracked;
     label \<leftarrow> original_unsub_label (or_empty (extract_html b64d original));
     html \<leftarrow> ensure_unsubscribe html tracked label;
     let html = strip_unused_placeholders (inject_pixels html (tr_pixels tracked));
     let m = (if trim (ct_subject t) \<noteq> []
       then set_header ''Subject'' (trim_matches {DQ} (encode_display_name b64e (replace_placeholders (trim (ct_subject t)) tracked))) m
       else m);
     let boundary = ''----=_sr-rot-'' @ nonce;
     let m = set_header ''MIME-Version'' ''1.0'' m;
     let m = set_header ''Content-Type'' (''multipart/alternative; boundary='' @ [DQ] @ boundary @ [DQ]) m;
     let m = set_body (build_alternative boundary (html_to_text html) html)
       (snd (remove_all ''Content-Transfer-Encoding'' m));
     Some (m, notes @ [''content rotation '' @ bq (if trim (ct_id t) = [] then ''unnamed'' else trim (ct_id t)) @ '' (''
       @ dec (length (tr_links tracked)) @ '' tracked link(s), '' @ dec (length (tr_pixels tracked)) @ '' pixel(s))'']) })"

section \<open>Quoted-printable\<close>

lemma hex_digit_upper: "d < 16 \<Longrightarrow> hex_digit (hex_upper d) = Some d \<and> hex_upper d \<noteq> CR \<and> hex_upper d \<noteq> LF"
proof -
  assume d: "d < 16"
  then have b: "byte (hex_upper d) = (if d < 10 then 48 + d else 55 + d)" by (simp add: hex_upper_def)
  have "byte CR = 13" "byte LF = 10" by (simp_all add: byte_def)
  then have "hex_upper d \<noteq> CR" "hex_upper d \<noteq> LF" using b by (auto split: if_splits)
  then show ?thesis using b d by (simp add: hex_digit_def)
qed

lemma hex_pair_upper: "hex_pair (hex_upper (byte c div 16)) (hex_upper (byte c mod 16)) = Some c"
proof -
  have "byte c div 16 < 16" using byte_less[of c] by simp
  then show ?thesis
    using hex_digit_upper[of "byte c div 16"] hex_digit_upper[of "byte c mod 16"]
    by (simp add: hex_pair_def) (simp add: byte_def)
qed

lemma qp_decode_byte: "qp_decode (qp_byte c @ x) = c # qp_decode x"
proof (cases "qp_byte c = [c]")
  case True
  then have "c \<noteq> CHR ''=''" by (auto simp: qp_byte_def byte_def)
  then show ?thesis using True by simp
next
  case False
  then show ?thesis
    using hex_pair_upper[of c] hex_digit_upper[of "byte c div 16"] byte_less[of c] by (auto simp: qp_byte_def)
qed

lemma qp_decode_bytes: "qp_decode (concat (map qp_byte cs) @ x) = cs @ qp_decode x"
  by (induction cs) (simp_all add: qp_decode_byte)

text \<open>What the code makes of line endings.\<close>

definition canonical_lines :: "bytes \<Rightarrow> bytes" where
  "canonical_lines s = concat (map (\<lambda>c. if c = LF then CRLF else if c = CR then [] else [c]) s)"

lemma qp_decode_encode: "qp_decode (qp_encode_loop cs (concat (map qp_byte ds))) = ds @ canonical_lines cs"
proof (induction cs arbitrary: ds)
  case Nil
  then show ?case using qp_decode_bytes[of ds "[]"] by (simp add: canonical_lines_def)
next
  case (Cons c cs)
  have IH: "qp_decode (qp_encode_loop cs (concat (map qp_byte ds) @ qp_byte c)) = ds @ c # canonical_lines cs"
    using Cons.IH[of "ds @ [c]"] by simp
  show ?case
    using Cons.IH[of "[]"] Cons.IH[of ds] Cons.IH[of "[c]"] IH
    by (simp add: canonical_lines_def qp_decode_bytes skip_one_def)
qed

lemma qp_byte_props: "length (qp_byte c) \<le> 3 \<and> LF \<notin> set (qp_byte c)"
proof -
  have "byte c div 16 < 16" using byte_less[of c] by simp
  moreover have "byte LF = 10" by (simp add: byte_def)
  ultimately show ?thesis
    using hex_digit_upper[of "byte c div 16"] hex_digit_upper[of "byte c mod 16"] by (auto simp: qp_byte_def)
qed

lemma qp_lines_short:
  "LF \<notin> set line \<Longrightarrow> length line \<le> 73 \<Longrightarrow> l \<in> set (split_lines (qp_encode_loop cs line)) \<Longrightarrow> length l \<le> 74"
proof (induction cs arbitrary: line)
  case Nil
  then show ?case by (auto simp: split_lines_one split: if_splits)
next
  case (Cons c cs)
  note b = qp_byte_props[of c]
  consider "c = LF" | "c = CR" | "c \<noteq> LF" "c \<noteq> CR" "73 < length line + length (qp_byte c)"
    | "c \<noteq> LF" "c \<noteq> CR" "length line + length (qp_byte c) \<le> 73" by linarith
  then show ?case
  proof cases
    case 3
    have "split_lines (line @ CHR ''='' # CR # LF # t) = (line @ ''='') # split_lines t" for t
      using split_lines_line[of "line @ ''=''" t] Cons.prems(1) by simp
    then show ?thesis using Cons.IH[of "qp_byte c"] Cons.prems 3 b by auto
  next
    case 4
    then show ?thesis using Cons.IH[of "line @ qp_byte c"] Cons.prems b by auto
  qed (use Cons.IH[of "[]"] Cons.IH[of line] Cons.prems in auto)
qed

section \<open>Panics\<close>

lemma hrefs_at_end: "find_sub ''href'' (to_lower html) = Some (length html - 4) \<Longrightarrow> extract_hrefs html = None"
proof -
  assume f: "find_sub ''href'' (to_lower html) = Some (length html - 4)"
  then have "starts_with ''href'' (drop (length html - 4) (to_lower html))" using find_sub_starts by blast
  then have "length ''href'' \<le> length (drop (length html - 4) (to_lower html))"
    unfolding starts_with_iff by (metis append_eq_conv_conj length_append le_add1)
  then have "length html - 4 + 4 = length html" by simp
  then have "hrefs_loop html (length html - 4 + 4 + 1) links = None" for links
    by (subst hrefs_loop.simps) simp
  then show ?thesis using f unfolding extract_hrefs_def by (subst hrefs_loop.simps) (simp add: Let_def)
qed

text \<open>An unclosed tag before the closing one makes the slice of the label run backwards.\<close>

lemma label_slice_panics: "original_unsub_label (''<a href='' @ [DQ] @ ''http://m/unsubscribe</a>'') = None"
  by (simp add: original_unsub_label_def unsub_label_loop.simps) code_simp

lemma no_word_start: "CHR ''?'' \<notin> set t \<Longrightarrow> last t \<noteq> CHR ''='' \<Longrightarrow> find_sub ''=?'' (t @ ''?='') = None"
proof (induction t)
  case (Cons c t)
  then have "\<not> starts_with ''=?'' (c # t @ ''?='')" by (cases t) (auto simp: starts_with_def)
  moreover have "find_sub ''=?'' (t @ ''?='') = None"
    using Cons by (cases t) (auto simp: starts_with_def)
  ultimately show ?case by simp
qed (simp add: starts_with_def)

section \<open>Properties\<close>

text \<open>The quoted-printable encoder is undone by the decoder, up to line endings, which become CRLF, and
  its lines are at most 74 characters long.\<close>

theorem qp_encode_spec:
  "qp_decode (encode_quoted_printable s) = canonical_lines s
    \<and> list_all (\<lambda>l. length l \<le> 74) (split_lines (encode_quoted_printable s))"
  using qp_decode_encode[of s "[]"] qp_lines_short[of "[]"] by (auto simp: encode_quoted_printable_def list_all_iff)

text \<open>Content rotation panics on mail from outside: when the decoded HTML of a message has its first
  \<^verbatim>\<open>href\<close> as its last four characters, applying any template slices past the end of the text.\<close>

theorem href_at_end_panics:
  assumes "extract_html b64d bs = Some html" "find_sub ''href'' (to_lower html) = Some (length html - 4)"
  shows "apply_template b64d b64e nonce t bs (m, notes) = None"
  using hrefs_at_end[OF assms(2)] assms(1) by (simp add: apply_template_def extract_tracking_def or_empty_def)

theorem href_at_end_panics_witness:
  "\<forall>t m notes. apply_template (\<lambda>s. if s = ''PHA+aHJlZg=='' then Some ''<p>href'' else None) (\<lambda>b. b) ''00'' t
     (''Content-Type: text/html'' @ CRLF @ ''Content-Transfer-Encoding: base64'' @ CRLF @ CRLF @ ''PHA+aHJlZg=='' @ CRLF)
     (m, notes) = None"
proof (intro allI, rule href_at_end_panics[where html = "''<p>href''"])
  show "extract_html (\<lambda>s. if s = ''PHA+aHJlZg=='' then Some ''<p>href'' else None)
     (''Content-Type: text/html'' @ CRLF @ ''Content-Transfer-Encoding: base64'' @ CRLF @ CRLF @ ''PHA+aHJlZg=='' @ CRLF)
     = Some ''<p>href''" by code_simp
  show "find_sub ''href'' (to_lower ''<p>href'') = Some (length ''<p>href'' - 4)" by code_simp
qed

text \<open>An encoded word whose text starts with an escape is never decoded: its end is searched for before
  its separators are, and the end found is the separator before the escape.\<close>

theorem escaped_start_undecoded:
  assumes "CHR ''?'' \<notin> set t" "t \<noteq> []" "last t \<noteq> CHR ''=''"
  shows "decode_encoded_words b64d (''=?UTF-8?Q?='' @ t @ ''?='') = ''=?UTF-8?Q?='' @ t @ ''?=''"
proof -
  let ?rest = "''UTF-8?Q?='' @ t @ ''?=''"
  have "find_sub ''?='' ?rest = Some 7" by (simp add: starts_with_def eval_nat_numeral)
  then have "parse_encoded_word b64d (''=?'' @ ?rest) = None"
    by (simp add: parse_encoded_word_def strip_prefix_def starts_with_def)
  moreover have "find_sub ''=?'' (t @ ''?='') = None" using assms(1,3) by (rule no_word_start)
  then have "find_sub ''=?'' ?rest = None" using assms by (cases t) (auto simp: starts_with_def)
  then have last_step: "decode_words b64d ''=?'' False ?rest = ''=?'' @ ?rest"
    by (subst decode_words.simps) (simp only: option.case)
  have "find_sub ''=?'' (''=?'' @ ?rest) = Some 0" by (simp add: starts_with_def)
  ultimately have "decode_words b64d [] False (''=?'' @ ?rest) = decode_words b64d ''=?'' False ?rest"
    by (subst decode_words.simps) simp
  then show ?thesis using last_step
    by (simp add: decode_encoded_words_def str_contains_def starts_with_def)
qed

theorem escaped_start_undecoded_witness:
  "decode_encoded_words (\<lambda>_. None) ''=?UTF-8?Q?=C3=89t=C3=A9?='' = ''=?UTF-8?Q?=C3=89t=C3=A9?=''"
  using escaped_start_undecoded[of "''C3=89t=C3=A9''" "\<lambda>_. None"] by simp

end
