(* ===== verification/Rewrite.thy ===== *)
theory Rewrite
  imports Rotation
begin

text \<open>The rewriting of a message for the relay that will carry it (src/message/rewrite.rs): the stages of
  \<^verbatim>\<open>rewrite\<close> in their order, each a function of the message and the notes so far. The two calls
  of the clock are the arguments \<open>date\<close> and \<open>received_date\<close>; the result is \<open>None\<close> when content rotation
  panics.\<close>

section \<open>Printing addresses\<close>

fun hex_str :: "nat \<Rightarrow> str" where
  "hex_str n = (if n < 16 then [hex_digit_char n] else hex_str (n div 16) @ [hex_digit_char (n mod 16)])"

declare hex_str.simps [simp del]

fun segments_of :: "u8 list \<Rightarrow> nat list" where
  "segments_of (a # b # rest) = (256 * unat a + unat b) # segments_of rest"
| "segments_of _ = []"

text \<open>The first longest run of zero segments, as its start and length.\<close>

fun longest_zeros :: "nat list \<Rightarrow> nat \<Rightarrow> nat \<times> nat \<Rightarrow> nat \<times> nat \<Rightarrow> nat \<times> nat" where
  "longest_zeros [] n current longest = longest"
| "longest_zeros (x # xs) n current longest =
     (if x = 0
      then let current = (if snd current = 0 then n else fst current, snd current + 1)
           in longest_zeros xs (n + 1) current (if snd longest < snd current then current else longest)
      else longest_zeros xs (n + 1) (0, 0) longest)"

definition ipv4_str :: "u8 list \<Rightarrow> str" where
  "ipv4_str os = join ''.'' (map (\<lambda>x. dec (unat x)) os)"

fun ip_str :: "ip_addr \<Rightarrow> str" where
  "ip_str (V4 os) = ipv4_str os"
| "ip_str (V6 os) =
     (case to_ipv4_mapped os of
        Some v4 \<Rightarrow> ''::ffff:'' @ ipv4_str v4
      | None \<Rightarrow>
          let segs = segments_of os; (start, len) = longest_zeros segs 0 (0, 0) (0, 0)
          in if 1 < len
             then join '':'' (map hex_str (take start segs)) @ ''::'' @ join '':'' (map hex_str (drop (start + len) segs))
             else join '':'' (map hex_str segs))"

section \<open>Context and result\<close>

definition SIGNATURE_HEADERS :: "str list" where
  "SIGNATURE_HEADERS = [''DKIM-Signature'', ''DomainKey-Signature'', ''X-Google-DKIM-Signature'']"

definition ARC_HEADERS :: "str list" where
  "ARC_HEADERS = [''Authentication-Results'', ''X-Original-Authentication-Results'']"

record rewrite_context =
  cx_rewrite :: rewrite_config
  cx_relay :: relay_config
  cx_hostname :: str
  cx_queue_id :: str
  cx_client_ip :: "ip_addr option"
  cx_helo :: str
  cx_sender :: str
  cx_rotation :: "content_template option"

record rewritten =
  rw_raw :: bytes
  rw_envelope_from :: str
  rw_original_from :: "mailbox option"
  rw_from_header :: str
  rw_reply_to :: "str option"
  rw_subject :: "str option"
  rw_message_id :: "str option"
  rw_notes :: "str list"

definition non_blank :: "str option \<Rightarrow> str option" where
  "non_blank v = (case v of Some s \<Rightarrow> if trim s = [] then None else v | None \<Rightarrow> None)"

definition noted :: "str \<Rightarrow> mail \<times> str list \<Rightarrow> mail \<times> str list" where
  "noted s st = (fst st, snd st @ [s])"

definition edit :: "(mail \<Rightarrow> mail) \<Rightarrow> mail \<times> str list \<Rightarrow> mail \<times> str list" where
  "edit f st = (f (fst st), snd st)"

definition show_mailbox :: "(bytes \<Rightarrow> str) \<Rightarrow> mailbox \<Rightarrow> str" where
  "show_mailbox b64e mb = format_mailbox b64e (display_name mb) (mb_address mb)"

definition angle :: "str \<Rightarrow> str" where
  "angle s = ''<'' @ s @ ''>''"

section \<open>The stages\<close>

definition reply_to_stage ::
  "(bytes \<Rightarrow> str) \<Rightarrow> rewrite_context \<Rightarrow> mailbox option \<Rightarrow> mail \<times> str list \<Rightarrow> str option \<times> (mail \<times> str list)" where
  "reply_to_stage b64e cx original st =
     (let reply_to = non_blank (header_value ''reply-to'' (fst st))
      in if reply_to = None \<and> inject_reply_to (cx_rewrite cx)
         then let candidate = (case original of
                    Some mb \<Rightarrow> if looks_like_email (mb_address mb) then Some (show_mailbox b64e mb)
                               else map_option angle (reply_to_fallback (cx_rewrite cx))
                  | None \<Rightarrow> map_option angle (reply_to_fallback (cx_rewrite cx)))
              in case candidate of
                   Some value \<Rightarrow> (Some value, noted (''injected Reply-To '' @ value) (edit (set_header ''Reply-To'' value) st))
                 | None \<Rightarrow> (None, st)
         else if reply_to \<noteq> None then (reply_to, noted ''kept existing Reply-To'' st)
         else (reply_to, st))"

definition from_stage ::
  "(bytes \<Rightarrow> str) \<Rightarrow> rewrite_context \<Rightarrow> str option \<Rightarrow> mailbox option \<Rightarrow> mail \<times> str list \<Rightarrow> str \<times> (mail \<times> str list)" where
  "from_stage b64e cx original_raw original st =
     (let identity = effective_from_address (cx_relay cx);
          display = (if preserve_display_name (cx_rewrite cx)
                     then (case original of Some mb \<Rightarrow> display_name mb | None \<Rightarrow> []) else [])
      in if identity \<noteq> [] \<and> rewrite_from (cx_rewrite cx)
         then let rewritten = format_mailbox b64e display identity;
                  st = edit (set_header ''From'' rewritten) st
              in (rewritten,
                  noted (case original of
                      Some mb \<Rightarrow> if mb_address mb \<noteq> identity
                                 then ''rewrote From '' @ mb_address mb @ '' -> '' @ identity
                                 else ''From already matched relay identity''
                    | None \<Rightarrow> ''synthesised From '' @ identity) st)
         else if identity = [] then (or_empty original_raw, noted ''kept original From (dynamic pass-through)'' st)
         else (or_empty original_raw, st))"

definition envelope_stage :: "rewrite_context \<Rightarrow> mailbox option \<Rightarrow> mail \<times> str list \<Rightarrow> str \<times> (mail \<times> str list)" where
  "envelope_stage cx original st =
     (let identity = effective_from_address (cx_relay cx);
          align = rewrite_from (cx_rewrite cx) \<and> (align_envelope (cx_relay cx) \<or> from_same_as_username (cx_relay cx))
      in if identity \<noteq> [] \<and> align then (identity, noted (''aligned MAIL FROM to '' @ identity) st)
         else if cx_sender cx \<noteq> [] \<and> looks_like_email (cx_sender cx) then (cx_sender cx, st)
         else case original of
             Some mb \<Rightarrow> (mb_address mb, st)
           | None \<Rightarrow> if identity \<noteq> [] then (identity, st) else (''noreply@'' @ cx_hostname cx, st))"

definition follow_identity :: "str \<Rightarrow> str \<Rightarrow> str \<Rightarrow> str \<Rightarrow> mail \<times> str list \<Rightarrow> mail \<times> str list" where
  "follow_identity look name value identity st =
     (if has_header look (fst st)
      then noted (''rewrote '' @ name @ '' to '' @ identity) (edit (set_header name value) st) else st)"

definition identity_stage :: "rewrite_context \<Rightarrow> mail \<times> str list \<Rightarrow> mail \<times> str list" where
  "identity_stage cx st =
     (let identity = effective_from_address (cx_relay cx)
      in if identity \<noteq> [] \<and> rewrite_from (cx_rewrite cx)
         then follow_identity ''x-sender'' ''X-Sender'' identity identity
                (follow_identity ''return-path'' ''Return-Path'' (angle identity) identity
                  (follow_identity ''sender'' ''Sender'' (angle identity) identity st))
         else st)"

fun remove_names :: "str list \<Rightarrow> nat \<times> mail \<Rightarrow> nat \<times> mail" where
  "remove_names [] (n, m) = (n, m)"
| "remove_names (name # names) (n, m) = (let (k, m) = remove_all name m in remove_names names (n + k, m))"

definition signature_stage :: "rewrite_context \<Rightarrow> mail \<times> str list \<Rightarrow> mail \<times> str list" where
  "signature_stage cx st =
     (let (m, notes) = st;
          (m, notes) = (if strip_dkim (cx_rewrite cx)
            then let (n, m) = remove_names SIGNATURE_HEADERS (0, m)
                 in (m, if 0 < n then notes @ [''stripped '' @ dec n @ '' inherited signature header(s)''] else notes)
            else (m, notes))
      in if strip_arc (cx_rewrite cx)
         then let (n, m) = remove_names ARC_HEADERS (remove_prefix ''arc-'' m)
              in (m, if 0 < n then notes @ [''stripped '' @ dec n @ '' ARC/authentication header(s)''] else notes)
         else (m, notes))"

fun remove_configured :: "str list \<Rightarrow> mail \<times> str list \<Rightarrow> mail \<times> str list" where
  "remove_configured [] st = st"
| "remove_configured (name # names) (m, notes) =
     (let (n, m) = remove_all name m
      in remove_configured names (m, if 0 < n then notes @ [''removed '' @ name] else notes))"

definition privacy_stage :: "rewrite_context \<Rightarrow> mail \<times> str list \<Rightarrow> mail \<times> str list" where
  "privacy_stage cx st =
     (let (m, notes) = st;
          (m, notes) = (if strip_bcc_header (cx_rewrite cx)
            then let (n, m) = remove_all ''Bcc'' m
                 in (m, if 0 < n then notes @ [''stripped Bcc header (envelope recipients unchanged)''] else notes)
            else (m, notes));
          (m, notes) = (if strip_received (cx_rewrite cx)
            then let (n, m) = remove_all ''Received'' m
                 in (m, if 0 < n then notes @ [''stripped '' @ dec n @ '' inbound Received header(s)''] else notes)
            else (m, notes))
      in remove_configured (remove_headers (cx_rewrite cx)) (m, notes))"

definition date_stage :: "rewrite_context \<Rightarrow> str \<Rightarrow> mail \<times> str list \<Rightarrow> mail \<times> str list" where
  "date_stage cx date st =
     (if ensure_date (cx_rewrite cx) \<and> \<not> has_header ''date'' (fst st)
      then noted ''added missing Date'' (edit (set_header ''Date'' date) st) else st)"

definition message_id_domain :: "rewrite_context \<Rightarrow> mailbox option \<Rightarrow> str" where
  "message_id_domain cx original =
     (let identity = effective_from_address (cx_relay cx)
      in if identity \<noteq> [] then address_domain identity
         else case original of
           Some mb \<Rightarrow> address_domain (mb_address mb)
         | None \<Rightarrow> if looks_like_email (cx_sender cx) then address_domain (cx_sender cx) else cx_hostname cx)"

definition message_id_stage :: "rewrite_context \<Rightarrow> mailbox option \<Rightarrow> mail \<times> str list \<Rightarrow> str option \<times> (mail \<times> str list)" where
  "message_id_stage cx original st =
     (let message_id = non_blank (header_value ''message-id'' (fst st))
      in if ensure_message_id (cx_rewrite cx) \<and> message_id = None
         then let generated = angle (cx_queue_id cx @ ''@'' @ message_id_domain cx original)
              in (Some generated, noted (''added Message-ID '' @ generated) (edit (set_header ''Message-ID'' generated) st))
         else (message_id, st))"

definition mailer_stage :: "rewrite_context \<Rightarrow> mail \<times> str list \<Rightarrow> mail \<times> str list" where
  "mailer_stage cx st =
     (case x_mailer (cx_rewrite cx) of Some mailer \<Rightarrow> edit (set_header ''X-Mailer'' mailer) st | None \<Rightarrow> st)"

definition required_stage ::
  "rewrite_context \<Rightarrow> str \<Rightarrow> mailbox option \<Rightarrow> mail \<times> str list \<Rightarrow> str option \<times> (mail \<times> str list)" where
  "required_stage cx date original st =
     (let (message_id, st) = message_id_stage cx original (date_stage cx date st) in (message_id, mailer_stage cx st))"

definition diagnostics_stage :: "(bytes \<Rightarrow> str) \<Rightarrow> rewrite_context \<Rightarrow> mailbox option \<Rightarrow> mail \<Rightarrow> mail" where
  "diagnostics_stage b64e cx original m =
     (if add_relay_headers (cx_rewrite cx)
      then let m = append_header ''X-Relay-Node'' (r_id (cx_relay cx)) m;
               m = append_header ''X-Relay-Queue-Id'' (cx_queue_id cx) m;
               m = (case original of Some mb \<Rightarrow> append_header ''X-Original-From'' (show_mailbox b64e mb) m | None \<Rightarrow> m)
           in if cx_sender cx \<noteq> [] then append_header ''X-Original-Envelope-From'' (cx_sender cx) m else m
      else m)"

fun extra_stage :: "header_rule list \<Rightarrow> mail \<Rightarrow> mail" where
  "extra_stage [] m = m"
| "extra_stage (rule # rules) m =
     extra_stage rules (if trim (hr_name rule) = [] then m else set_header (hr_name rule) (hr_value rule) m)"

definition received_stage :: "rewrite_context \<Rightarrow> str \<Rightarrow> mail \<Rightarrow> mail" where
  "received_stage cx date m =
     (if add_received_header (cx_rewrite cx)
      then let helo = (if cx_helo cx = [] then ''unknown'' else cx_helo cx);
               source = (case cx_client_ip cx of
                   Some ip \<Rightarrow> helo @ '' (['' @ ip_str ip @ ''])''
                 | None \<Rightarrow> helo @ '' (local)'')
           in prepend_header ''Received'' (''from '' @ source @ CRLF @ [TAB] @ ''by '' @ cx_hostname cx
                @ '' (smtp-relay) with ESMTPA id '' @ cx_queue_id cx @ CRLF @ [TAB] @ ''for relay ''
                @ r_id (cx_relay cx) @ ''; '' @ date) m
      else m)"

text \<open>Everything before content rotation, with what the result reports.\<close>

definition rewrite_headers ::
  "(bytes \<Rightarrow> str) \<Rightarrow> str \<Rightarrow> str \<Rightarrow> rewrite_context \<Rightarrow> mail \<Rightarrow> rewritten \<times> (mail \<times> str list)" where
  "rewrite_headers b64e date received_date cx m =
     (let original_raw = header_value ''from'' m;
          original = Option.bind original_raw parse_mailbox;
          (reply_to, st) = reply_to_stage b64e cx original (m, []);
          (from_header, st) = from_stage b64e cx original_raw original st;
          (envelope, st) = envelope_stage cx original st;
          st = privacy_stage cx (signature_stage cx (identity_stage cx st));
          (message_id, st) = required_stage cx date original st;
          st = edit (received_stage cx received_date
                 \<circ> extra_stage (extra_headers (cx_rewrite cx)) \<circ> diagnostics_stage b64e cx original) st
      in (\<lparr>rw_raw = [], rw_envelope_from = envelope, rw_original_from = original, rw_from_header = from_header,
            rw_reply_to = reply_to, rw_subject = None, rw_message_id = message_id, rw_notes = []\<rparr>, st))"

definition rewrite_message ::
  "(str \<Rightarrow> bytes option) \<Rightarrow> (bytes \<Rightarrow> str) \<Rightarrow> str \<Rightarrow> str \<Rightarrow> str \<Rightarrow> rewrite_context \<Rightarrow> bytes
     \<Rightarrow> (message_error + rewritten) option" where
  "rewrite_message b64d b64e nonce date received_date cx bs =
     (case parse_mail_bytes bs of
        Inl e \<Rightarrow> Some (Inl e)
      | Inr m \<Rightarrow>
          let (result, st) = rewrite_headers b64e date received_date cx m
          in map_option
               (\<lambda>(m, notes). Inr (result\<lparr>rw_raw := to_bytes m,
                  rw_subject := map_option (decode_encoded_words b64d) (header_value ''subject'' m), rw_notes := notes\<rparr>))
               (case cx_rotation cx of
                  Some template \<Rightarrow> apply_template b64d b64e nonce template bs st
                | None \<Rightarrow> Some st))"

section \<open>What a stage leaves alone\<close>

text \<open>\<open>frame P m m'\<close>: the fields whose lowercased name satisfies \<open>P\<close> are the same in the same order, and
  the body is the same.\<close>

definition frame :: "(str \<Rightarrow> bool) \<Rightarrow> mail \<Rightarrow> mail \<Rightarrow> bool" where
  "frame P m m' = (filter (\<lambda>h. P (hlower h)) (headers m') = filter (\<lambda>h. P (hlower h)) (headers m)
     \<and> mail_body m' = mail_body m \<and> was_lf_only m' = was_lf_only m)"

lemma frame_refl [simp]: "frame P m m"
  by (simp add: frame_def)

lemma frame_trans: "frame P m m' \<Longrightarrow> frame P m' m'' \<Longrightarrow> frame P m m''"
  by (simp add: frame_def)

lemma position_of_Some:
  assumes "position_of needle hs = Some n"
  obtains pre h post where "hs = pre @ h # post" "n = length pre" "hlower h = needle" "\<forall>x\<in>set pre. hlower x \<noteq> needle"
proof -
  let ?pre = "takeWhile (\<lambda>h. hlower h \<noteq> needle) hs" and ?rest = "dropWhile (\<lambda>h. hlower h \<noteq> needle) hs"
  have n: "n = length ?pre" "n < length hs" using assms by (auto simp: position_of_def Let_def split: if_splits)
  then have "?rest \<noteq> []" by (metis append_Nil2 nat_neq_iff takeWhile_dropWhile_id)
  then obtain h post where r: "?rest = h # post" by (cases ?rest) auto
  have "hlower h = needle" using r by (auto simp: dropWhile_eq_Cons_conv)
  moreover have "hs = ?pre @ h # post" using r by (metis takeWhile_dropWhile_id)
  moreover have "\<forall>x\<in>set ?pre. hlower x \<noteq> needle" by (auto dest: set_takeWhileD)
  ultimately show ?thesis using that n(1) by blast
qed

lemma position_of_None: "position_of needle hs = None \<Longrightarrow> \<forall>h\<in>set hs. hlower h \<noteq> needle"
proof -
  have "h \<in> set hs \<Longrightarrow> hlower h = needle \<Longrightarrow> length (takeWhile (\<lambda>h. hlower h \<noteq> needle) hs) < length hs" for h
    by (induction hs) auto
  then show "position_of needle hs = None \<Longrightarrow> ?thesis" by (auto simp: position_of_def Let_def split: if_splits)
qed

lemma retain_first_other:
  "(\<And>h. P h \<Longrightarrow> hlower h \<noteq> needle) \<Longrightarrow> filter P (retain_first needle seen hs) = filter P hs"
  by (induction needle seen hs rule: retain_first.induct) auto

lemma retain_first_seen: "filter (\<lambda>h. hlower h = needle) (retain_first needle True hs) = []"
  by (induction hs) auto

lemma retain_first_same:
  "\<forall>x\<in>set pre. hlower x \<noteq> needle \<Longrightarrow> hlower h = needle \<Longrightarrow>
     filter (\<lambda>x. hlower x = needle) (retain_first needle False (pre @ h # post)) = [h]"
  by (induction pre) (auto simp: retain_first_seen)

lemma new_header_lower [simp]: "hlower (new_header name value) = to_lower name"
  by (simp add: new_header_def)

lemma set_header_same: "filter (\<lambda>h. hlower h = to_lower name) (headers (set_header name value m)) = [new_header name value]"
proof (cases "position_of (to_lower name) (headers m)")
  case None
  then show ?thesis using position_of_None[OF None] by (simp add: set_header_def Let_def)
next
  case (Some n)
  then obtain pre h post where "headers m = pre @ h # post" "n = length pre" "\<forall>x\<in>set pre. hlower x \<noteq> to_lower name"
    by (rule position_of_Some)
  then show ?thesis using Some by (simp add: set_header_def Let_def retain_first_same)
qed

lemma set_header_frame: "\<not> P (to_lower name) \<Longrightarrow> frame P m (set_header name value m)"
proof (cases "position_of (to_lower name) (headers m)")
  case None
  then show "\<not> P (to_lower name) \<Longrightarrow> ?thesis" by (simp add: set_header_def frame_def Let_def)
next
  case (Some n)
  assume P: "\<not> P (to_lower name)"
  obtain pre h post where "headers m = pre @ h # post" "n = length pre" "hlower h = to_lower name"
    using Some by (rule position_of_Some)
  moreover have "filter (\<lambda>h. P (hlower h)) (retain_first (to_lower name) False hs) = filter (\<lambda>h. P (hlower h)) hs" for hs
    using P by (intro retain_first_other) auto
  ultimately show ?thesis using Some P by (simp add: set_header_def frame_def Let_def)
qed

lemma remove_all_frame: "\<not> P (to_lower name) \<Longrightarrow> frame P m (snd (remove_all name m))"
  by (auto simp: remove_all_def frame_def Let_def intro!: filter_cong)

lemma remove_all_gone: "filter (\<lambda>h. hlower h = to_lower name) (headers (snd (remove_all name m))) = []"
  by (simp add: remove_all_def Let_def filter_empty_conv)

lemma remove_prefix_frame:
  "(\<And>n. starts_with (to_lower pre) n \<Longrightarrow> \<not> P n) \<Longrightarrow> frame P m (snd (remove_prefix pre m))"
  by (auto simp: remove_prefix_def frame_def Let_def intro!: filter_cong)

lemma append_header_frame: "\<not> P (to_lower name) \<Longrightarrow> frame P m (append_header name value m)"
  by (simp add: append_header_def frame_def)

lemma prepend_header_frame: "\<not> P (to_lower name) \<Longrightarrow> frame P m (prepend_header name value m)"
  by (simp add: prepend_header_def frame_def)

lemmas edit_frames = set_header_frame remove_all_frame append_header_frame prepend_header_frame

lemma remove_names_frame:
  "\<forall>name\<in>set names. \<not> P (to_lower name) \<Longrightarrow> frame P (snd nm) (snd (remove_names names nm))"
proof (induction names nm rule: remove_names.induct)
  case (2 name names n m)
  obtain k m1 where r: "remove_all name m = (k, m1)" by (cases "remove_all name m")
  have "frame P m m1" using remove_all_frame[of P name m] 2(2) r by simp
  then show ?case using 2 r frame_trans by (auto simp: split_beta)
qed simp

lemma remove_configured_frame:
  "\<forall>name\<in>set names. \<not> P (to_lower name) \<Longrightarrow> frame P (fst st) (fst (remove_configured names st))"
proof (induction names st rule: remove_configured.induct)
  case (2 name names m ns)
  obtain k m1 where r: "remove_all name m = (k, m1)" by (cases "remove_all name m")
  have "frame P m m1" using remove_all_frame[of P name m] 2(2) r by simp
  then show ?case using 2 r frame_trans by (auto simp: split_beta)
qed simp

lemma extra_stage_frame:
  "\<forall>r\<in>set rules. trim (hr_name r) \<noteq> [] \<longrightarrow> \<not> P (to_lower (hr_name r)) \<Longrightarrow> frame P m (extra_stage rules m)"
proof (induction rules m rule: extra_stage.induct)
  case (2 rule rules m)
  then show ?case using frame_trans[OF set_header_frame[of P "hr_name rule"]] by auto
qed simp

lemma frame_mono: "frame P m m' \<Longrightarrow> (\<And>n. Q n \<Longrightarrow> P n) \<Longrightarrow> frame Q m m'"
proof -
  assume f: "frame P m m'" and Q: "\<And>n. Q n \<Longrightarrow> P n"
  have "filter (\<lambda>h. Q (hlower h)) hs = filter (\<lambda>h. Q (hlower h)) (filter (\<lambda>h. P (hlower h)) hs)" for hs
    using Q by (induction hs) auto
  then show "frame Q m m'" using f unfolding frame_def by metis
qed

text \<open>The names that the configuration lets the stages touch: the first stages the reply address and the
  sender, the others the rest.\<close>

definition later_names :: "rewrite_context \<Rightarrow> str list" where
  "later_names cx =
     (let w = cx_rewrite cx
      in (if effective_from_address (cx_relay cx) \<noteq> [] \<and> rewrite_from w then [''Sender'', ''Return-Path'', ''X-Sender''] else [])
       @ (if strip_dkim w then SIGNATURE_HEADERS else [])
       @ (if strip_arc w then ARC_HEADERS else [])
       @ (if strip_bcc_header w then [''Bcc''] else [])
       @ (if strip_received w \<or> add_received_header w then [''Received''] else [])
       @ remove_headers w
       @ (if ensure_date w then [''Date''] else [])
       @ (if ensure_message_id w then [''Message-ID''] else [])
       @ (if x_mailer w \<noteq> None then [''X-Mailer''] else [])
       @ (if add_relay_headers w then [''X-Relay-Node'', ''X-Relay-Queue-Id'', ''X-Original-From'', ''X-Original-Envelope-From''] else [])
       @ map hr_name (filter (\<lambda>r. trim (hr_name r) \<noteq> []) (extra_headers w)))"

definition first_names :: "rewrite_context \<Rightarrow> str list" where
  "first_names cx =
     (if inject_reply_to (cx_rewrite cx) then [''Reply-To''] else [])
     @ (if effective_from_address (cx_relay cx) \<noteq> [] \<and> rewrite_from (cx_rewrite cx) then [''From''] else [])"

definition touched_by :: "str list \<Rightarrow> bool \<Rightarrow> str \<Rightarrow> bool" where
  "touched_by names arc n = (n \<in> set (map to_lower names) \<or> arc \<and> starts_with ''arc-'' n)"

definition touched :: "rewrite_context \<Rightarrow> str \<Rightarrow> bool" where
  "touched cx = touched_by (first_names cx @ later_names cx) (strip_arc (cx_rewrite cx))"

abbreviation kept :: "rewrite_context \<Rightarrow> mail \<Rightarrow> mail \<Rightarrow> bool" where
  "kept cx \<equiv> frame (\<lambda>n. \<not> touched_by (later_names cx) (strip_arc (cx_rewrite cx)) n)"

lemma touched_name: "name \<in> set names \<Longrightarrow> touched_by names arc (to_lower name)"
  by (simp add: touched_by_def)

lemma kept_by:
  "name \<in> set names \<Longrightarrow> frame (\<lambda>n. \<not> touched_by names arc n) m (set_header name v m)"
  "name \<in> set names \<Longrightarrow> frame (\<lambda>n. \<not> touched_by names arc n) m (snd (remove_all name m))"
  "name \<in> set names \<Longrightarrow> frame (\<lambda>n. \<not> touched_by names arc n) m (append_header name v m)"
  "name \<in> set names \<Longrightarrow> frame (\<lambda>n. \<not> touched_by names arc n) m (prepend_header name v m)"
  by (rule edit_frames, simp add: touched_name)+

lemma later_namesI:
  "effective_from_address (cx_relay cx) \<noteq> [] \<Longrightarrow> rewrite_from (cx_rewrite cx) \<Longrightarrow> ''Sender'' \<in> set (later_names cx)"
  "effective_from_address (cx_relay cx) \<noteq> [] \<Longrightarrow> rewrite_from (cx_rewrite cx) \<Longrightarrow> ''Return-Path'' \<in> set (later_names cx)"
  "effective_from_address (cx_relay cx) \<noteq> [] \<Longrightarrow> rewrite_from (cx_rewrite cx) \<Longrightarrow> ''X-Sender'' \<in> set (later_names cx)"
  "strip_bcc_header (cx_rewrite cx) \<Longrightarrow> ''Bcc'' \<in> set (later_names cx)"
  "strip_received (cx_rewrite cx) \<Longrightarrow> ''Received'' \<in> set (later_names cx)"
  "add_received_header (cx_rewrite cx) \<Longrightarrow> ''Received'' \<in> set (later_names cx)"
  "ensure_date (cx_rewrite cx) \<Longrightarrow> ''Date'' \<in> set (later_names cx)"
  "ensure_message_id (cx_rewrite cx) \<Longrightarrow> ''Message-ID'' \<in> set (later_names cx)"
  "x_mailer (cx_rewrite cx) \<noteq> None \<Longrightarrow> ''X-Mailer'' \<in> set (later_names cx)"
  "add_relay_headers (cx_rewrite cx) \<Longrightarrow> ''X-Relay-Node'' \<in> set (later_names cx)"
  "add_relay_headers (cx_rewrite cx) \<Longrightarrow> ''X-Relay-Queue-Id'' \<in> set (later_names cx)"
  "add_relay_headers (cx_rewrite cx) \<Longrightarrow> ''X-Original-From'' \<in> set (later_names cx)"
  "add_relay_headers (cx_rewrite cx) \<Longrightarrow> ''X-Original-Envelope-From'' \<in> set (later_names cx)"
  "strip_dkim (cx_rewrite cx) \<Longrightarrow> set SIGNATURE_HEADERS \<subseteq> set (later_names cx)"
  "strip_arc (cx_rewrite cx) \<Longrightarrow> set ARC_HEADERS \<subseteq> set (later_names cx)"
  "set (remove_headers (cx_rewrite cx)) \<subseteq> set (later_names cx)"
  by (simp_all only: later_names_def Let_def set_append set_simps if_True Un_iff insert_iff simp_thms subset_iff) blast+

lemmas kept_edits = kept_by[OF later_namesI(1)] kept_by[OF later_namesI(2)] kept_by[OF later_namesI(3)]
  kept_by[OF later_namesI(4)] kept_by[OF later_namesI(5)] kept_by[OF later_namesI(6)] kept_by[OF later_namesI(7)]
  kept_by[OF later_namesI(8)] kept_by[OF later_namesI(9)]

lemma stage_simps [simp]:
  "fst (noted s st) = fst st" "fst (edit f st) = f (fst st)"
  by (simp_all add: noted_def edit_def)

lemma lower_names:
  "to_lower ''From'' = ''from''" "to_lower ''Sender'' = ''sender''"
  "to_lower ''Return-Path'' = ''return-path''" "to_lower ''X-Sender'' = ''x-sender''" "to_lower ''Bcc'' = ''bcc''"
  "to_lower ''Received'' = ''received''" "to_lower ''Date'' = ''date''" "to_lower ''Message-ID'' = ''message-id''"
  "to_lower ''X-Mailer'' = ''x-mailer''" "to_lower ''X-Relay-Node'' = ''x-relay-node''"
  "to_lower ''X-Relay-Queue-Id'' = ''x-relay-queue-id''" "to_lower ''X-Original-From'' = ''x-original-from''"
  "to_lower ''X-Original-Envelope-From'' = ''x-original-envelope-from''"
  "map to_lower SIGNATURE_HEADERS = [''dkim-signature'', ''domainkey-signature'', ''x-google-dkim-signature'']"
  "map to_lower ARC_HEADERS = [''authentication-results'', ''x-original-authentication-results'']"
  by code_simp+

lemma from_untouched:
  assumes "\<forall>name\<in>set (remove_headers (cx_rewrite cx)). to_lower name \<noteq> ''from''"
    and "\<forall>r\<in>set (extra_headers (cx_rewrite cx)). to_lower (hr_name r) \<noteq> ''from''"
  shows "\<not> touched_by (later_names cx) arc ''from''"
proof -
  have "''from'' \<notin> set (map to_lower (remove_headers (cx_rewrite cx)))"
    "''from'' \<notin> set (map to_lower (map hr_name (filter (\<lambda>r. trim (hr_name r) \<noteq> []) (extra_headers (cx_rewrite cx)))))"
    using assms by force+
  then show ?thesis
    by (simp add: touched_by_def later_names_def Let_def lower_names starts_with_def del: set_map)
qed

abbreviation kept_all :: "rewrite_context \<Rightarrow> mail \<Rightarrow> mail \<Rightarrow> bool" where
  "kept_all cx \<equiv> frame (\<lambda>n. \<not> touched cx n)"

lemma kept_kept_all: "kept cx m m' \<Longrightarrow> kept_all cx m m'"
  by (erule frame_mono) (auto simp: touched_def touched_by_def)

lemma reply_to_kept: "kept_all cx (fst st) (fst (snd (reply_to_stage b64e cx original st)))"
proof -
  have "kept_all cx m (set_header ''Reply-To'' v m)" if "inject_reply_to (cx_rewrite cx)" for m v
    unfolding touched_def using that by (intro kept_by(1)) (simp add: first_names_def)
  then show ?thesis by (simp add: reply_to_stage_def Let_def split: option.splits)
qed

lemma from_kept: "kept_all cx (fst st) (fst (snd (from_stage b64e cx original_raw original st)))"
proof -
  have "kept_all cx m (set_header ''From'' v m)"
    if "effective_from_address (cx_relay cx) \<noteq> []" "rewrite_from (cx_rewrite cx)" for m v
    unfolding touched_def using that by (intro kept_by(1)) (simp add: first_names_def)
  then show ?thesis by (simp add: from_stage_def Let_def)
qed

lemma envelope_kept: "fst (snd (envelope_stage cx original st)) = fst st"
  by (simp add: envelope_stage_def Let_def split: option.splits)

lemma follow_kept:
  "(\<And>m. kept cx m (set_header name value m)) \<Longrightarrow> kept cx (fst st) (fst (follow_identity look name value identity st))"
  by (simp add: follow_identity_def)

lemma identity_kept: "kept cx (fst st) (fst (identity_stage cx st))"
proof (cases "effective_from_address (cx_relay cx) \<noteq> [] \<and> rewrite_from (cx_rewrite cx)")
  case True
  note sets = kept_by(1)[OF later_namesI(1)] kept_by(1)[OF later_namesI(2)] kept_by(1)[OF later_namesI(3)]
  show ?thesis using True
    by (simp only: identity_stage_def Let_def if_True simp_thms)
      (intro frame_trans[OF frame_trans[OF follow_kept follow_kept] follow_kept]; rule sets; simp)
qed (auto simp: identity_stage_def Let_def)

lemma signature_kept: "kept cx (fst st) (fst (signature_stage cx st))"
proof -
  obtain m ns where st: "st = (m, ns)" by (cases st)
  define m1 where "m1 = (if strip_dkim (cx_rewrite cx) then snd (remove_names SIGNATURE_HEADERS (0, m)) else m)"
  define m2 where "m2 = (if strip_arc (cx_rewrite cx) then snd (remove_names ARC_HEADERS (remove_prefix ''arc-'' m1)) else m1)"
  have "kept cx m m1"
    unfolding m1_def using remove_names_frame[of SIGNATURE_HEADERS "\<lambda>n. \<not> touched_by (later_names cx) (strip_arc (cx_rewrite cx)) n" "(0, m)"] later_namesI(14)[of cx] touched_name[of _ "later_names cx"]
    by auto
  moreover have "kept cx m1 m2"
  proof (cases "strip_arc (cx_rewrite cx)")
    case True
    have "kept cx m1 (snd (remove_prefix ''arc-'' m1))"
      using True by (intro remove_prefix_frame) (simp add: touched_by_def to_lower_def ascii_lower_def byte_def)
    moreover have "kept cx (snd (remove_prefix ''arc-'' m1)) m2"
      using True remove_names_frame[of ARC_HEADERS "\<lambda>n. \<not> touched_by (later_names cx) (strip_arc (cx_rewrite cx)) n" "remove_prefix ''arc-'' m1"]
        later_namesI(15)[OF True] touched_name[of _ "later_names cx"] by (auto simp: m2_def)
    ultimately show ?thesis by (rule frame_trans)
  qed (simp add: m2_def)
  moreover have "fst (signature_stage cx st) = m2"
    by (simp add: signature_stage_def st m1_def m2_def split_beta)
  ultimately show ?thesis using st frame_trans by auto
qed

lemma privacy_kept: "kept cx (fst st) (fst (privacy_stage cx st))"
proof -
  obtain m ns where st: "st = (m, ns)" by (cases st)
  define m1 where "m1 = (if strip_bcc_header (cx_rewrite cx) then snd (remove_all ''Bcc'' m) else m)"
  define m2 where "m2 = (if strip_received (cx_rewrite cx) then snd (remove_all ''Received'' m1) else m1)"
  have "kept cx m m1"
    by (simp add: m1_def kept_edits)
  moreover have "kept cx m1 m2"
    by (simp add: m2_def kept_edits)
  moreover have "\<exists>ns'. fst (privacy_stage cx st) = fst (remove_configured (remove_headers (cx_rewrite cx)) (m2, ns'))"
    by (auto simp: privacy_stage_def st m1_def m2_def split_beta)
  moreover have "kept cx m2 (fst (remove_configured (remove_headers (cx_rewrite cx)) (m2, ns')))" for ns'
    using remove_configured_frame[of "remove_headers (cx_rewrite cx)" "\<lambda>n. \<not> touched_by (later_names cx) (strip_arc (cx_rewrite cx)) n" "(m2, ns')"]
      later_namesI(16)[of cx] touched_name[of _ "later_names cx"] by auto
  ultimately show ?thesis using st frame_trans by (metis fst_conv)
qed

lemma required_kept: "kept cx (fst st) (fst (snd (required_stage cx date original st)))"
proof -
  have 1: "kept cx (fst st) (fst (date_stage cx date st))" for st by (simp add: date_stage_def kept_edits)
  have 2: "kept cx (fst st) (fst (snd (message_id_stage cx original st)))" for st
    by (simp add: message_id_stage_def Let_def kept_edits)
  have 3: "kept cx (fst st) (fst (mailer_stage cx st))" for st
    by (simp add: mailer_stage_def kept_edits split: option.splits)
  show ?thesis
    unfolding required_stage_def split_beta Let_def snd_conv by (blast intro: frame_trans 1 2 3)
qed

lemma diagnostics_kept: "kept cx m (diagnostics_stage b64e cx original m)"
proof (cases "add_relay_headers (cx_rewrite cx)")
  case True
  note names = later_namesI(10-13)[OF True]
  have add: "kept cx m0 (append_header name v m1)" if "kept cx m0 m1" "name \<in> set (later_names cx)" for m0 m1 name v
    using that(1) kept_by(3)[OF that(2)] by (rule frame_trans)
  show ?thesis using True names
    by (simp add: diagnostics_stage_def Let_def add split: option.splits)
qed (simp add: diagnostics_stage_def)

lemma received_kept: "kept cx m (received_stage cx date m)"
  by (simp add: received_stage_def Let_def kept_edits)

text \<open>The stages after the sender's.\<close>

definition later_stages ::
  "(bytes \<Rightarrow> str) \<Rightarrow> str \<Rightarrow> str \<Rightarrow> rewrite_context \<Rightarrow> mailbox option \<Rightarrow> mail \<times> str list \<Rightarrow> mail" where
  "later_stages b64e date received_date cx original st =
     received_stage cx received_date (extra_stage (extra_headers (cx_rewrite cx)) (diagnostics_stage b64e cx original
       (fst (snd (required_stage cx date original (privacy_stage cx (signature_stage cx (identity_stage cx st))))))))"

lemma later_kept: "kept cx (fst st) (later_stages b64e date received_date cx original st)"
proof -
  let ?s4 = "privacy_stage cx (signature_stage cx (identity_stage cx st))"
  let ?m5 = "fst (snd (required_stage cx date original ?s4))"
  have "kept cx (fst st) (fst ?s4)" by (blast intro: frame_trans identity_kept signature_kept privacy_kept)
  moreover have "kept cx (fst ?s4) ?m5" by (rule required_kept)
  moreover have "kept cx ?m5 (extra_stage (extra_headers (cx_rewrite cx)) (diagnostics_stage b64e cx original ?m5))"
  proof (rule frame_trans[OF diagnostics_kept extra_stage_frame], intro ballI impI)
    fix r
    assume "r \<in> set (extra_headers (cx_rewrite cx))" "trim (hr_name r) \<noteq> []"
    then have "hr_name r \<in> set (map hr_name (filter (\<lambda>r. trim (hr_name r) \<noteq> []) (extra_headers (cx_rewrite cx))))" by simp
    then have "hr_name r \<in> set (later_names cx)" by (simp only: later_names_def Let_def set_append Un_iff simp_thms)
    then show "\<not> \<not> touched_by (later_names cx) (strip_arc (cx_rewrite cx)) (to_lower (hr_name r))"
      using touched_name by blast
  qed
  ultimately show ?thesis unfolding later_stages_def by (blast intro: frame_trans received_kept)
qed

lemma rewrite_headers_stages:
  fixes b64e cx m date received_date
  defines "original \<equiv> Option.bind (header_value ''from'' m) parse_mailbox"
  defines "s1 \<equiv> snd (reply_to_stage b64e cx original (m, []))"
  defines "s2 \<equiv> from_stage b64e cx (header_value ''from'' m) original s1"
  defines "s3 \<equiv> envelope_stage cx original (snd s2)"
  shows "fst (snd (rewrite_headers b64e date received_date cx m)) = later_stages b64e date received_date cx original (snd s3)"
    "rw_envelope_from (fst (rewrite_headers b64e date received_date cx m)) = fst s3"
    "rw_from_header (fst (rewrite_headers b64e date received_date cx m)) = fst s2"
  by (simp_all add: rewrite_headers_def later_stages_def s1_def s2_def s3_def original_def Let_def split_beta)

lemma rewrite_headers_kept: "kept_all cx m (fst (snd (rewrite_headers b64e date received_date cx m)))"
proof -
  let ?orig = "Option.bind (header_value ''from'' m) parse_mailbox"
  let ?s1 = "snd (reply_to_stage b64e cx ?orig (m, []))"
  let ?s2 = "snd (from_stage b64e cx (header_value ''from'' m) ?orig ?s1)"
  let ?s3 = "snd (envelope_stage cx ?orig ?s2)"
  have "kept_all cx m (fst ?s1)" using reply_to_kept[of cx "(m, [])" b64e ?orig] by simp
  moreover have "kept_all cx (fst ?s1) (fst ?s2)" by (rule from_kept)
  moreover have "kept_all cx (fst ?s3) (later_stages b64e date received_date cx ?orig ?s3)"
    by (rule kept_kept_all[OF later_kept])
  ultimately show ?thesis unfolding rewrite_headers_stages envelope_kept by (blast intro: frame_trans)
qed

section \<open>Properties\<close>



definition sample_context :: rewrite_context where
  "sample_context = \<lparr>cx_rewrite = default_rewrite, cx_relay = default_relay\<lparr>from_address := ''no@d.c''\<rparr>,
     cx_hostname = ''h'', cx_queue_id = ''q1'', cx_client_ip = None, cx_helo = ''c'', cx_sender = ''a@b.c'',
     cx_rotation = None\<rparr>"

lemma sample_identity: "effective_from_address (cx_relay sample_context) = ''no@d.c''"
  by (simp add: sample_context_def effective_from_address_def default_relay_def) code_simp

lemma sample_touched:
  "touched sample_context (to_lower ''From'')" "\<not> touched sample_context (to_lower ''subject'')"
  by code_simp+



end
