(* ===== verification/Metrics.thy ===== *)
theory Metrics
  imports Rotation Pool
begin

text \<open>The counters, the per-minute series, the latency histogram and the activity log (src/metrics.rs).
  Counters are 64 bit and wrap around. With a log directory the activity log is the list of all records
  ever written, of which the last of an id counts, as the live cache and the files agree on it; without
  one it is the bounded buffer. Times of records are milliseconds, minutes are seconds at their start.\<close>

definition SERIES_MINUTES :: nat where "SERIES_MINUTES = 120"
definition ACTIVITY_CAPACITY :: nat where "ACTIVITY_CAPACITY = 1000"

definition LATENCY_BUCKETS_MS :: "nat list" where
  "LATENCY_BUCKETS_MS = [50, 100, 250, 500, 1000, 2500, 5000, 10000, 30000]"

section \<open>Counters\<close>

record counters =
  connections_total :: u64
  connections_active :: u64
  connections_rejected :: u64
  sessions_timed_out :: u64
  messages_received :: u64
  messages_delivered :: u64
  messages_failed :: u64
  messages_deferred :: u64
  messages_dead :: u64
  messages_rejected :: u64
  recipients_total :: u64
  bytes_received :: u64
  bytes_delivered :: u64
  auth_success :: u64
  auth_failure :: u64
  queue_enqueued :: u64
  queue_retries :: u64
  routing_no_relay_available :: u64
  rewrite_errors :: u64
  validation_passed :: u64
  validation_skipped :: u64

definition no_counts :: counters where
  "no_counts = \<lparr>connections_total = 0, connections_active = 0, connections_rejected = 0, sessions_timed_out = 0,
     messages_received = 0, messages_delivered = 0, messages_failed = 0, messages_deferred = 0, messages_dead = 0,
     messages_rejected = 0, recipients_total = 0, bytes_received = 0, bytes_delivered = 0, auth_success = 0,
     auth_failure = 0, queue_enqueued = 0, queue_retries = 0, routing_no_relay_available = 0, rewrite_errors = 0,
     validation_passed = 0, validation_skipped = 0\<rparr>"

definition connection_opened :: "counters \<Rightarrow> counters" where
  "connection_opened c = c\<lparr>connections_total := connections_total c + 1, connections_active := connections_active c + 1\<rparr>"

definition connection_closed :: "counters \<Rightarrow> counters" where
  "connection_closed c = c\<lparr>connections_active := sat_dec (connections_active c)\<rparr>"

section \<open>The series\<close>

record bucket =
  bk_minute :: int
  bk_received :: nat
  bk_delivered :: nat
  bk_failed :: nat
  bk_deferred :: nat

definition empty_bucket :: "int \<Rightarrow> bucket" where
  "empty_bucket m = \<lparr>bk_minute = m, bk_received = 0, bk_delivered = 0, bk_failed = 0, bk_deferred = 0\<rparr>"

datatype sample = Received | Delivered | Failed | Deferred

definition current_minute :: "int \<Rightarrow> int" where
  "current_minute seconds = seconds sdiv 60 * 60"

fun bump :: "sample \<Rightarrow> bucket \<Rightarrow> bucket" where
  "bump Received b = b\<lparr>bk_received := bk_received b + 1\<rparr>"
| "bump Delivered b = b\<lparr>bk_delivered := bk_delivered b + 1\<rparr>"
| "bump Failed b = b\<lparr>bk_failed := bk_failed b + 1\<rparr>"
| "bump Deferred b = b\<lparr>bk_deferred := bk_deferred b + 1\<rparr>"

definition record_sample :: "int \<Rightarrow> sample \<Rightarrow> bucket list \<Rightarrow> bucket list" where
  "record_sample seconds s bs =
     (let minute = current_minute seconds;
          bs = (if bs = [] \<or> bk_minute (last bs) \<noteq> minute
                then let bs = bs @ [empty_bucket minute] in drop (length bs - SERIES_MINUTES) bs else bs)
      in butlast bs @ [bump s (last bs)])"

text \<open>The zero-filled window: \<open>n\<close> more minutes from \<open>minute\<close> on, and the buckets not yet passed.\<close>

fun fill_window :: "nat \<Rightarrow> int \<Rightarrow> bucket list \<Rightarrow> bucket list" where
  "fill_window 0 minute bs = []"
| "fill_window (Suc n) minute bs =
     (case dropWhile (\<lambda>b. bk_minute b < minute) bs of
        b # rest \<Rightarrow> if bk_minute b = minute then b # fill_window n (minute + 60) rest
                    else empty_bucket minute # fill_window n (minute + 60) (b # rest)
      | [] \<Rightarrow> empty_bucket minute # fill_window n (minute + 60) [])"

definition series_snapshot :: "int \<Rightarrow> nat \<Rightarrow> bucket list \<Rightarrow> bucket list" where
  "series_snapshot seconds minutes bs =
     (let window = min (max minutes 1) SERIES_MINUTES
      in fill_window window (current_minute seconds - (int window - 1) * 60) bs)"

section \<open>Latency\<close>

record histogram =
  hi_buckets :: "u64 list"
  hi_overflow :: u64
  hi_sum :: u64
  hi_count :: u64

definition empty_histogram :: histogram where
  "empty_histogram = \<lparr>hi_buckets = replicate 9 0, hi_overflow = 0, hi_sum = 0, hi_count = 0\<rparr>"

definition observe :: "nat \<Rightarrow> histogram \<Rightarrow> histogram" where
  "observe millis h =
     (let h = h\<lparr>hi_sum := hi_sum h + of_nat millis, hi_count := hi_count h + 1\<rparr>;
          n = length (takeWhile (\<lambda>bound. bound < millis) LATENCY_BUCKETS_MS)
      in if n < length LATENCY_BUCKETS_MS
         then h\<lparr>hi_buckets := (hi_buckets h)[n := hi_buckets h ! n + 1]\<rparr>
         else h\<lparr>hi_overflow := hi_overflow h + 1\<rparr>)"

fun running :: "u64 \<Rightarrow> u64 list \<Rightarrow> u64 list" where
  "running acc [] = []"
| "running acc (x # xs) = (acc + x) # running (acc + x) xs"

text \<open>The cumulative counts by bound, the last for everything.\<close>

definition cumulative :: "histogram \<Rightarrow> u64 list" where
  "cumulative h = running 0 (hi_buckets h @ [hi_overflow h])"

definition average_ms :: "histogram \<Rightarrow> f64" where
  "average_ms h =
     (if hi_count h = 0 then Fin 0 else f64_div (u64_to_f64 (unat (hi_sum h))) (u64_to_f64 (unat (hi_count h))))"

text \<open>The bounds in seconds, with the three decimals they are printed with.\<close>

definition BOUND_LABELS :: "str list" where
  "BOUND_LABELS = [''0.050'', ''0.100'', ''0.250'', ''0.500'', ''1.000'', ''2.500'', ''5.000'', ''10.000'', ''30.000'', ''+Inf'']"

section \<open>The activity log\<close>

datatype message_status = StAccepted | StQueued | StSending | StDelivered | StDeferred | StFailed | StRejected

fun status_str :: "message_status \<Rightarrow> str" where
  "status_str StAccepted = ''accepted''"
| "status_str StQueued = ''queued''"
| "status_str StSending = ''sending''"
| "status_str StDelivered = ''delivered''"
| "status_str StDeferred = ''deferred''"
| "status_str StFailed = ''failed''"
| "status_str StRejected = ''rejected''"

record message_record =
  mr_id :: str
  mr_received_at :: int
  mr_updated_at :: int
  mr_status :: message_status
  mr_original_from :: str
  mr_from_header :: str
  mr_envelope_from :: str
  mr_reply_to :: "str option"
  mr_recipients :: "str list"
  mr_subject :: "str option"
  mr_size_bytes :: nat
  mr_relay_id :: "str option"
  mr_attempts :: nat
  mr_latency_ms :: "nat option"
  mr_error :: "str option"
  mr_client_ip :: "str option"
  mr_notes :: "str list"
  mr_skipped :: "str list"

definition new_record :: "int \<Rightarrow> str \<Rightarrow> message_record" where
  "new_record now i = \<lparr>mr_id = i, mr_received_at = now, mr_updated_at = now, mr_status = StAccepted,
     mr_original_from = [], mr_from_header = [], mr_envelope_from = [], mr_reply_to = None, mr_recipients = [],
     mr_subject = None, mr_size_bytes = 0, mr_relay_id = None, mr_attempts = 0, mr_latency_ms = None,
     mr_error = None, mr_client_ip = None, mr_notes = [], mr_skipped = []\<rparr>"

record activity =
  ac_on_disk :: bool
  ac_entries :: "message_record list"

definition push_record :: "message_record \<Rightarrow> activity \<Rightarrow> activity" where
  "push_record r a =
     (if ac_on_disk a then a\<lparr>ac_entries := ac_entries a @ [r]\<rparr>
      else a\<lparr>ac_entries := (if ACTIVITY_CAPACITY \<le> length (ac_entries a) then tl (ac_entries a) else ac_entries a) @ [r]\<rparr>)"

definition get_record :: "str \<Rightarrow> activity \<Rightarrow> message_record option" where
  "get_record i a = List.find (\<lambda>r. mr_id r = i) (rev (ac_entries a))"

fun update_first :: "('a \<Rightarrow> bool) \<Rightarrow> ('a \<Rightarrow> 'a) \<Rightarrow> 'a list \<Rightarrow> 'a list" where
  "update_first p f [] = []"
| "update_first p f (x # xs) = (if p x then f x # xs else x # update_first p f xs)"

definition update_record :: "int \<Rightarrow> str \<Rightarrow> (message_record \<Rightarrow> message_record) \<Rightarrow> activity \<Rightarrow> activity" where
  "update_record now i f a =
     (if ac_on_disk a
      then let r = (case get_record i a of Some r \<Rightarrow> r | None \<Rightarrow> new_record now i)
           in a\<lparr>ac_entries := ac_entries a @ [(f r)\<lparr>mr_updated_at := now\<rparr>]\<rparr>
      else a\<lparr>ac_entries := rev (update_first (\<lambda>r. mr_id r = i) (\<lambda>r. (f r)\<lparr>mr_updated_at := now\<rparr>) (rev (ac_entries a)))\<rparr>)"

definition search_hits :: "message_record \<Rightarrow> str option \<Rightarrow> bool" where
  "search_hits r search =
     (case (case search of Some s \<Rightarrow> if trim s = [] then None else Some (trim s) | None \<Rightarrow> None) of
        None \<Rightarrow> True
      | Some needle \<Rightarrow>
          let hit = (\<lambda>v. str_contains (to_lower v) (to_lower needle)); hit_opt = (\<lambda>v. case v of Some v \<Rightarrow> hit v | None \<Rightarrow> False)
          in hit (mr_id r) \<or> hit (mr_original_from r) \<or> hit (mr_from_header r) \<or> hit (mr_envelope_from r)
             \<or> list_ex hit (mr_recipients r) \<or> list_ex hit (mr_skipped r) \<or> hit_opt (mr_subject r) \<or> hit_opt (mr_error r)
             \<or> list_ex hit (mr_notes r) \<or> hit_opt (mr_relay_id r))"

text \<open>The records a page is cut from: on disk the last record of every id, in the order of those
  records, though the code's order among records of the same time is arbitrary.\<close>

definition all_records :: "activity \<Rightarrow> message_record list" where
  "all_records a =
     (if ac_on_disk a
      then List.map_filter (\<lambda>i. get_record i a) (remdups (map mr_id (ac_entries a)))
      else ac_entries a)"

definition page_records ::
  "nat \<Rightarrow> nat \<Rightarrow> message_status option \<Rightarrow> str option \<Rightarrow> str option \<Rightarrow> activity \<Rightarrow> message_record list \<times> nat" where
  "page_records limit page status on_relay search a =
     (let rs = sort_key (\<lambda>r. - mr_updated_at r) (all_records a);
          rs = filter (\<lambda>r. (case status of Some want \<Rightarrow> mr_status r = want | None \<Rightarrow> True)
                 \<and> (case on_relay of Some want \<Rightarrow> mr_relay_id r = Some want | None \<Rightarrow> True) \<and> search_hits r search) rs
      in (take limit (drop (min usize_max ((max page 1 - 1) * limit)) rs), length rs))"

text \<open>Without a status everything goes.\<close>

definition clear_status :: "message_status option \<Rightarrow> activity \<Rightarrow> nat \<times> activity" where
  "clear_status status a =
     (let rs = all_records a;
          left = (case status of None \<Rightarrow> [] | Some want \<Rightarrow> filter (\<lambda>r. mr_status r \<noteq> want) rs)
      in (length rs - length left, a\<lparr>ac_entries := left\<rparr>))"

section \<open>The lines of the mail log\<close>

definition bracket_address :: "str \<Rightarrow> str option" where
  "bracket_address value =
     (let value = trim value
      in if value = [] then None
         else case rfind_byte CHR ''<'' value of
           None \<Rightarrow> Some value
         | Some start \<Rightarrow>
             (case split_once CHR ''>'' (drop (start + 1) value) of
                Some (inside, _) \<Rightarrow> if trim inside \<noteq> [] then Some (trim inside) else Some value
              | None \<Rightarrow> Some value))"

definition maillog_line :: "str \<Rightarrow> message_record \<Rightarrow> str" where
  "maillog_line stamp r =
     (let sender = (case bracket_address (mr_from_header r) of
            Some s \<Rightarrow> s
          | None \<Rightarrow> (case bracket_address (mr_original_from r) of Some s \<Rightarrow> s | None \<Rightarrow> mr_envelope_from r));
          to = join '','' (map (\<lambda>a. ''<'' @ a @ ''>'') (mr_recipients r));
          err = map (\<lambda>c. if c = CR \<or> c = LF then CHR '' '' else c) (case mr_error r of Some e \<Rightarrow> e | None \<Rightarrow> ''-'')
      in stamp @ '' smtp-relay: '' @ mr_id r @ '': from=<'' @ sender @ ''>, to='' @ (if to = [] then ''<->'' else to)
         @ '', relay='' @ (case mr_relay_id r of Some i \<Rightarrow> i | None \<Rightarrow> ''-'') @ '', status='' @ status_str (mr_status r)
         @ '', size='' @ dec (mr_size_bytes r) @ '', nrcpt='' @ dec (length (mr_recipients r))
         @ '', delay='' @ dec (mr_attempts r) @ '', err='' @ [DQ] @ err @ [DQ])"

section \<open>The aggregate\<close>

record metrics =
  me_counters :: counters
  me_series :: "bucket list"
  me_latency :: histogram
  me_activity :: activity

definition count_up :: "(counters \<Rightarrow> counters) \<Rightarrow> metrics \<Rightarrow> metrics" where
  "count_up f m = m\<lparr>me_counters := f (me_counters m)\<rparr>"

section \<open>Prometheus\<close>

record relay_metrics_row =
  rm_id :: str
  rm_available :: bool
  rm_sent :: nat
  rm_failed :: nat
  rm_in_flight :: nat

definition NL :: str where "NL = [LF]"

definition escape_char :: "char \<Rightarrow> str" where
  "escape_char c = (if c = BACKSLASH then [BACKSLASH, BACKSLASH] else if c = DQ then [BACKSLASH, DQ]
     else if c = LF then [] else [c])"

definition escape_label :: "str \<Rightarrow> str" where
  "escape_label s = concat (map escape_char s)"

definition prom :: "str \<Rightarrow> str" where
  "prom name = ''smtp_relay_'' @ name"

definition prom_head :: "str \<Rightarrow> str \<Rightarrow> str \<Rightarrow> str" where
  "prom_head name help type =
     ''# HELP '' @ prom name @ '' '' @ help @ NL @ ''# TYPE '' @ prom name @ '' '' @ type @ NL"

definition prom_counter :: "str \<times> str \<times> u64 \<Rightarrow> str" where
  "prom_counter c = (case c of (name, help, v) \<Rightarrow> prom_head name help ''counter'' @ prom name @ '' '' @ dec (unat v) @ NL)"

definition prom_counters :: "counters \<Rightarrow> (str \<times> str \<times> u64) list" where
  "prom_counters c =
     [(''connections_total'', ''Inbound SMTP connections accepted.'', connections_total c),
      (''connections_rejected_total'', ''Inbound connections refused by the allow-list or connection limit.'', connections_rejected c),
      (''messages_received_total'', ''Messages accepted from submitting clients.'', messages_received c),
      (''messages_delivered_total'', ''Messages accepted by an upstream relay.'', messages_delivered c),
      (''messages_failed_total'', ''Messages permanently failed.'', messages_failed c),
      (''messages_deferred_total'', ''Delivery attempts deferred for retry.'', messages_deferred c),
      (''messages_rejected_total'', ''Messages refused during the inbound session.'', messages_rejected c),
      (''recipients_total'', ''Envelope recipients accepted.'', recipients_total c),
      (''bytes_received_total'', ''Bytes of message data accepted.'', bytes_received c),
      (''bytes_delivered_total'', ''Bytes of message data handed upstream.'', bytes_delivered c),
      (''auth_failure_total'', ''Failed inbound AUTH attempts.'', auth_failure c),
      (''queue_retries_total'', ''Retry attempts started from the queue.'', queue_retries c),
      (''routing_no_relay_total'', ''Routing decisions that found no eligible relay.'', routing_no_relay_available c),
      (''validation_passed_total'', ''Recipients accepted by the Stalwart delivery test.'', validation_passed c),
      (''validation_skipped_total'', ''Recipients skipped after a failed Stalwart delivery test.'', validation_skipped c)]"

definition prom_bucket :: "str \<times> u64 \<Rightarrow> str" where
  "prom_bucket b = prom ''delivery_duration_seconds_bucket{le='' @ [DQ] @ fst b @ [DQ] @ ''} '' @ dec (unat (snd b)) @ NL"

definition prom_relay :: "str \<Rightarrow> (relay_metrics_row \<Rightarrow> nat) \<Rightarrow> relay_metrics_row \<Rightarrow> str" where
  "prom_relay name f r = prom name @ ''{relay='' @ [DQ] @ escape_label (rm_id r) @ [DQ] @ ''} '' @ dec (f r) @ NL"

text \<open>\<open>show_f64\<close> prints a float.\<close>

definition render_prometheus :: "(f64 \<Rightarrow> str) \<Rightarrow> nat \<Rightarrow> relay_metrics_row list \<Rightarrow> metrics \<Rightarrow> str" where
  "render_prometheus show_f64 uptime rows m =
     (let c = me_counters m; h = me_latency m in
      concat (map prom_counter (prom_counters c))
      @ prom_head ''connections_active'' ''Currently open inbound connections.'' ''gauge''
      @ prom ''connections_active '' @ dec (unat (connections_active c)) @ NL
      @ prom_head ''uptime_seconds'' ''Daemon uptime.'' ''gauge'' @ prom ''uptime_seconds '' @ dec uptime @ NL
      @ prom_head ''delivery_duration_seconds'' ''Upstream delivery latency.'' ''histogram''
      @ concat (map prom_bucket (zip BOUND_LABELS (cumulative h)))
      @ prom ''delivery_duration_seconds_sum '' @ show_f64 (f64_div (u64_to_f64 (unat (hi_sum h))) (Fin 1000)) @ NL
      @ prom ''delivery_duration_seconds_count '' @ dec (unat (hi_count h)) @ NL
      @ prom_head ''relay_up'' ''Relay eligibility (1 = in rotation).'' ''gauge''
      @ concat (map (prom_relay ''relay_up'' (\<lambda>r. if rm_available r then 1 else 0)) rows)
      @ prom_head ''relay_sent_total'' ''Messages delivered per relay.'' ''counter''
      @ concat (map (prom_relay ''relay_sent_total'' rm_sent) rows)
      @ prom_head ''relay_failed_total'' ''Failed deliveries per relay.'' ''counter''
      @ concat (map (prom_relay ''relay_failed_total'' rm_failed) rows)
      @ prom_head ''relay_inflight'' ''Deliveries in progress per relay.'' ''gauge''
      @ concat (map (prom_relay ''relay_inflight'' rm_in_flight) rows))"

end
