(* ===== verification/Events.thy ===== *)
theory Events
  imports Prelude
begin

text \<open>The event bus of the dashboard (src/events.rs). Publishing numbers the event and hands it to the
  broadcast channel of the runtime, which is lossy; the model keeps what was handed over, in order. The
  payload is a JSON value: a number that is no integer is its printed form, an object its fields in order.\<close>

datatype json = JNull | JBool bool | JInt int | JReal str | JStr str | JArr "json list" | JObj "(str \<times> json) list"

definition CHANNEL_CAPACITY :: nat where "CHANNEL_CAPACITY = 256"

datatype event_kind = EvMessage | EvRelay | EvQueue | EvConfig | EvStats | EvNotice

fun event_kind_str :: "event_kind \<Rightarrow> str" where
  "event_kind_str EvMessage = ''message''"
| "event_kind_str EvRelay = ''relay''"
| "event_kind_str EvQueue = ''queue''"
| "event_kind_str EvConfig = ''config''"
| "event_kind_str EvStats = ''stats''"
| "event_kind_str EvNotice = ''notice''"

record event =
  ev_seq :: u64
  ev_at :: int
  ev_kind :: event_kind
  ev_data :: json

record event_bus =
  bus_sequence :: u64
  bus_sent :: "event list"

definition new_bus :: event_bus where
  "new_bus = \<lparr>bus_sequence = 0, bus_sent = []\<rparr>"

definition publish :: "int \<Rightarrow> event_kind \<Rightarrow> json \<Rightarrow> event_bus \<Rightarrow> event_bus" where
  "publish now kind data bus =
     bus\<lparr>bus_sequence := bus_sequence bus + 1,
         bus_sent := bus_sent bus @ [\<lparr>ev_seq = bus_sequence bus, ev_at = now, ev_kind = kind, ev_data = data\<rparr>]\<rparr>"

fun opt_json :: "str option \<Rightarrow> json" where
  "opt_json None = JNull"
| "opt_json (Some s) = JStr s"

lemma publish_extends: "\<exists>e. bus_sent (publish now kind data bus) = bus_sent bus @ [e]"
  by (simp add: publish_def)

end
