(* ===== verification/AppState.thy ===== *)
theory AppState
  imports Queue Rewrite Metrics Events
begin

text \<open>The shared state of the daemon (src/state.rs): the configuration and pool generations, the rotation
  cursors, the inbound dumps, the dashboard sessions and the login brake. What reaches the disk - the
  configuration file, the dumps - is a result passed as an argument. Instants are nanoseconds.\<close>

section \<open>Dashboard sessions\<close>

record session =
  ss_username :: str
  ss_expires :: nat

type_synonym session_store = "str \<Rightarrow> session option"

definition SESSION_TTL :: nat where "SESSION_TTL = secs (12 * 60 * 60)"

text \<open>\<open>tok\<close>: the token drawn from the random source of the system.\<close>

definition create_session :: "nat \<Rightarrow> str \<Rightarrow> str \<Rightarrow> session_store \<Rightarrow> str \<times> session_store" where
  "create_session now tok user s = (tok, s(tok \<mapsto> \<lparr>ss_username = user, ss_expires = now + SESSION_TTL\<rparr>))"

definition drop_expired :: "nat \<Rightarrow> session_store \<Rightarrow> session_store" where
  "drop_expired now s = (\<lambda>t. case s t of Some x \<Rightarrow> if now < ss_expires x then Some x else None | None \<Rightarrow> None)"

definition session_username :: "nat \<Rightarrow> str \<Rightarrow> session_store \<Rightarrow> str option \<times> session_store" where
  "session_username now tok s =
     (let s = drop_expired now s in
      case s tok of
        None \<Rightarrow> (None, s)
      | Some x \<Rightarrow> (Some (ss_username x), s(tok \<mapsto> x\<lparr>ss_expires := now + SESSION_TTL\<rparr>)))"

definition revoke_session :: "str \<Rightarrow> session_store \<Rightarrow> session_store" where
  "revoke_session tok s = s(tok := None)"

section \<open>The login brake\<close>

record login_attempts =
  la_failures :: u32
  la_blocked_until :: "nat option"

type_synonym auth_guard = "ip_addr \<Rightarrow> login_attempts option"

text \<open>\<open>later\<close> is the instant of the second reading of the clock, for the time that remains.\<close>

definition check_login :: "nat \<Rightarrow> nat \<Rightarrow> ip_addr \<Rightarrow> auth_guard \<Rightarrow> (nat + unit) \<times> auth_guard" where
  "check_login now later ip g =
     (case g ip of
        None \<Rightarrow> (Inr (), g)
      | Some e \<Rightarrow>
          (case la_blocked_until e of
             Some until \<Rightarrow>
               if now < until then (Inl (until - later), g)
               else (Inr (), g(ip \<mapsto> e\<lparr>la_blocked_until := None, la_failures := 0\<rparr>))
           | None \<Rightarrow> (Inr (), g)))"

definition fail_login :: "nat \<Rightarrow> nat \<Rightarrow> ip_addr \<Rightarrow> nat \<Rightarrow> nat \<Rightarrow> auth_guard \<Rightarrow> nat option \<times> auth_guard" where
  "fail_login now later ip max_failures block g =
     (if max_failures = 0 then (None, g)
      else
        let e = (case g ip of Some e \<Rightarrow> e | None \<Rightarrow> \<lparr>la_failures = 0, la_blocked_until = None\<rparr>)
        in case la_blocked_until e of
             Some until \<Rightarrow>
               if now < until then (Some (until - later), g(ip \<mapsto> e))
               else let e = e\<lparr>la_blocked_until := None, la_failures := sat_inc 0\<rparr>
                    in if max_failures \<le> unat (la_failures e)
                       then (Some block, g(ip \<mapsto> e\<lparr>la_blocked_until := Some (later + block)\<rparr>)) else (None, g(ip \<mapsto> e))
           | None \<Rightarrow>
               let e = e\<lparr>la_failures := sat_inc (la_failures e)\<rparr>
               in if max_failures \<le> unat (la_failures e)
                  then (Some block, g(ip \<mapsto> e\<lparr>la_blocked_until := Some (later + block)\<rparr>)) else (None, g(ip \<mapsto> e)))"

definition login_success :: "ip_addr \<Rightarrow> auth_guard \<Rightarrow> auth_guard" where
  "login_success ip g = g(ip := None)"

section \<open>The state\<close>

record inbound_dump =
  du_id :: str
  du_raw :: bytes
  du_path :: "str option"

definition INBOUND_DUMP_KEEP :: nat where "INBOUND_DUMP_KEEP = 40"
definition INBOUND_DUMP_BYTES :: nat where "INBOUND_DUMP_BYTES = 2 * 1024 * 1024"

record app_state =
  app_config :: config
  app_pool :: pool
  app_metrics :: metrics
  app_events :: event_bus
  app_queue :: queue
  shutting_down :: bool
  sessions :: session_store
  lockout :: auth_guard
  rotation_cursors :: "str \<Rightarrow> u64"
  inbound_dumps :: "inbound_dump list"

definition new_metrics :: "bool \<Rightarrow> metrics" where
  "new_metrics on_disk = \<lparr>me_counters = no_counts, me_series = [], me_latency = empty_histogram,
     me_activity = \<lparr>ac_on_disk = on_disk, ac_entries = []\<rparr>\<rparr>"

text \<open>\<open>log_dir_ok\<close> and \<open>have_dir\<close>: whether the directory of the logs and of the spool exist after the
  attempt to create them.\<close>

definition new_state :: "(relay_config \<Rightarrow> nat \<Rightarrow> str option) \<Rightarrow> bool \<Rightarrow> bool \<Rightarrow> spool \<Rightarrow> config \<Rightarrow> str + app_state" where
  "new_state transport_error log_dir_ok have_dir fs c =
     (case build transport_error c of
        Inl e \<Rightarrow> Inl e
      | Inr p \<Rightarrow> Inr \<lparr>app_config = c, app_pool = p,
          app_metrics = new_metrics (l_directory (config.logging c) \<noteq> None \<and> log_dir_ok),
          app_events = new_bus, app_queue = new_queue have_dir fs (config.queue c), shutting_down = False,
          sessions = (\<lambda>_. None), lockout = (\<lambda>_. None), rotation_cursors = (\<lambda>_. 0), inbound_dumps = []\<rparr>)"

definition next_rotation_template ::
  "(str \<Rightarrow> bytes option) \<Rightarrow> str \<Rightarrow> app_state \<Rightarrow> content_template option \<times> app_state" where
  "next_rotation_template b64d inbound_subject st =
     (let ro = config.rotation (app_config st);
          matching = filter (\<lambda>t. template_matches b64d t inbound_subject) (rotation_usable ro);
          key = normalize_subject b64d inbound_subject;
          c = rotation_cursors st key
      in if \<not> ro_enabled ro \<or> matching = [] then (None, st)
         else (Some (matching ! (unat c mod length matching)),
               st\<lparr>rotation_cursors := (rotation_cursors st)(key := sat_inc c)\<rparr>))"

definition dump_name :: "str \<Rightarrow> str" where
  "dump_name i = concat (map (\<lambda>c. case c of
       [b] \<Rightarrow> if is_alnum_byte b \<or> b = CHR ''-'' \<or> b = CHR ''_'' then [b] else ''_'' | _ \<Rightarrow> ''_'') (chars i))"

definition remember_inbound :: "bool \<Rightarrow> str \<Rightarrow> bytes \<Rightarrow> app_state \<Rightarrow> app_state" where
  "remember_inbound written i bs st =
     (let stored = take INBOUND_DUMP_BYTES bs;
          path = (case l_directory (config.logging (app_config st)) of
             Some dir \<Rightarrow> if written then Some (dir @ ''/inbound/'' @ dump_name i @ ''.eml'') else None
           | None \<Rightarrow> None);
          dumps = filter (\<lambda>d. du_id d \<noteq> i) (inbound_dumps st);
          dumps = (if INBOUND_DUMP_KEEP \<le> length dumps then tl dumps else dumps)
      in st\<lparr>inbound_dumps := dumps @ [\<lparr>du_id = i, du_raw = stored, du_path = path\<rparr>]\<rparr>)"

definition inbound_dump_of :: "str \<Rightarrow> app_state \<Rightarrow> (bytes \<times> str option) option" where
  "inbound_dump_of i st = map_option (\<lambda>d. (du_raw d, du_path d)) (List.find (\<lambda>d. du_id d = i) (rev (inbound_dumps st)))"

definition has_inbound_dump :: "str \<Rightarrow> app_state \<Rightarrow> bool" where
  "has_inbound_dump i st = list_ex (\<lambda>d. du_id d = i) (inbound_dumps st)"

section \<open>Changes of the configuration\<close>

record config_change =
  cc_added :: "str list"
  cc_removed :: "str list"
  cc_strategy_changed :: bool
  cc_queue_settings_changed :: bool

definition queue_settings_equal :: "config \<Rightarrow> config \<Rightarrow> bool" where
  "queue_settings_equal a b =
     (q_enabled (config.queue a) = q_enabled (config.queue b) \<and> workers (config.queue a) = workers (config.queue b)
      \<and> capacity (config.queue a) = capacity (config.queue b) \<and> persist (config.queue a) = persist (config.queue b)
      \<and> q_directory (config.queue a) = q_directory (config.queue b))"

definition change_between :: "pool \<Rightarrow> config \<Rightarrow> config \<Rightarrow> config_change" where
  "change_between previous_pool previous c =
     \<lparr>cc_added = filter (\<lambda>i. index previous_pool i = None) (map r_id (config.relays c)),
      cc_removed = filter (\<lambda>i. i \<notin> set (map r_id (config.relays c))) (map r_id (config.relays previous)),
      cc_strategy_changed = (strategy (config.routing previous) \<noteq> strategy (config.routing c)),
      cc_queue_settings_changed = (\<not> queue_settings_equal previous c)\<rparr>"

definition change_json :: "config_change \<Rightarrow> json" where
  "change_json ch = JObj [(''action'', JStr ''applied''), (''relays_added'', JArr (map JStr (cc_added ch))),
     (''relays_removed'', JArr (map JStr (cc_removed ch))), (''strategy_changed'', JBool (cc_strategy_changed ch)),
     (''queue_restart_required'', JBool (cc_queue_settings_changed ch))]"

definition apply_config ::
  "(relay_config \<Rightarrow> nat \<Rightarrow> str option) \<Rightarrow> int \<Rightarrow> config \<Rightarrow> app_state \<Rightarrow> (str + config_change) \<times> app_state" where
  "apply_config transport_error now c st =
     (case validate c of
        Some e \<Rightarrow> (Inl (''invalid configuration: '' @ e), st)
      | None \<Rightarrow>
          (case rebuild_from transport_error (app_pool st) c of
             Inl e \<Rightarrow> (Inl e, st)
           | Inr p \<Rightarrow>
               let ch = change_between (app_pool st) (app_config st) c
               in (Inr ch, st\<lparr>app_config := c, app_pool := p,
                     app_events := publish now EvConfig (change_json ch) (app_events st)\<rparr>)))"

definition reload_from_disk ::
  "(relay_config \<Rightarrow> nat \<Rightarrow> str option) \<Rightarrow> int \<Rightarrow> str + config \<Rightarrow> app_state \<Rightarrow> (str + config_change) \<times> app_state" where
  "reload_from_disk transport_error now loaded st =
     (case loaded of Inl e \<Rightarrow> (Inl e, st) | Inr c \<Rightarrow> apply_config transport_error now c st)"

text \<open>\<open>save\<close> is the error of writing a configuration to its file, if any.\<close>

definition edit_config ::
  "(relay_config \<Rightarrow> nat \<Rightarrow> str option) \<Rightarrow> int \<Rightarrow> (config \<Rightarrow> str option) \<Rightarrow> bool \<Rightarrow> (config \<Rightarrow> config) \<Rightarrow> app_state
     \<Rightarrow> (str + config_change) \<times> app_state" where
  "edit_config transport_error now save persisted change st =
     (case apply_config transport_error now (change (app_config st)) st of
        (Inl e, st) \<Rightarrow> (Inl e, st)
      | (Inr ch, st) \<Rightarrow>
          if persisted
          then (case save (app_config st) of Some e \<Rightarrow> (Inl e, st) | None \<Rightarrow> (Inr ch, st))
          else (Inr ch, st))"

fun set_enabled :: "str \<Rightarrow> bool \<Rightarrow> relay_config list \<Rightarrow> relay_config list" where
  "set_enabled i on [] = []"
| "set_enabled i on (r # rs) = (if r_id r = i then r\<lparr>r_enabled := on\<rparr> # rs else r # set_enabled i on rs)"

definition persist_activation ::
  "(config \<Rightarrow> str option) \<Rightarrow> (str \<times> bool) list \<Rightarrow> app_state \<Rightarrow> str option \<times> app_state" where
  "persist_activation save changes st =
     (if changes = [] then (None, st)
      else let c = fold (\<lambda>(i, on) c. c\<lparr>config.relays := set_enabled i on (config.relays c)\<rparr>) changes (app_config st)
           in (save c, st\<lparr>app_config := c\<rparr>))"

definition begin_shutdown :: "int \<Rightarrow> app_state \<Rightarrow> app_state" where
  "begin_shutdown now st =
     (if shutting_down st then st
      else st\<lparr>shutting_down := True,
              app_events := publish now EvNotice (JObj [(''text'', JStr ''shutting down'')]) (app_events st)\<rparr>)"

section \<open>The brake at work\<close>

text \<open>Wrong passwords from one address at the given instants: those that were compared at all.\<close>

fun wrong_logins :: "ip_addr \<Rightarrow> nat \<Rightarrow> nat \<Rightarrow> nat list \<Rightarrow> auth_guard \<Rightarrow> nat list \<times> auth_guard" where
  "wrong_logins ip m block [] g = ([], g)"
| "wrong_logins ip m block (t # ts) g =
     (case check_login t t ip g of
        (Inl _, g) \<Rightarrow> wrong_logins ip m block ts g
      | (Inr _, g) \<Rightarrow>
          (let (_, g) = fail_login t t ip m block g; (as, g) = wrong_logins ip m block ts g in (t # as, g)))"

definition brake_ok :: "nat \<Rightarrow> login_attempts option \<Rightarrow> bool" where
  "brake_ok m e = (case e of None \<Rightarrow> True | Some e \<Rightarrow> la_blocked_until e = None \<longrightarrow> unat (la_failures e) < m)"

text \<open>How many comparisons an entry still allows before the instant \<open>w\<close>.\<close>

definition allowance :: "nat \<Rightarrow> nat \<Rightarrow> login_attempts option \<Rightarrow> nat" where
  "allowance m w e =
     (case e of
        None \<Rightarrow> m
      | Some e \<Rightarrow> (case la_blocked_until e of None \<Rightarrow> m - unat (la_failures e) | Some u \<Rightarrow> if w \<le> u then 0 else m))"

lemma allowance_le: "allowance m w e \<le> m"
  by (simp add: allowance_def split: option.splits)

lemma refused_login: "check_login t t ip g = (Inl d, g') \<Longrightarrow> g' = g"
  by (auto simp: check_login_def split: option.splits if_splits)

lemma compared_login:
  assumes "brake_ok m (g ip)" "check_login t t ip g = (Inr (), g')" "0 < m" "m < 2 ^ 32" "t < w" "w \<le> t + block"
  shows "brake_ok m (snd (fail_login t t ip m block g') ip)"
    and "Suc (allowance m w (snd (fail_login t t ip m block g') ip)) \<le> allowance m w (g ip)"
proof -
  let ?f = "case g ip of Some e \<Rightarrow> if la_blocked_until e = None then unat (la_failures e) else 0 | None \<Rightarrow> 0"
  have f: "?f < m" using assms(1,3) by (auto simp: brake_ok_def split: option.splits)
  have e: "g' ip = None \<and> ?f = 0 \<or> (\<exists>e. g' ip = Some e \<and> la_blocked_until e = None \<and> unat (la_failures e) = ?f)"
    using assms(2) by (auto simp: check_login_def split: option.splits if_splits)
  have a: "m - ?f \<le> allowance m w (g ip)"
    using assms(2,5) by (auto simp: check_login_def allowance_def split: option.splits if_splits)
  have s: "unat (sat_inc (x :: u32)) = Suc (unat x)" if "unat x < m" for x
    using that assms(4) unat_sat_inc[of x] by simp
  from e have "brake_ok m (snd (fail_login t t ip m block g') ip)
      \<and> Suc (allowance m w (snd (fail_login t t ip m block g') ip)) \<le> m - ?f"
  proof (elim disjE conjE exE)
    assume "g' ip = None" "?f = 0"
    then show ?thesis using f assms(3,6) s[of 0] by (auto simp: fail_login_def Let_def brake_ok_def allowance_def)
  next
    fix e
    assume "g' ip = Some e" "la_blocked_until e = None" "unat (la_failures e) = ?f"
    then show ?thesis using f assms(3,6) s[of "la_failures e"]
      by (auto simp: fail_login_def Let_def brake_ok_def allowance_def)
  qed
  then show "brake_ok m (snd (fail_login t t ip m block g') ip)"
    and "Suc (allowance m w (snd (fail_login t t ip m block g') ip)) \<le> allowance m w (g ip)"
    using a by auto
qed

lemma wrong_logins_step:
  "check_login t t ip g = (Inr (), g') \<Longrightarrow> wrong_logins ip m block (t # ts) g =
     (let g = snd (fail_login t t ip m block g')
      in (t # fst (wrong_logins ip m block ts g), snd (wrong_logins ip m block ts g)))"
  by (simp split: prod.splits)

lemma wrong_logins_bound:
  assumes "0 < m" "m < 2 ^ 32"
  shows "brake_ok m (g ip) \<Longrightarrow> \<forall>t\<in>set ts. t < w \<and> w \<le> t + block \<Longrightarrow>
    length (fst (wrong_logins ip m block ts g)) \<le> allowance m w (g ip)"
proof (induction ts arbitrary: g)
  case (Cons t ts)
  then have t: "t < w" "w \<le> t + block" by simp_all
  obtain r g1 where c: "check_login t t ip g = (r, g1)" by (cases "check_login t t ip g")
  show ?case
  proof (cases r)
    case (Inl d)
    then have "g1 = g" using refused_login c by blast
    then show ?thesis using Cons c Inl by simp
  next
    case (Inr u)
    then have c': "check_login t t ip g = (Inr (), g1)" using c by simp
    note s = compared_login[OF Cons.prems(1) c' assms t]
    have "length (fst (wrong_logins ip m block ts (snd (fail_login t t ip m block g1))))
        \<le> allowance m w (snd (fail_login t t ip m block g1) ip)"
      using Cons.IH[of "snd (fail_login t t ip m block g1)"] s(1) Cons.prems(2) by simp
    then show ?thesis using s(2) by (simp add: wrong_logins_step[OF c'] Let_def del: wrong_logins.simps)
  qed
qed simp

lemma wrong_logins_ok:
  assumes "0 < m" "m < 2 ^ 32"
  shows "brake_ok m (g ip) \<Longrightarrow> brake_ok m (snd (wrong_logins ip m block ts g) ip)"
proof (induction ts arbitrary: g)
  case (Cons t ts)
  obtain r g1 where c: "check_login t t ip g = (r, g1)" by (cases "check_login t t ip g")
  show ?case
  proof (cases r)
    case (Inl d)
    then have "g1 = g" using refused_login c by blast
    then show ?thesis using Cons c Inl by simp
  next
    case (Inr u)
    then have c': "check_login t t ip g = (Inr (), g1)" using c by simp
    have "brake_ok m (snd (fail_login t t ip m block g1) ip)"
    proof (cases "block = 0")
      case True
      then show ?thesis using compared_login(1)[OF Cons.prems c' assms, of "Suc t" 1] True
        by (auto simp: fail_login_def Let_def brake_ok_def split: option.splits if_splits)
    next
      case False
      then show ?thesis using compared_login(1)[OF Cons.prems c' assms, of "Suc t" block] by simp
    qed
    then show ?thesis using Cons.IH by (simp add: wrong_logins_step[OF c'] Let_def del: wrong_logins.simps)
  qed
qed simp

lemma wrong_logins_append:
  "wrong_logins ip m block (ts @ us) g =
     (let (as, g) = wrong_logins ip m block ts g; (bs, g) = wrong_logins ip m block us g in (as @ bs, g))"
  by (induction ts arbitrary: g) (auto split: prod.splits sum.splits)

lemma wrong_logins_subset: "set (fst (wrong_logins ip m block ts g)) \<subseteq> set ts"
proof (induction ts arbitrary: g)
  case (Cons t ts)
  obtain r g1 where c: "check_login t t ip g = (r, g1)" by (cases "check_login t t ip g")
  show ?case
  proof (cases r)
    case (Inl d)
    then show ?thesis using Cons[of g1] c by auto
  next
    case (Inr u)
    then have c': "check_login t t ip g = (Inr (), g1)" using c by simp
    show ?thesis using Cons[of "snd (fail_login t t ip m block g1)"]
      by (auto simp: wrong_logins_step[OF c'] Let_def simp del: wrong_logins.simps)
  qed
qed simp



section \<open>Reloading\<close>

lemma build_cfg: "build transport_error c = Inr p \<Longrightarrow> relays p = map new_relay (config.relays c)"
proof -
  have "build_relays transport_error n cs = Inr rs \<Longrightarrow> rs = map new_relay cs" for n cs rs
    by (induction cs arbitrary: rs) (auto split: option.splits sum.splits)
  then show "build transport_error c = Inr p \<Longrightarrow> ?thesis" by (auto simp: build_def split: sum.splits)
qed

text \<open>What a relay of the new generation has from the relay of the same id, if there was one.\<close>

definition inherits :: "pool \<Rightarrow> relay_runtime \<Rightarrow> bool" where
  "inherits previous r =
     (case get (id_of r) previous of
        None \<Rightarrow> r = new_relay (rcfg r)
      | Some old \<Rightarrow> stats r = stats old \<and> circuit r = circuit old \<and> hour_count (usage r) = hour_count (usage old)
          \<and> day_count (usage r) = day_count (usage old) \<and> total (usage r) = total (usage old)
          \<and> active r = (if r_enabled (rcfg old) = r_enabled (rcfg r) then active old else r_enabled (rcfg r)))"

lemma rebuild_inherits:
  assumes "rebuild_from transport_error previous c = Inr p"
  shows "list_all (inherits previous) (relays p)" "map rcfg (relays p) = config.relays c"
proof -
  obtain p0 where b: "build transport_error c = Inr p0"
    and p: "relays p = map (\<lambda>r. case get (id_of r) previous of None \<Rightarrow> r
        | Some old \<Rightarrow> carry_over_from old (r_enabled (rcfg old) = r_enabled (rcfg r)) r) (relays p0)"
    using assms by (auto simp: rebuild_from_def split: sum.splits)
  have f: "rcfg (carry_over_from old keep r) = rcfg r" "id_of (carry_over_from old keep r) = id_of r" for old keep r
    by (simp_all add: carry_over_from_def id_of_def Let_def)
  show "list_all (inherits previous) (relays p)"
    by (auto simp: p build_cfg[OF b] list_all_iff inherits_def f split: option.splits)
      (auto simp: carry_over_from_def new_relay_def Let_def)
  show "map rcfg (relays p) = config.relays c"
    by (auto simp: p build_cfg[OF b] f new_relay_def map_idI split: option.splits)
qed


section \<open>Rotation\<close>

fun rotations :: "(str \<Rightarrow> bytes option) \<Rightarrow> str \<Rightarrow> nat \<Rightarrow> app_state \<Rightarrow> content_template option list \<times> app_state" where
  "rotations b64d subject 0 st = ([], st)"
| "rotations b64d subject (Suc n) st =
     (let (t, st) = next_rotation_template b64d subject st; (ts, st) = rotations b64d subject n st in (t # ts, st))"

definition usable_for :: "(str \<Rightarrow> bytes option) \<Rightarrow> str \<Rightarrow> config \<Rightarrow> content_template list" where
  "usable_for b64d subject c =
     (if ro_enabled (config.rotation c)
      then filter (\<lambda>t. template_matches b64d t subject) (rotation_usable (config.rotation c)) else [])"

lemma next_rotation_spec:
  "next_rotation_template b64d subject st =
     (let ts = usable_for b64d subject (app_config st); key = normalize_subject b64d subject; c = rotation_cursors st key
      in if ts = [] then (None, st)
         else (Some (ts ! (unat c mod length ts)), st\<lparr>rotation_cursors := (rotation_cursors st)(key := sat_inc c)\<rparr>))"
  by (auto simp: next_rotation_template_def usable_for_def Let_def)

lemma next_rotation_frame:
  "next_rotation_template b64d subject st = (t, st') \<Longrightarrow>
     app_config st' = app_config st \<and> app_pool st' = app_pool st \<and> app_queue st' = app_queue st
     \<and> app_metrics st' = app_metrics st \<and> app_events st' = app_events st"
  by (auto simp: next_rotation_spec Let_def split: if_splits)

text \<open>Content rotation is a round-robin of its own for every subject: successive messages of one subject
  get the matching templates in their order, one after the other, whatever else is sent.\<close>

theorem rotation_round_robin:
  assumes "unat (rotation_cursors st (normalize_subject b64d subject)) + n < 2 ^ 64"
  shows "fst (rotations b64d subject n st) =
    (let ts = usable_for b64d subject (app_config st); c = unat (rotation_cursors st (normalize_subject b64d subject))
     in map (\<lambda>j. if ts = [] then None else Some (ts ! ((c + j) mod length ts))) [0..<n])"
  using assms
proof (induction n arbitrary: st)
  case (Suc n)
  let ?key = "normalize_subject b64d subject"
  let ?ts = "usable_for b64d subject (app_config st)" and ?c = "rotation_cursors st ?key"
  obtain t st' where n: "next_rotation_template b64d subject st = (t, st')" by fastforce
  have cfg: "app_config st' = app_config st" using next_rotation_frame[OF n] by blast
  show ?case
  proof (cases "?ts = []")
    case True
    then have "st' = st" "t = None" using n by (auto simp: next_rotation_spec)
    then show ?thesis using Suc.IH[of st] Suc.prems n True
      by (cases "rotations b64d subject n st") (simp add: Let_def map_replicate_const replicate_append_same)
  next
    case False
    then have t: "t = Some (?ts ! (unat ?c mod length ?ts))" "rotation_cursors st' ?key = sat_inc ?c"
      using n by (auto simp: next_rotation_spec Let_def)
    have c: "unat (sat_inc ?c) = Suc (unat ?c)" using Suc.prems unat_sat_inc[of ?c] by simp
    have "fst (rotations b64d subject n st') = map (\<lambda>j. Some (?ts ! ((Suc (unat ?c) + j) mod length ?ts))) [0..<n]"
      using Suc.IH[of st'] Suc.prems False by (simp add: cfg t(2) c Let_def)
    moreover have "[0..<Suc n] = 0 # map Suc [0..<n]" by (simp only: upt_conv_Cons zero_less_Suc map_Suc_upt)
    ultimately show ?thesis using n t(1) False
      by (cases "rotations b64d subject n st'") (simp add: Let_def comp_def del: upt_Suc)
  qed
qed simp

definition rotation_config2 :: config where
  "rotation_config2 = default_config\<lparr>rotation := \<lparr>ro_enabled = True, templates =
     [\<lparr>ct_id = ''e1a'', match_subject = ''Email 1'', ct_subject = ''a'', ct_body = ''b''\<rparr>,
      \<lparr>ct_id = ''e2a'', match_subject = ''Email 2'', ct_subject = ''c'', ct_body = ''d''\<rparr>,
      \<lparr>ct_id = ''e1b'', match_subject = ''email 1 '', ct_subject = ''e'', ct_body = ''f''\<rparr>]\<rparr>\<rparr>"

definition sample_state :: "config \<Rightarrow> app_state" where
  "sample_state c = \<lparr>app_config = c, app_pool = sample_pool [5, 1, 1], app_metrics = new_metrics False, app_events = new_bus,
     app_queue = one_waiting, shutting_down = False, sessions = (\<lambda>_. None), lockout = (\<lambda>_. None),
     rotation_cursors = (\<lambda>_. 0), inbound_dumps = []\<rparr>"

lemma sample_usable:
  "map ct_id (usable_for (\<lambda>_. None) ''Email 1'' rotation_config2) = [''e1a'', ''e1b'']"
  by code_simp

theorem rotation_round_robin_witness:
  "map (map_option ct_id) (fst (rotations (\<lambda>_. None) ''Email 1'' 3 (sample_state rotation_config2)))
     = [Some ''e1a'', Some ''e1b'', Some ''e1a'']"
proof -
  let ?ts = "usable_for (\<lambda>_. None) ''Email 1'' rotation_config2"
  have l: "?ts \<noteq> []" "length ?ts = 2" "map ct_id ?ts = [''e1a'', ''e1b'']"
    using sample_usable arg_cong[OF sample_usable, of length] by auto
  have "fst (rotations (\<lambda>_. None) ''Email 1'' 3 (sample_state rotation_config2)) = map (\<lambda>j. Some (?ts ! (j mod 2))) [0..<3]"
    using rotation_round_robin[of "sample_state rotation_config2" "\<lambda>_. None" "''Email 1''" 3] l(1,2)
    by (simp add: sample_state_def del: upt_Suc)
  moreover have "ct_id (?ts ! 0) = ''e1a''" "ct_id (?ts ! 1) = ''e1b''"
    using l nth_map[of _ ?ts ct_id] by (metis nth_Cons_0 zero_less_numeral, metis One_nat_def nth_Cons_0 nth_Cons_Suc one_less_numeral_iff semiring_norm(76))
  ultimately show ?thesis by (simp add: upt_rec)
qed

end
