(* ===== verification/Validation.thy ===== *)
theory Validation
  imports Rotation Events
begin

text \<open>The check of recipients before sending (src/validation.rs): delivery tests of Stalwart servers and
  the HTTP verifiers for the Yahoo family. The HTTP client and the JSON parser are libraries: a call is a
  function from the request to a failure or a response, a parser one from text to a value, and a printer
  one back. The rotating counter of the verifiers is threaded; the checks of one message start in the
  order of its recipients.\<close>

section \<open>Values\<close>

fun find_map :: "('a \<Rightarrow> 'b option) \<Rightarrow> 'a list \<Rightarrow> 'b option" where
  "find_map f [] = None"
| "find_map f (x # xs) = (case f x of Some y \<Rightarrow> Some y | None \<Rightarrow> find_map f xs)"

lemma find_map_cong [fundef_cong]:
  "xs = ys \<Longrightarrow> (\<And>x. x \<in> set ys \<Longrightarrow> f x = g x) \<Longrightarrow> find_map f xs = find_map g ys"
  by (induction ys arbitrary: xs) (auto split: option.splits)

definition json_get :: "str \<Rightarrow> json \<Rightarrow> json option" where
  "json_get key v = (case v of JObj fs \<Rightarrow> map_of fs key | _ \<Rightarrow> None)"

definition json_text :: "json \<Rightarrow> str option" where
  "json_text v = (case v of JStr s \<Rightarrow> Some s | _ \<Rightarrow> None)"

definition json_i64 :: "int \<Rightarrow> int option" where
  "json_i64 n = (if - (2 ^ 63) \<le> n \<and> n < 2 ^ 63 then Some n else None)"

section \<open>Outcomes\<close>

datatype probe_outcome = Acceptable str | InvalidMailbox str str | ProbeFailed str str

record recipient_check =
  rc_address :: str
  rc_deliver :: bool
  rc_detail :: str

definition YAHOO_DOMAINS :: "str list" where
  "YAHOO_DOMAINS = [''yahoo.com'', ''yahoo.co.uk'', ''yahoo.co.in'', ''yahoo.co.jp'', ''yahoo.com.au'', ''yahoo.com.br'',
     ''yahoo.com.mx'', ''yahoo.com.ar'', ''yahoo.com.sg'', ''yahoo.ca'', ''yahoo.de'', ''yahoo.fr'', ''yahoo.es'',
     ''yahoo.it'', ''yahoo.in'', ''ymail.com'', ''rocketmail.com'', ''myyahoo.com'', ''yahoo.com.tw'']"

definition AOL_DOMAINS :: "str list" where
  "AOL_DOMAINS = [''aol.com'', ''aol.co.uk'', ''aol.de'', ''aol.fr'', ''aol.in'', ''aim.com'', ''wow.com'',
     ''netscape.net'', ''love.com'', ''games.com'']"

definition domain_matches :: "str \<Rightarrow> str \<Rightarrow> bool" where
  "domain_matches domain known =
     (let known = to_lower (dropWhile (\<lambda>c. c = CHR ''.'') (trim known))
      in known \<noteq> [] \<and> (domain = known \<or> ends_with (CHR ''.'' # known) domain))"

definition is_yahoo_address :: "str \<Rightarrow> str list \<Rightarrow> bool" where
  "is_yahoo_address address extra =
     (case rsplit_once CHR ''@'' address of
        None \<Rightarrow> False
      | Some (_, d) \<Rightarrow>
          let d = to_lower (trim_end_matches {CHR ''.''} (trim d))
          in d \<noteq> [] \<and> (list_ex (domain_matches d) (YAHOO_DOMAINS @ AOL_DOMAINS)
               \<or> list_ex (\<lambda>known. domain_matches d (to_lower (trim known))) extra))"

definition encode_byte :: "char \<Rightarrow> str" where
  "encode_byte c = (if is_alnum_byte c \<or> c \<in> {CHR ''-'', CHR ''.'', CHR ''_'', CHR ''~''} then [c]
     else [CHR ''%'', hex_upper (byte c div 16), hex_upper (byte c mod 16)])"

definition encode_path :: "str \<Rightarrow> str" where
  "encode_path value = concat (map encode_byte value)"

section \<open>The verifiers of the Yahoo family\<close>

record http_request =
  rq_get :: bool
  rq_url :: str
  rq_json :: "json option"
  rq_accept :: "str option"
  rq_bearer :: "str option"
  rq_basic :: "(str \<times> str) option"

type_synonym http = "http_request \<Rightarrow> str + nat \<times> str"

definition first_chars :: "nat \<Rightarrow> str \<Rightarrow> str" where
  "first_chars n s = concat (take n (chars s))"

definition status_values :: "bool \<Rightarrow> str list" where
  "status_values yes =
     (if yes then [''valid'', ''validated'', ''true'', ''yes'', ''ok'', ''deliverable'', ''safe'', ''good'', ''safe_to_send'']
      else [''invalid'', ''false'', ''no'', ''undeliverable'', ''bounce'', ''unknown'', ''do_not_mail'', ''spamtrap'',
            ''abuse'', ''disposable'', ''error''])"

definition status_text_bool :: "str \<Rightarrow> bool option" where
  "status_text_bool s =
     (let t = map (\<lambda>c. if c = CHR ''-'' then CHR ''_'' else c) (to_lower (trim s))
      in if t \<in> set (status_values True) then Some True else if t \<in> set (status_values False) then Some False else None)"

fun status_bool :: "json \<Rightarrow> bool option" where
  "status_bool (JStr s) = status_text_bool s"
| "status_bool (JBool b) = Some b"
| "status_bool (JInt n) = map_option (\<lambda>n. n \<noteq> 0) (json_i64 n)"
| "status_bool _ = None"

fun json_bool :: "json \<Rightarrow> bool option" where
  "json_bool (JBool b) = Some b"
| "json_bool (JInt n) = map_option (\<lambda>n. n \<noteq> 0) (json_i64 n)"
| "json_bool (JStr s) =
     (case status_text_bool s of
        Some b \<Rightarrow> Some b
      | None \<Rightarrow>
          let t = to_lower (trim s)
          in if t \<in> {''true'', ''yes'', ''1''} then Some True else if t \<in> {''false'', ''no'', ''0''} then Some False else None)"
| "json_bool _ = None"

definition VALID_KEYS :: "str list" where
  "VALID_KEYS = [''validate'', ''validated'', ''valid'', ''is_valid'', ''isvalid'', ''deliverable'']"

definition STATUS_KEYS :: "str list" where
  "STATUS_KEYS = [''status'', ''result'', ''verdict'', ''state'', ''quality'']"

definition key_in :: "str \<Rightarrow> str list \<Rightarrow> bool" where
  "key_in key keys = list_ex (eq_ignore_case key) keys"

definition or_else :: "'a option \<Rightarrow> 'a option \<Rightarrow> 'a option" where
  "or_else a b = (case a of Some x \<Rightarrow> Some x | None \<Rightarrow> b)"

lemma json_size_object: "(k, v) \<in> set fs \<Longrightarrow> size v < size (JObj fs)"
  by (induction fs) auto

lemma json_size_array: "v \<in> set vs \<Longrightarrow> size v < size (JArr vs)"
  by (induction vs) auto

function read_validated :: "json \<Rightarrow> bool option" where
  "read_validated (JObj fs) =
     (case find_map (\<lambda>(k, v). if key_in k VALID_KEYS then or_else (json_bool v) (status_bool v) else None) fs of
        Some b \<Rightarrow> Some b
      | None \<Rightarrow>
          (case find_map (\<lambda>(k, v). if key_in k STATUS_KEYS then or_else (status_bool v) (json_bool v) else None) fs of
             Some b \<Rightarrow> Some b
           | None \<Rightarrow>
               find_map (\<lambda>(k, v). if key_in k [''data'', ''response'', ''payload''] then read_validated v else None) fs))"
| "read_validated (JArr vs) = find_map read_validated vs"
| "read_validated JNull = None"
| "read_validated (JBool b) = None"
| "read_validated (JInt n) = None"
| "read_validated (JReal s) = None"
| "read_validated (JStr s) = None"
  by pat_completeness auto
termination by (relation "measure size") (auto simp del: json.size dest: json_size_object json_size_array)

text \<open>\<open>to_text\<close> prints a JSON value.\<close>

definition json_text_field :: "(json \<Rightarrow> str) \<Rightarrow> json \<Rightarrow> str list \<Rightarrow> str option" where
  "json_text_field to_text v keys =
     (case v of
        JObj fs \<Rightarrow> find_map (\<lambda>(k, child).
          if \<not> key_in k keys then None
          else case child of
            JNull \<Rightarrow> None
          | JStr t \<Rightarrow> if trim t \<noteq> [] \<and> \<not> eq_ignore_case (trim t) ''null'' then Some (trim t) else None
          | JBool b \<Rightarrow> None
          | other \<Rightarrow> if to_text other \<noteq> ''null'' then Some (to_text other) else None) fs
      | _ \<Rightarrow> None)"

definition yahoo_error_text :: "(json \<Rightarrow> str) \<Rightarrow> json \<Rightarrow> str option" where
  "yahoo_error_text to_text v = json_text_field to_text v [''error'', ''message'', ''detail'', ''reason'']"

definition field_bool :: "json \<Rightarrow> str \<Rightarrow> bool option" where
  "field_bool v name =
     (case v of JObj fs \<Rightarrow> find_map (\<lambda>(k, child). if eq_ignore_case k name then json_bool child else None) fs | _ \<Rightarrow> None)"

definition note_or :: "str option \<Rightarrow> str \<Rightarrow> str" where
  "note_or n alt = (case n of Some s \<Rightarrow> s | None \<Rightarrow> alt)"

definition interpret_yahoo_json :: "(json \<Rightarrow> str) \<Rightarrow> json \<Rightarrow> str + bool \<times> str" where
  "interpret_yahoo_json to_text v =
     (let n = yahoo_error_text to_text v
      in if field_bool v ''fail'' = Some True then Inl (note_or n ''fail: true'')
         else if field_bool v ''ok'' = Some False then Inl (note_or n ''ok: false'')
         else case read_validated v of
           None \<Rightarrow> Inl (note_or n (''Yahoo API JSON has no validate/valid/validated field: '' @ first_chars 180 (to_text v)))
         | Some ok \<Rightarrow>
             Inr (ok, ''yahoo API validate: '' @ (if ok then ''true'' else ''false'')
               @ (case n of Some t \<Rightarrow> '' ('' @ t @ '')'' | None \<Rightarrow> [])))"

definition yahoo_request_url :: "str \<Rightarrow> str \<Rightarrow> str" where
  "yahoo_request_url url_template address =
     (let base = trim url_template
      in if str_contains base ''{email}'' then replace_all ''{email}'' (encode_path address) base
         else trim_end_matches {CHR ''/''} base)"

definition yahoo_request :: "yahoo_config \<Rightarrow> str \<Rightarrow> http_request" where
  "yahoo_request y address =
     (let get = (yahoo_method y = ''GET'')
      in \<lparr>rq_get = get, rq_url = yahoo_request_url (yc_url y) address,
          rq_json = (if get then None else Some (JObj [(''email'', JStr address)])), rq_accept = Some ''application/json'',
          rq_bearer = (if trim (yc_api_key y) \<noteq> [] then Some (trim (yc_api_key y)) else None), rq_basic = None\<rparr>)"

text \<open>\<open>status\<close> prints a status code with its name.\<close>

definition call_yahoo_api ::
  "(str \<Rightarrow> json option) \<Rightarrow> (json \<Rightarrow> str) \<Rightarrow> (nat \<Rightarrow> str) \<Rightarrow> http \<Rightarrow> yahoo_config \<Rightarrow> str \<Rightarrow> str + bool \<times> str" where
  "call_yahoo_api parse_json to_text status http y address =
     (case http (yahoo_request y address) of
        Inl e \<Rightarrow> Inl (''could not reach Yahoo API: '' @ e)
      | Inr (code, text) \<Rightarrow>
          if \<not> (200 \<le> code \<and> code < 300)
          then Inl (''HTTP '' @ status code @ '' ''
             @ note_or (Option.bind (parse_json text) (yahoo_error_text to_text)) (first_chars 180 text))
          else case parse_json text of
            None \<Rightarrow> Inl (''Yahoo API did not return JSON: '' @ first_chars 180 text)
          | Some v \<Rightarrow> interpret_yahoo_json to_text v)"

definition rotate_yahoo :: "yahoo_endpoint list \<Rightarrow> u64 \<Rightarrow> yahoo_endpoint list \<times> u64" where
  "rotate_yahoo es rr =
     (if length es \<le> 1 then (es, rr)
      else let start = unat rr mod length es in (drop start es @ take start es, rr + 1))"

definition yahoo_call_config :: "yahoo_endpoint \<Rightarrow> yahoo_config" where
  "yahoo_call_config e = as_config e (default_yahoo\<lparr>concurrency := 1\<rparr>)"

text \<open>The first endpoint that answers, or the errors of all.\<close>

fun yahoo_loop :: "(yahoo_endpoint \<Rightarrow> str + bool \<times> str) \<Rightarrow> yahoo_endpoint list \<Rightarrow> str list \<Rightarrow> str list + yahoo_endpoint \<times> bool \<times> str" where
  "yahoo_loop call [] errors = Inl errors"
| "yahoo_loop call (e # es) errors =
     (case call e of
        Inr r \<Rightarrow> Inr (e, r)
      | Inl reason \<Rightarrow> yahoo_loop call es (errors @ [ye_id e @ '': '' @ reason]))"

definition check_yahoo ::
  "(yahoo_endpoint \<Rightarrow> str + bool \<times> str) \<Rightarrow> yahoo_endpoint list \<Rightarrow> str \<Rightarrow> bool \<Rightarrow> u64 \<Rightarrow> recipient_check \<times> u64" where
  "check_yahoo call es address allow rr =
     (let (ordered, rr) = rotate_yahoo es rr
      in case yahoo_loop call ordered [] of
           Inr (e, ok, detail) \<Rightarrow>
             (\<lparr>rc_address = address, rc_deliver = ok,
               rc_detail = (if 1 < length es then detail @ '' via '' @ bq (ye_id e) else detail)\<rparr>, rr)
         | Inl errors \<Rightarrow>
             (\<lparr>rc_address = address, rc_deliver = allow,
               rc_detail = (if allow then ''yahoo API error, sending anyway ('' else ''yahoo API error, skipped ('')
                  @ join ''; '' errors @ '')''\<rparr>, rr))"

section \<open>Delivery tests\<close>

datatype stage_class = StageAcceptable | StageInvalid str | StageDone | StageContinue

definition stage_type :: "json \<Rightarrow> str option" where
  "stage_type v = Option.bind (json_get ''type'' v) json_text"

definition stage_reason :: "str \<Rightarrow> json \<Rightarrow> str" where
  "stage_reason typ v = note_or (Option.bind (json_get ''reason'' v) json_text) typ"

definition classify_stage :: "json \<Rightarrow> stage_class" where
  "classify_stage v =
     (let typ = note_or (stage_type v) []
      in if typ = ''rcptToSuccess'' then StageAcceptable
         else if typ = ''rcptToError'' then StageInvalid (stage_reason typ v)
         else if typ = ''completed'' then StageDone else StageContinue)"

definition stage_error_hint :: "json \<Rightarrow> str option" where
  "stage_error_hint v =
     (case stage_type v of
        None \<Rightarrow> None
      | Some typ \<Rightarrow>
          if ends_with ''Error'' typ \<or> ends_with ''Failed'' typ then Some (typ @ '': '' @ stage_reason typ v) else None)"

fun data_values :: "(str \<Rightarrow> json option) \<Rightarrow> str list \<Rightarrow> json list" where
  "data_values parse_json [] = []"
| "data_values parse_json (l # ls) =
     (case strip_prefix ''data:'' (trim l) of
        None \<Rightarrow> data_values parse_json ls
      | Some d \<Rightarrow>
          (if trim d = [] \<or> trim d = ''{}'' then []
           else case parse_json (trim d) of Some (JArr vs) \<Rightarrow> vs | Some (JObj fs) \<Rightarrow> [JObj fs] | _ \<Rightarrow> [])
          @ data_values parse_json ls)"

lemma find_sub_less: "find_sub n s = Some k \<Longrightarrow> k < length s"
  by (induction s arbitrary: k) (auto split: if_splits)

text \<open>The frames that are complete, and what is left.\<close>

function sse_frames :: "str \<Rightarrow> str list \<times> str" where
  "sse_frames s =
     (case find_sub [LF, LF] s of
        None \<Rightarrow> ([], s)
      | Some n \<Rightarrow> (let (fs, rest) = sse_frames (drop (n + 2) s) in (take n s # fs, rest)))"
  by pat_completeness auto
termination by (relation "measure length") (auto dest: find_sub_less)

declare sse_frames.simps [simp del]

definition unify_newlines :: "str \<Rightarrow> str" where
  "unify_newlines s = (if CR \<in> set s then map (\<lambda>c. if c = CR then LF else c) (replace_all CRLF [LF] s) else s)"

definition take_sse_stages :: "(str \<Rightarrow> json option) \<Rightarrow> str \<Rightarrow> json list \<times> str" where
  "take_sse_stages parse_json buf =
     (let (frames, rest) = sse_frames (unify_newlines buf)
      in (concat (map (data_values parse_json \<circ> split_all LF) frames), rest))"

definition finish_probe :: "str \<Rightarrow> str option \<Rightarrow> str \<Rightarrow> probe_outcome" where
  "finish_probe sid rcpt_error hint =
     (case rcpt_error of
        Some reason \<Rightarrow> InvalidMailbox sid reason
      | None \<Rightarrow> ProbeFailed sid (''completed without RCPT TO'' @ (if hint = [] then [] else '' ('' @ hint @ '')'')))"

fun stages_loop :: "str \<Rightarrow> json list \<Rightarrow> str option \<Rightarrow> str \<Rightarrow> probe_outcome + str option \<times> str" where
  "stages_loop sid [] rcpt_error hint = Inr (rcpt_error, hint)"
| "stages_loop sid (v # vs) rcpt_error hint =
     (case classify_stage v of
        StageAcceptable \<Rightarrow> Inl (Acceptable sid)
      | StageInvalid reason \<Rightarrow> stages_loop sid vs (Some reason) hint
      | StageDone \<Rightarrow> Inl (finish_probe sid rcpt_error hint)
      | StageContinue \<Rightarrow> stages_loop sid vs rcpt_error (note_or (stage_error_hint v) hint))"

fun chunks_loop :: "(str \<Rightarrow> json option) \<Rightarrow> str \<Rightarrow> (str + bytes) list \<Rightarrow> str \<Rightarrow> str option \<Rightarrow> str \<Rightarrow> probe_outcome" where
  "chunks_loop parse_json sid [] leftover rcpt_error hint = finish_probe sid rcpt_error hint"
| "chunks_loop parse_json sid (Inl e # cs) leftover rcpt_error hint = ProbeFailed sid e"
| "chunks_loop parse_json sid (Inr bs # cs) leftover rcpt_error hint =
     (let (stages, leftover) = take_sse_stages parse_json (leftover @ utf8_lossy bs)
      in case stages_loop sid stages rcpt_error hint of
           Inl out \<Rightarrow> out
         | Inr (rcpt_error, hint) \<Rightarrow> chunks_loop parse_json sid cs leftover rcpt_error hint)"

definition delivery_url :: "str \<Rightarrow> str \<Rightarrow> nat \<Rightarrow> str" where
  "delivery_url prefix_url address timeout =
     trim_end_matches {CHR ''/''} (trim prefix_url) @ ''/api/live/delivery/'' @ encode_path address @ ''?timeout='' @ dec (max timeout 1)"

definition server_bearer :: "validation_server \<Rightarrow> str option" where
  "server_bearer s = (if trim (token s) \<noteq> [] then Some (trim (token s)) else None)"

definition server_basic :: "validation_server \<Rightarrow> (str \<times> str) option" where
  "server_basic s = (if trim (token s) = [] \<and> trim (vs_username s) \<noteq> [] then Some (trim (vs_username s), vs_password s) else None)"

definition probe_request :: "validation_server \<Rightarrow> str \<Rightarrow> nat \<Rightarrow> http_request" where
  "probe_request s address timeout = \<lparr>rq_get = True, rq_url = delivery_url (base_url s) address timeout, rq_json = None,
     rq_accept = Some ''text/event-stream'', rq_bearer = server_bearer s, rq_basic = server_basic s\<rparr>"

text \<open>The answer to a test: a failure, or the status, the whole body, and the body as the chunks in which it
  arrives.\<close>

type_synonym probe_http = "http_request \<Rightarrow> str + nat \<times> str \<times> (str + bytes) list"

definition probe_server ::
  "(str \<Rightarrow> json option) \<Rightarrow> (nat \<Rightarrow> str) \<Rightarrow> probe_http \<Rightarrow> validation_server \<Rightarrow> str \<Rightarrow> nat \<Rightarrow> probe_outcome" where
  "probe_server parse_json status http s address timeout =
     (case http (probe_request s address timeout) of
        Inl e \<Rightarrow> ProbeFailed (vs_id s) e
      | Inr (code, text, chunks) \<Rightarrow>
          if \<not> (200 \<le> code \<and> code < 300)
          then ProbeFailed (vs_id s)
             (if code = 401 then ''wrong username or password''
              else if code = 403 then ''account lacks LiveDeliveryTest permission''
              else ''HTTP '' @ status code @ '' '' @ first_chars 180 text)
          else chunks_loop parse_json (vs_id s) chunks [] None [])"

text \<open>\<open>debug\<close> prints an outcome; it is not reached by the outcomes that get there.\<close>

definition decide :: "(probe_outcome \<Rightarrow> str) \<Rightarrow> str \<Rightarrow> probe_outcome list \<Rightarrow> bool \<Rightarrow> recipient_check" where
  "decide debug address outcomes allow =
     (case find_map (\<lambda>out. case out of Acceptable s \<Rightarrow> Some s | _ \<Rightarrow> None) outcomes of
        Some ok \<Rightarrow> \<lparr>rc_address = address, rc_deliver = True, rc_detail = ''delivery test ok via '' @ bq ok\<rparr>
      | None \<Rightarrow>
          (case find_map (\<lambda>out. case out of InvalidMailbox s r \<Rightarrow> Some (s, r) | _ \<Rightarrow> None) outcomes of
             Some (s, r) \<Rightarrow> \<lparr>rc_address = address, rc_deliver = False, rc_detail = ''invalid via '' @ bq s @ '': '' @ r\<rparr>
           | None \<Rightarrow>
               let why = join ''; '' (map (\<lambda>out. case out of ProbeFailed s r \<Rightarrow> s @ '': '' @ r | other \<Rightarrow> debug other) outcomes)
               in \<lparr>rc_address = address, rc_deliver = allow,
                   rc_detail = (if allow then ''probe error, sending anyway ('' else ''probe error, skipped ('') @ why @ '')''\<rparr>))"

section \<open>Recipients\<close>

text \<open>\<open>call\<close> asks a verifier and \<open>probe\<close> a Stalwart server about the address.\<close>

definition check_recipient ::
  "(str \<Rightarrow> yahoo_endpoint \<Rightarrow> str + bool \<times> str) \<Rightarrow> (str \<Rightarrow> validation_server \<Rightarrow> probe_outcome) \<Rightarrow> (probe_outcome \<Rightarrow> str)
     \<Rightarrow> validation_config \<Rightarrow> str \<Rightarrow> u64 \<Rightarrow> recipient_check \<times> u64" where
  "check_recipient call probe debug v address rr =
     (let allow = allow_on_probe_error v
      in if is_yahoo_address address (extra_domains (yahoo v))
         then if yahoo_endpoints v \<noteq> [] then check_yahoo (call address) (yahoo_endpoints v) address allow rr
              else (\<lparr>rc_address = address, rc_deliver = allow,
                 rc_detail = (if validation_usable v = [] then ''yahoo address but Yahoo API is off''
                              else ''yahoo address, Stalwart skipped (catch-all)'')
                   @ (if allow then '', sending anyway'' else '', skipped'')\<rparr>, rr)
         else if validation_usable v = []
         then (\<lparr>rc_address = address, rc_deliver = True, rc_detail = ''no Stalwart server configured''\<rparr>, rr)
         else (decide debug address (map (probe address) (validation_usable v)) allow, rr))"

fun check_each :: "(str \<Rightarrow> u64 \<Rightarrow> recipient_check \<times> u64) \<Rightarrow> str list \<Rightarrow> u64 \<Rightarrow> recipient_check list \<times> u64" where
  "check_each chk [] rr = ([], rr)"
| "check_each chk (a # as) rr = (let (c, rr) = chk a rr; (cs, rr) = check_each chk as rr in (c # cs, rr))"

definition filter_recipients ::
  "(str \<Rightarrow> yahoo_endpoint \<Rightarrow> str + bool \<times> str) \<Rightarrow> (str \<Rightarrow> validation_server \<Rightarrow> probe_outcome) \<Rightarrow> (probe_outcome \<Rightarrow> str)
     \<Rightarrow> validation_config \<Rightarrow> str list \<Rightarrow> u64 \<Rightarrow> recipient_check list \<times> u64" where
  "filter_recipients call probe debug v rcpts rr =
     (if \<not> va_enabled v \<or> \<not> has_any_channel v
      then (map (\<lambda>a. \<lparr>rc_address = a, rc_deliver = True, rc_detail = ''validation disabled''\<rparr>) rcpts, rr)
      else check_each (check_recipient call probe debug v) rcpts rr)"

definition verify_credentials :: "(nat \<Rightarrow> str) \<Rightarrow> http \<Rightarrow> validation_server \<Rightarrow> str + str" where
  "verify_credentials status http s =
     (let base = trim_end_matches {CHR ''/''} (trim (base_url s))
      in if base = [] then Inl ''base URL is empty''
         else if \<not> (starts_with ''http://'' base \<or> starts_with ''https://'' base)
         then Inl ''base URL must start with http:// or https://''
         else if trim (token s) = [] \<and> trim (vs_username s) = []
         then Inl ''enter the Stalwart admin username and password''
         else case http \<lparr>rq_get = True, rq_url = base @ ''/api/token/delivery'', rq_json = None, rq_accept = None,
                        rq_bearer = server_bearer s, rq_basic = server_basic s\<rparr> of
           Inl e \<Rightarrow> Inl (''could not reach '' @ base @ '': '' @ e)
         | Inr (code, text) \<Rightarrow>
             if code = 200 then Inr (''login ok '' @ [CHR 0xE2, CHR 0x80, CHR 0x94] @ '' LiveDeliveryTest permission is present'')
             else if code = 401 then Inl ''wrong username or password''
             else if code = 403 then Inl ''logged in, but this account lacks LiveDeliveryTest permission''
             else if code = 404 then Inl ''this Stalwart build has no /api/token/delivery endpoint''
             else Inl (''HTTP '' @ dec code @ '' '' @ first_chars 180 text))"

end
