(* ===== verification/Dispatch.thy ===== *)
theory Dispatch
  imports AppState Validation
begin

text \<open>Submission and delivery (src/dispatch.rs): routing, reserving, rewriting, sending and classifying, and
  the worker that drains the queue. What the libraries, the clocks and the upstream relays answer is
  gathered in a record \<open>world\<close>; the rounds of one attempt are numbered, and each has its own answers.
  The definitions are one task running alone; \<open>None\<close> is a panic of the message rewriter.\<close>

section \<open>Messages and outcomes\<close>

record inbound_message =
  in_id :: str
  in_sender :: str
  in_recipients :: "str list"
  in_raw :: bytes
  in_client_ip :: "ip_addr option"
  in_helo :: str
  in_auth_user :: "str option"

datatype submit_outcome = SubDelivered str str | SubQueued | SubRejected nat str str

datatype attempt_outcome = AtDelivered str str | AtDeferred str | AtFailed str

text \<open>\<open>w_send k n\<close> is the upstream answer of relay \<open>n\<close> in round \<open>k\<close>; \<open>w_clock k\<close> and \<open>w_clock_after k\<close> the
  clock before and after it.\<close>

record ('addr, 'env) world =
  w_b64d :: "str \<Rightarrow> bytes option"
  w_b64e :: "bytes \<Rightarrow> str"
  w_hash :: "str \<Rightarrow> nat"
  w_powf :: "f64 \<Rightarrow> f64 \<Rightarrow> f64"
  w_parse :: "str \<Rightarrow> str + 'addr"
  w_envelope :: "'addr option \<Rightarrow> 'addr list \<Rightarrow> str + 'env"
  w_send :: "nat \<Rightarrow> nat \<Rightarrow> 'env \<Rightarrow> bytes \<Rightarrow> smtp_error + nat \<times> str list"
  w_latency :: "nat \<Rightarrow> nat"
  w_clock :: "nat \<Rightarrow> clock"
  w_clock_after :: "nat \<Rightarrow> clock"
  w_date :: "nat \<Rightarrow> str"
  w_received_date :: "nat \<Rightarrow> str"
  w_nonce :: "nat \<Rightarrow> str"
  w_call :: "str \<Rightarrow> yahoo_endpoint \<Rightarrow> str + bool \<times> str"
  w_probe :: "str \<Rightarrow> validation_server \<Rightarrow> probe_outcome"
  w_debug :: "probe_outcome \<Rightarrow> str"
  w_rr :: u64
  w_now :: int
  w_write :: write_result
  w_dumped :: bool

section \<open>Bookkeeping\<close>

definition count :: "(counters \<Rightarrow> counters) \<Rightarrow> app_state \<Rightarrow> app_state" where
  "count f st = st\<lparr>app_metrics := count_up f (app_metrics st)\<rparr>"

definition sample :: "int \<Rightarrow> sample \<Rightarrow> app_state \<Rightarrow> app_state" where
  "sample now s st =
     (let me = app_metrics st in st\<lparr>app_metrics := me\<lparr>me_series := record_sample (now div 1000) s (me_series me)\<rparr>\<rparr>)"

definition observe_latency :: "nat \<Rightarrow> app_state \<Rightarrow> app_state" where
  "observe_latency ms st = (let me = app_metrics st in st\<lparr>app_metrics := me\<lparr>me_latency := observe ms (me_latency me)\<rparr>\<rparr>)"

definition log_message :: "int \<Rightarrow> str \<Rightarrow> (message_record \<Rightarrow> message_record) \<Rightarrow> app_state \<Rightarrow> app_state" where
  "log_message now i f st =
     (let me = app_metrics st in st\<lparr>app_metrics := me\<lparr>me_activity := update_record now i f (me_activity me)\<rparr>\<rparr>)"

definition announce :: "int \<Rightarrow> event_kind \<Rightarrow> (str \<times> json) list \<Rightarrow> app_state \<Rightarrow> app_state" where
  "announce now k fs st = st\<lparr>app_events := publish now k (JObj fs) (app_events st)\<rparr>"

definition on_relay :: "nat \<Rightarrow> (relay_runtime \<Rightarrow> relay_runtime) \<Rightarrow> app_state \<Rightarrow> app_state" where
  "on_relay n f st = st\<lparr>app_pool := update_at n (f (relays (app_pool st) ! n)) (app_pool st)\<rparr>"

definition finish_deferred :: "int \<Rightarrow> queued_message \<Rightarrow> str \<Rightarrow> app_state \<Rightarrow> attempt_outcome \<times> app_state" where
  "finish_deferred now m reason st =
     (let st = count (\<lambda>c. c\<lparr>messages_deferred := messages_deferred c + 1\<rparr>) st;
          st = sample now Deferred st;
          error = truncate_str reason 500;
          st = log_message now (qm_id m) (\<lambda>r. r\<lparr>mr_status := StDeferred, mr_error := Some error\<rparr>) st;
          st = announce now EvMessage [(''id'', JStr (qm_id m)), (''status'', JStr ''deferred''),
                 (''attempts'', JInt (int (qm_attempts m))), (''error'', JStr error)] st
      in (AtDeferred error, st))"

definition finish_failed :: "int \<Rightarrow> queued_message \<Rightarrow> str \<Rightarrow> str \<Rightarrow> app_state \<Rightarrow> attempt_outcome \<times> app_state" where
  "finish_failed now m relay_id reason st =
     (let st = count (\<lambda>c. c\<lparr>messages_failed := messages_failed c + 1\<rparr>) st;
          st = sample now Failed st;
          error = truncate_str reason 500;
          st = log_message now (qm_id m) (\<lambda>r. r\<lparr>mr_status := StFailed, mr_relay_id := Some relay_id, mr_error := Some error\<rparr>) st;
          st = announce now EvMessage [(''id'', JStr (qm_id m)), (''status'', JStr ''failed''),
                 (''relay'', JStr relay_id), (''error'', JStr error)] st
      in (AtFailed error, st))"

section \<open>One relay\<close>

definition finish_delivered ::
  "('addr, 'env) world \<Rightarrow> nat \<Rightarrow> nat \<Rightarrow> queued_message \<Rightarrow> rewritten \<Rightarrow> str \<Rightarrow> app_state \<Rightarrow> attempt_outcome \<times> app_state" where
  "finish_delivered w k n m rw response st =
     (let i = id_of (relays (app_pool st) ! n);
          size = length (rw_raw rw);
          ms = w_latency w k;
          st = on_relay n (record_delivery (w_clock_after w k) size ms (config.health (app_config st))) st;
          st = count (\<lambda>c. c\<lparr>messages_delivered := messages_delivered c + 1, bytes_delivered := bytes_delivered c + of_nat size\<rparr>) st;
          st = sample (w_now w) Delivered st;
          st = observe_latency ms st;
          st = log_message (w_now w) (qm_id m) (\<lambda>r. r\<lparr>mr_status := StDelivered, mr_relay_id := Some i,
                 mr_envelope_from := rw_envelope_from rw, mr_reply_to := rw_reply_to rw, mr_latency_ms := Some ms,
                 mr_error := None, mr_notes := rw_notes rw\<rparr>) st;
          st = announce (w_now w) EvMessage [(''id'', JStr (qm_id m)), (''status'', JStr ''delivered''), (''relay'', JStr i),
                 (''latency_ms'', JInt (int ms)), (''recipients'', JInt (int (length (qm_recipients m)))),
                 (''subject'', opt_json (qm_subject m))] st
      in (AtDelivered i response, st))"

text \<open>What a round leaves the loop with: an outcome, or the relays tried and the lasterr error, and whether to
  go on.\<close>

datatype round_result = Stop attempt_outcome | Next bool "str list" "delivery_error option"

definition handle_failure ::
  "('addr, 'env) world \<Rightarrow> nat \<Rightarrow> nat \<Rightarrow> queued_message \<Rightarrow> str list \<Rightarrow> delivery_error \<Rightarrow> app_state \<Rightarrow> round_result \<times> app_state" where
  "handle_failure w k n m attempted e st =
     (let i = id_of (relays (app_pool st) ! n); st = on_relay n release_quota st
      in if should_retry e
         then let tripped = fst (record_deferral (w_clock_after w k) (Delivery.message e) (config.health (app_config st))
                              (relays (app_pool st) ! n));
                  st = on_relay n (\<lambda>r. snd (record_deferral (w_clock_after w k) (Delivery.message e)
                         (config.health (app_config st)) r)) st;
                  st = (if tripped
                        then announce (w_now w) EvRelay [(''id'', JStr i), (''action'', JStr ''circuit_opened''),
                               (''error'', JStr (Delivery.message e))] st
                        else st)
              in (Next (fallback_on_failure (config.routing (app_config st))) attempted (Some e), st)
         else let st = on_relay n (record_permanent_failure (w_clock_after w k) (Delivery.message e)) st;
                  (out, st) = finish_failed (w_now w) m i (error_str e) st
              in (Stop out, st))"

definition context_for :: "app_state \<Rightarrow> nat \<Rightarrow> queued_message \<Rightarrow> content_template option \<Rightarrow> rewrite_context" where
  "context_for st n m rot = \<lparr>cx_rewrite = config.rewrite (app_config st), cx_relay = rcfg (relays (app_pool st) ! n),
     cx_hostname = hostname (server (app_config st)), cx_queue_id = qm_id m, cx_client_ip = client_ip m,
     cx_helo = qm_helo m, cx_sender = qm_sender m, cx_rotation = rot\<rparr>"

fun message_error_str :: "message_error \<Rightarrow> str" where
  "message_error_str NoHeaderSeparator = ''message has no header/body separator (malformed RFC 5322 message)''"

definition inbound_subject :: "('addr, 'env) world \<Rightarrow> queued_message \<Rightarrow> str" where
  "inbound_subject w m = or_empty (map_option (decode_encoded_words (w_b64d w)) (peek (raw m) ''subject''))"

definition rotation_note :: "app_state \<Rightarrow> content_template option \<Rightarrow> str \<Rightarrow> rewritten \<Rightarrow> rewritten" where
  "rotation_note st rot subject rw =
     (if ro_enabled (config.rotation (app_config st)) \<and> rot = None
      then rw\<lparr>rw_notes := rw_notes rw @ [''content rotation skipped: no template matched subject '' @ bq subject]\<rparr> else rw)"

definition rewrite_failed ::
  "('addr, 'env) world \<Rightarrow> nat \<Rightarrow> queued_message \<Rightarrow> message_error \<Rightarrow> app_state \<Rightarrow> round_result \<times> app_state" where
  "rewrite_failed w n m e st =
     (let i = id_of (relays (app_pool st) ! n);
          st = on_relay n release_quota st;
          st = count (\<lambda>c. c\<lparr>rewrite_errors := rewrite_errors c + 1\<rparr>) st;
          (out, st) = finish_failed (w_now w) m i (''could not rewrite the message: '' @ message_error_str e) st
      in (Stop out, st))"

text \<open>The relay is chosen, its quota reserved and its slot taken.\<close>

definition send_via ::
  "('addr, 'env) world \<Rightarrow> nat \<Rightarrow> nat \<Rightarrow> queued_message \<Rightarrow> str list \<Rightarrow> app_state \<Rightarrow> (round_result \<times> app_state) option" where
  "send_via w k n m attempted st =
     (let subject = inbound_subject w m;
          (rot, st) = next_rotation_template (w_b64d w) subject st
      in case rewrite_message (w_b64d w) (w_b64e w) (w_nonce w k) (w_date w k) (w_received_date w k)
                (context_for st n m rot) (raw m) of
           None \<Rightarrow> None
         | Some (Inl e) \<Rightarrow> Some (rewrite_failed w n m e st)
         | Some (Inr rw) \<Rightarrow>
             let rw = rotation_note st rot subject rw;
                 st = log_message (w_now w) (qm_id m) (\<lambda>r. r\<lparr>mr_from_header := rw_from_header rw,
                        mr_envelope_from := rw_envelope_from rw, mr_notes := rw_notes rw\<rparr>) st
             in Some
                 (case deliver (w_parse w) (w_envelope w) (w_send w k n) (rw_envelope_from rw) (qm_recipients m) (rw_raw rw) of
                    Inr response \<Rightarrow> (let (out, st) = finish_delivered w k n m rw response st in (Stop out, st))
                  | Inl e \<Rightarrow> handle_failure w k n m attempted e st))"

definition note_tried :: "str \<Rightarrow> queued_message \<Rightarrow> queued_message" where
  "note_tried i m = (if i \<in> set (tried_relays m) then m else m\<lparr>tried_relays := tried_relays m @ [i]\<rparr>)"

section \<open>One attempt\<close>

definition request_of :: "queued_message \<Rightarrow> str list \<Rightarrow> route_request" where
  "request_of m attempted = \<lparr>sender = original_from m, recipients = qm_recipients m, exclude = attempted,
     auth_user = qm_auth_user m, helo = qm_helo m\<rparr>"

definition no_route_reason :: "str \<Rightarrow> delivery_error option \<Rightarrow> str" where
  "no_route_reason msg lasterr =
     (case lasterr of Some e \<Rightarrow> msg @ '' (lasterr error: '' @ Delivery.message e @ '')'' | None \<Rightarrow> msg)"

definition one_round ::
  "('addr, 'env) world \<Rightarrow> nat \<Rightarrow> str list \<Rightarrow> delivery_error option \<Rightarrow> queued_message \<Rightarrow> app_state
     \<Rightarrow> (round_result \<times> queued_message \<times> app_state) option" where
  "one_round w k attempted lasterr m st =
     (case select (w_hash w) (w_clock w k) (request_of m attempted) (app_pool st) of
        (Inl msg, p) \<Rightarrow>
          let st = count (\<lambda>c. c\<lparr>routing_no_relay_available := routing_no_relay_available c + 1\<rparr>) (st\<lparr>app_pool := p\<rparr>);
              (out, st) = finish_deferred (w_now w) m (no_route_reason msg lasterr) st
          in Some (Stop out, m, st)
      | (Inr (n, why), p) \<Rightarrow>
          let st = st\<lparr>app_pool := p\<rparr>;
              i = id_of (relays p ! n);
              attempted = attempted @ [i];
              m = note_tried i m;
              (ok, r) = try_reserve_quota (w_clock w k) (relays p ! n);
              st = on_relay n (\<lambda>_. r) st
          in if \<not> ok then Some (Next True attempted lasterr, m, st)
             else map_option (\<lambda>(res, st). (res, m, on_relay n drop_guard st))
                    (send_via w k n m attempted (on_relay n begin_delivery st)))"

definition give_up :: "('addr, 'env) world \<Rightarrow> delivery_error option \<Rightarrow> queued_message \<Rightarrow> app_state \<Rightarrow> attempt_outcome \<times> app_state" where
  "give_up w lasterr m st =
     finish_deferred (w_now w) m (case lasterr of Some e \<Rightarrow> error_str e | None \<Rightarrow> ''no delivery attempt succeeded'') st"

fun rounds ::
  "('addr, 'env) world \<Rightarrow> nat \<Rightarrow> nat \<Rightarrow> str list \<Rightarrow> delivery_error option \<Rightarrow> queued_message \<Rightarrow> app_state
     \<Rightarrow> (attempt_outcome \<times> queued_message \<times> app_state) option" where
  "rounds w k 0 attempted lasterr m st = (let (out, st) = give_up w lasterr m st in Some (out, m, st))"
| "rounds w k (Suc left) attempted lasterr m st =
     (case one_round w k attempted lasterr m st of
        None \<Rightarrow> None
      | Some (Stop out, m, st) \<Rightarrow> Some (out, m, st)
      | Some (Next go attempted lasterr, m, st) \<Rightarrow>
          if go then rounds w (k + 1) left attempted lasterr m st
          else (let (out, st) = give_up w lasterr m st in Some (out, m, st)))"

definition check_line :: "recipient_check \<Rightarrow> str" where
  "check_line c = rc_address c @ '': '' @ rc_detail c"

definition run_rounds ::
  "('addr, 'env) world \<Rightarrow> queued_message \<Rightarrow> app_state \<Rightarrow> (attempt_outcome \<times> queued_message \<times> app_state) option" where
  "run_rounds w m st = rounds w 0 (max (max_attempts_per_message (config.routing (app_config st))) 1) [] None m st"

definition attempt_delivery ::
  "('addr, 'env) world \<Rightarrow> queued_message \<Rightarrow> app_state \<Rightarrow> (attempt_outcome \<times> queued_message \<times> app_state) option" where
  "attempt_delivery w m st =
     (let m = m\<lparr>qm_attempts := qm_attempts m + 1\<rparr>;
          st = log_message (w_now w) (qm_id m) (\<lambda>r. r\<lparr>mr_status := StSending, mr_attempts := qm_attempts m\<rparr>) st;
          v = config.validation (app_config st)
      in if qm_attempts m = 1 \<and> va_enabled v
         then let checks = fst (filter_recipients (w_call w) (w_probe w) (w_debug w) v (qm_recipients m) (w_rr w));
                  valid = map rc_address (filter rc_deliver checks);
                  skipped = map rc_address (filter (\<lambda>c. \<not> rc_deliver c) checks);
                  st = count (\<lambda>c. c\<lparr>validation_passed := validation_passed c + of_nat (length valid),
                         validation_skipped := validation_skipped c + of_nat (length skipped)\<rparr>) st;
                  st = log_message (w_now w) (qm_id m)
                         (\<lambda>r. r\<lparr>mr_notes := mr_notes r @ map check_line checks, mr_skipped := skipped\<rparr>) st
              in if valid = []
                 then let (out, st) = finish_failed (w_now w) m ''validation'' ''all recipients failed address validation'' st
                      in Some (out, m, st)
                 else run_rounds w (m\<lparr>qm_recipients := valid\<rparr>) st
         else run_rounds w m st)"

section \<open>Submission\<close>

definition enqueue_new :: "('addr, 'env) world \<Rightarrow> queued_message \<Rightarrow> app_state \<Rightarrow> submit_outcome \<times> app_state" where
  "enqueue_new w m st =
     (case enqueue (w_write w) m (app_queue st) of
        (Inr _, q) \<Rightarrow>
          let st = count (\<lambda>c. c\<lparr>queue_enqueued := queue_enqueued c + 1\<rparr>) (st\<lparr>app_queue := q\<rparr>);
              st = log_message (w_now w) (qm_id m) (\<lambda>r. r\<lparr>mr_status := StQueued\<rparr>) st;
              st = announce (w_now w) EvQueue [(''action'', JStr ''enqueued''), (''id'', JStr (qm_id m)),
                     (''depth'', JInt (int (depth q)))] st
          in (SubQueued, st)
      | (Inl e, q) \<Rightarrow>
          let st = count (\<lambda>c. c\<lparr>messages_rejected := messages_rejected c + 1\<rparr>) (st\<lparr>app_queue := q\<rparr>);
              st = log_message (w_now w) (qm_id m) (\<lambda>r. r\<lparr>mr_status := StRejected, mr_error := Some (enqueue_error_str e)\<rparr>) st
          in (SubRejected (case e of Full _ \<Rightarrow> 452 | Disabled \<Rightarrow> 451) ''4.3.1'' (enqueue_error_str e), st))"

definition schedule_retry :: "('addr, 'env) world \<Rightarrow> queued_message \<Rightarrow> app_state \<Rightarrow> submit_outcome \<times> app_state" where
  "schedule_retry w m st =
     (let delay = backoff_for (w_powf w) (config.queue (app_config st)) (max (qm_attempts m) 1);
          m = m\<lparr>next_attempt_at := w_now w + delay_ms delay\<rparr>
      in case enqueue (w_write w) m (app_queue st) of
           (Inr _, q) \<Rightarrow>
             let st = count (\<lambda>c. c\<lparr>queue_enqueued := queue_enqueued c + 1\<rparr>) (st\<lparr>app_queue := q\<rparr>);
                 st = log_message (w_now w) (qm_id m) (\<lambda>r. r\<lparr>mr_status := StQueued\<rparr>) st
             in (SubQueued, st)
         | (Inl e, q) \<Rightarrow>
             (SubRejected 451 ''4.3.1'' (''could not queue the message for retry: '' @ enqueue_error_str e), st\<lparr>app_queue := q\<rparr>))"

definition received_record :: "int \<Rightarrow> inbound_message \<Rightarrow> str \<Rightarrow> str option \<Rightarrow> message_record" where
  "received_record now msg original_from_raw subject =
     (new_record now (in_id msg))\<lparr>mr_original_from := (if original_from_raw = [] then in_sender msg else original_from_raw),
        mr_recipients := in_recipients msg, mr_subject := subject, mr_size_bytes := length (in_raw msg),
        mr_client_ip := map_option ip_str (in_client_ip msg)\<rparr>"

definition queued_of :: "int \<Rightarrow> inbound_message \<Rightarrow> str \<Rightarrow> str option \<Rightarrow> queued_message" where
  "queued_of now msg from subject = \<lparr>qm_id = in_id msg, qm_sender = in_sender msg, qm_recipients = in_recipients msg,
     original_from = from, qm_subject = subject, client_ip = in_client_ip msg, qm_helo = in_helo msg, received_at = now,
     qm_attempts = 0, next_attempt_at = now, tried_relays = [], qm_last_error = None, qm_auth_user = in_auth_user msg,
     raw = in_raw msg\<rparr>"

definition receive :: "('addr, 'env) world \<Rightarrow> inbound_message \<Rightarrow> app_state \<Rightarrow> queued_message \<times> app_state" where
  "receive w msg st =
     (let from_raw = or_empty (peek (in_raw msg) ''from'');
          from = (case parse_mailbox from_raw of Some mb \<Rightarrow> mb_address mb | None \<Rightarrow> in_sender msg);
          subject = map_option (decode_encoded_words (w_b64d w)) (peek (in_raw msg) ''subject'');
          st = count (\<lambda>c. c\<lparr>messages_received := messages_received c + 1,
                 recipients_total := recipients_total c + of_nat (length (in_recipients msg)),
                 bytes_received := bytes_received c + of_nat (length (in_raw msg))\<rparr>) st;
          st = sample (w_now w) Received st;
          st = (if dump_inbound (config.logging (app_config st)) then remember_inbound (w_dumped w) (in_id msg) (in_raw msg) st else st);
          me = app_metrics st;
          st = st\<lparr>app_metrics := me\<lparr>me_activity := push_record (received_record (w_now w) msg from_raw subject) (me_activity me)\<rparr>\<rparr>
      in (queued_of (w_now w) msg from subject, st))"

definition rejection :: "str \<Rightarrow> submit_outcome" where
  "rejection error = SubRejected 550 ''5.7.1'' (''upstream relay rejected the message: '' @ error)"

definition submit :: "('addr, 'env) world \<Rightarrow> inbound_message \<Rightarrow> app_state \<Rightarrow> (submit_outcome \<times> app_state) option" where
  "submit w msg st =
     (let mode = submission_mode (server (app_config st)); (m, st) = receive w msg st
      in case mode of
           ModeQueue \<Rightarrow> Some (enqueue_new w m st)
         | ModeDirect \<Rightarrow>
             map_option (\<lambda>(out, m, st). (case out of
                 AtDelivered i response \<Rightarrow> SubDelivered i response
               | AtDeferred error \<Rightarrow> SubRejected 451 ''4.4.1'' (''upstream relay unavailable: '' @ error)
               | AtFailed error \<Rightarrow> rejection error, st)) (attempt_delivery w m st)
         | ModeHybrid \<Rightarrow>
             map_option (\<lambda>(out, m, st). case out of
                 AtDelivered i response \<Rightarrow> (SubDelivered i response, st)
               | AtDeferred error \<Rightarrow> schedule_retry w (m\<lparr>qm_last_error := Some error\<rparr>) st
               | AtFailed error \<Rightarrow> (rejection error, st)) (attempt_delivery w m st))"

section \<open>The worker\<close>

definition completed :: "int \<Rightarrow> str \<Rightarrow> app_state \<Rightarrow> app_state" where
  "completed now i st =
     (let st = st\<lparr>app_queue := finish i (app_queue st)\<rparr>
      in announce now EvQueue [(''action'', JStr ''completed''), (''id'', JStr i), (''depth'', JInt (int (depth (app_queue st))))] st)"

definition buried :: "int \<Rightarrow> queued_message \<Rightarrow> str \<Rightarrow> app_state \<Rightarrow> app_state" where
  "buried now m error st =
     (let i = qm_id m;
          st = st\<lparr>app_queue := finish i (app_queue st)\<rparr>;
          st = count (\<lambda>c. c\<lparr>messages_dead := messages_dead c + 1, messages_failed := messages_failed c + 1\<rparr>) st;
          st = sample now Failed st;
          st = log_message now i (\<lambda>r. r\<lparr>mr_status := StFailed, mr_error :=
                 Some (''gave up after '' @ dec (qm_attempts m) @ '' attempts: '' @ error)\<rparr>) st
      in announce now EvMessage [(''id'', JStr i), (''status'', JStr ''dead''),
           (''attempts'', JInt (int (qm_attempts m))), (''error'', JStr error)] st)"

definition postponed :: "('addr, 'env) world \<Rightarrow> queued_message \<Rightarrow> app_state \<Rightarrow> app_state" where
  "postponed w m st =
     (let delay = backoff_for (w_powf w) (config.queue (app_config st)) (qm_attempts m);
          st = st\<lparr>app_queue := requeue (w_write w) (w_now w) m delay (app_queue st)\<rparr>
      in announce (w_now w) EvQueue [(''action'', JStr ''deferred''), (''id'', JStr (qm_id m)),
           (''retry_in_seconds'', JInt (int delay)), (''depth'', JInt (int (depth (app_queue st))))] st)"

text \<open>One turn of the loop: whether a message was taken, and the state after it.\<close>

definition worker_turn :: "('addr, 'env) world \<Rightarrow> app_state \<Rightarrow> (bool \<times> app_state) option" where
  "worker_turn w st =
     (if shutting_down st then Some (False, st)
      else case take_due (w_now w) (app_queue st) of
        (None, q) \<Rightarrow> Some (False, st\<lparr>app_queue := q\<rparr>)
      | (Some m, q) \<Rightarrow>
          let st = st\<lparr>app_queue := q\<rparr>;
              st = (if 0 < qm_attempts m then count (\<lambda>c. c\<lparr>queue_retries := queue_retries c + 1\<rparr>) st else st)
          in map_option (\<lambda>(out, m', st). (True,
               case out of
                 AtDeferred error \<Rightarrow>
                   (let m' = m'\<lparr>qm_last_error := Some error\<rparr>
                    in if max_attempts (config.queue (app_config st)) \<le> qm_attempts m'
                       then buried (w_now w) m' error st else postponed w m' st)
               | _ \<Rightarrow> completed (w_now w) (qm_id m) st)) (attempt_delivery w m st))"


section \<open>What bookkeeping leaves alone\<close>

lemma bookkeeping_frame [simp]:
  "app_pool (count f st) = app_pool st" "app_queue (count f st) = app_queue st" "app_config (count f st) = app_config st"
  "app_pool (sample now s st) = app_pool st" "app_queue (sample now s st) = app_queue st"
  "app_config (sample now s st) = app_config st"
  "app_pool (observe_latency ms st) = app_pool st" "app_queue (observe_latency ms st) = app_queue st"
  "app_config (observe_latency ms st) = app_config st"
  "app_pool (log_message now i g st) = app_pool st" "app_queue (log_message now i g st) = app_queue st"
  "app_config (log_message now i g st) = app_config st"
  "app_pool (announce now k fs st) = app_pool st" "app_queue (announce now k fs st) = app_queue st"
  "app_config (announce now k fs st) = app_config st"
  "app_queue (on_relay n h st) = app_queue st" "app_config (on_relay n h st) = app_config st"
  by (simp_all add: count_def sample_def observe_latency_def log_message_def announce_def on_relay_def Let_def)

text \<open>The counters of the outcomes.\<close>

definition tally :: "app_state \<Rightarrow> u64 \<times> u64 \<times> u64" where
  "tally st = (let c = me_counters (app_metrics st) in (messages_delivered c, messages_failed c, messages_deferred c))"

lemma tally_frame [simp]:
  "tally (sample now s st) = tally st" "tally (observe_latency ms st) = tally st" "tally (log_message now i g st) = tally st"
  "tally (announce now k fs st) = tally st" "tally (on_relay n h st) = tally st" "tally (st\<lparr>app_pool := p\<rparr>) = tally st"
  "tally (st\<lparr>app_queue := q\<rparr>) = tally st"
  by (simp_all add: tally_def sample_def observe_latency_def log_message_def announce_def on_relay_def Let_def)

lemma tally_count:
  "tally (count f st) = (let c = f (me_counters (app_metrics st)) in (messages_delivered c, messages_failed c, messages_deferred c))"
  by (simp add: tally_def count_def count_up_def)

fun scored :: "attempt_outcome \<Rightarrow> u64 \<times> u64 \<times> u64 \<Rightarrow> u64 \<times> u64 \<times> u64" where
  "scored (AtDelivered i r) (d, f, l) = (d + 1, f, l)"
| "scored (AtFailed e) (d, f, l) = (d, f + 1, l)"
| "scored (AtDeferred e) (d, f, l) = (d, f, l + 1)"

lemma scored_tally:
  "scored (AtDelivered i r) (tally st) = (let c = me_counters (app_metrics st) in (messages_delivered c + 1, messages_failed c, messages_deferred c))"
  "scored (AtFailed e) (tally st) = (let c = me_counters (app_metrics st) in (messages_delivered c, messages_failed c + 1, messages_deferred c))"
  "scored (AtDeferred e) (tally st) = (let c = me_counters (app_metrics st) in (messages_delivered c, messages_failed c, messages_deferred c + 1))"
  by (simp_all add: tally_def Let_def)

fun is_delivered :: "attempt_outcome \<Rightarrow> bool" where
  "is_delivered (AtDelivered i r) = True"
| "is_delivered _ = False"

lemma finish_deferred_spec:
  assumes "finish_deferred now m reason st = (out, st')"
  shows "out = AtDeferred (truncate_str reason 500)" "app_pool st' = app_pool st" "app_queue st' = app_queue st"
    "app_config st' = app_config st" "tally st' = scored out (tally st)"
  using assms by (auto simp: finish_deferred_def Let_def tally_count scored_tally)

lemma finish_failed_spec:
  assumes "finish_failed now m i reason st = (out, st')"
  shows "out = AtFailed (truncate_str reason 500)" "app_pool st' = app_pool st" "app_queue st' = app_queue st"
    "app_config st' = app_config st" "tally st' = scored out (tally st)"
  using assms by (auto simp: finish_failed_def Let_def tally_count scored_tally)

section \<open>The budget of the relays\<close>

definition budgets :: "app_state \<Rightarrow> (relay_config \<times> nat \<times> nat) list" where
  "budgets st = map budget (relays (app_pool st))"

lemma budgets_frame [simp]:
  "budgets (count f st) = budgets st" "budgets (sample now s st) = budgets st" "budgets (observe_latency ms st) = budgets st"
  "budgets (log_message now i g st) = budgets st" "budgets (announce now k fs st) = budgets st"
  by (simp_all add: budgets_def)

lemma budgets_on_relay:
  "budgets (on_relay n f st) = (budgets st)[n := budget (f (relays (app_pool st) ! n))]"
  by (simp add: budgets_def on_relay_def update_at_def map_update)

lemma record_budget [simp]:
  "budget (record_delivery clk len ms h r) = budget r" "budget (snd (record_deferral clk e h r)) = budget r"
  "budget (record_permanent_failure clk e r) = budget r"
  by (auto simp: budget_def record_delivery_def record_deferral_def record_permanent_failure_def record_success_def
      record_failure_def Let_def)

lemma on_relay_same: "(\<And>r. budget (f r) = budget r) \<Longrightarrow> budgets (on_relay n f st) = budgets st"
  by (simp add: budgets_def on_relay_def update_at_def map_update_same)

fun spent :: "relay_config \<times> nat \<times> nat \<Rightarrow> relay_config \<times> nat \<times> nat" where
  "spent (c, f, t) = (c, f, t - 1)"

lemma budget_release: "budget (release_quota r) = spent (budget r)"
  by (simp add: budget_def release_quota_def Let_def)

lemma finish_delivered_spec:
  assumes "finish_delivered w k n m rw response st = (out, st')"
  shows "out = AtDelivered (id_of (relays (app_pool st) ! n)) response" "budgets st' = budgets st"
    "app_queue st' = app_queue st" "app_config st' = app_config st" "tally st' = scored out (tally st)"
proof -
  let ?st = "on_relay n (record_delivery (w_clock_after w k) (length (rw_raw rw)) (w_latency w k) (config.health (app_config st))) st"
  have "me_counters (app_metrics ?st) = me_counters (app_metrics st)" by (simp add: on_relay_def)
  then show "out = AtDelivered (id_of (relays (app_pool st) ! n)) response" "budgets st' = budgets st"
    "app_queue st' = app_queue st" "app_config st' = app_config st" "tally st' = scored out (tally st)"
    using assms by (auto simp: finish_delivered_def Let_def on_relay_same tally_count scored_tally)
qed

text \<open>What a round may end with, seen from its outcome.\<close>

fun outcome_of :: "round_result \<Rightarrow> attempt_outcome option" where
  "outcome_of (Stop out) = Some out"
| "outcome_of (Next go attempted e) = None"

definition scored_round :: "round_result \<Rightarrow> u64 \<times> u64 \<times> u64 \<Rightarrow> u64 \<times> u64 \<times> u64" where
  "scored_round res t = (case outcome_of res of Some out \<Rightarrow> scored out t | None \<Rightarrow> t)"

fun delivers_round :: "round_result \<Rightarrow> bool" where
  "delivers_round (Stop out) = is_delivered out"
| "delivers_round (Next go attempted e) = False"

lemma handle_failure_spec:
  assumes "handle_failure w k n m attempted e st = (res, st')"
  shows "budgets st' = (budgets st)[n := spent (budget (relays (app_pool st) ! n))]" "\<not> delivers_round res"
    "app_queue st' = app_queue st" "app_config st' = app_config st" "tally st' = scored_round res (tally st)"
proof -
  have "budgets st' = (budgets st)[n := spent (budget (relays (app_pool st) ! n))] \<and> \<not> delivers_round res
      \<and> app_queue st' = app_queue st \<and> app_config st' = app_config st \<and> tally st' = scored_round res (tally st)"
  proof (cases "should_retry e")
    case True
    then show ?thesis using assms
      by (auto simp: handle_failure_def Let_def on_relay_same budgets_on_relay[of n release_quota] budget_release scored_round_def)
  next
    case False
    let ?st = "on_relay n (record_permanent_failure (w_clock_after w k) (Delivery.message e)) (on_relay n release_quota st)"
    obtain out st1 where f: "finish_failed (w_now w) m (id_of (relays (app_pool st) ! n)) (error_str e) ?st = (out, st1)"
      by (rule prod.exhaust)
    note s = finish_failed_spec[OF f]
    have "budgets st1 = budgets ?st" using s(2) by (simp add: budgets_def)
    then show ?thesis using assms False f s
      by (auto simp: handle_failure_def Let_def on_relay_same budgets_on_relay[of n release_quota] budget_release scored_round_def)
  qed
  then show "budgets st' = (budgets st)[n := spent (budget (relays (app_pool st) ! n))]" "\<not> delivers_round res"
    "app_queue st' = app_queue st" "app_config st' = app_config st" "tally st' = scored_round res (tally st)" by blast+
qed

section \<open>One round\<close>

lemma rewrite_failed_spec:
  assumes "rewrite_failed w n m e st = (res, st')"
  shows "budgets st' = (budgets st)[n := spent (budget (relays (app_pool st) ! n))]" "\<not> delivers_round res"
    "app_queue st' = app_queue st" "app_config st' = app_config st" "tally st' = scored_round res (tally st)"
proof -
  let ?st = "count (\<lambda>c. c\<lparr>rewrite_errors := rewrite_errors c + 1\<rparr>) (on_relay n release_quota st)"
  obtain out st1 where o: "finish_failed (w_now w) m (id_of (relays (app_pool st) ! n))
      (''could not rewrite the message: '' @ message_error_str e) ?st = (out, st1)" by (rule prod.exhaust)
  have r: "res = Stop out" "st' = st1"
    using assms unfolding rewrite_failed_def Let_def o prod.case by blast+
  note s = finish_failed_spec[OF o]
  have "tally ?st = tally st" by (simp add: tally_count) (simp add: tally_def on_relay_def Let_def)
  then show "tally st' = scored_round res (tally st)" using s(5) r by (simp add: scored_round_def)
  show "budgets st' = (budgets st)[n := spent (budget (relays (app_pool st) ! n))]"
    using s(2) r(2) budgets_on_relay[of n release_quota st] by (simp add: budgets_def budget_release)
  show "\<not> delivers_round res" using r(1) s(1) by simp
  show "app_queue st' = app_queue st" "app_config st' = app_config st" using s(3,4) r(2) by simp_all
qed

lemma send_via_spec:
  assumes "send_via w k n m attempted st = Some (res, st')" "n < length (relays (app_pool st))"
  shows "budgets st' = (if delivers_round res then budgets st else (budgets st)[n := spent (budgets st ! n)])"
    "app_queue st' = app_queue st" "app_config st' = app_config st" "tally st' = scored_round res (tally st)"
    "delivers_round res \<Longrightarrow> \<exists>response. res = Stop (AtDelivered (r_id (fst (budgets st ! n))) response)"
proof -
  obtain rot st1 where r: "next_rotation_template (w_b64d w) (inbound_subject w m) st = (rot, st1)" by (rule prod.exhaust)
  note f = next_rotation_frame[OF r]
  have t1: "tally st1 = tally st" "budgets st1 = budgets st" using f by (simp_all add: tally_def budgets_def)
  have b: "budget (relays (app_pool st1) ! n) = budgets st ! n" using f assms(2) by (simp add: budgets_def)
  let ?rw = "rewrite_message (w_b64d w) (w_b64e w) (w_nonce w k) (w_date w k) (w_received_date w k) (context_for st1 n m rot) (raw m)"
  let ?goal = "budgets st' = (if delivers_round res then budgets st else (budgets st)[n := spent (budgets st ! n)])
    \<and> app_queue st' = app_queue st \<and> app_config st' = app_config st \<and> tally st' = scored_round res (tally st)
    \<and> (delivers_round res \<longrightarrow> (\<exists>response. res = Stop (AtDelivered (r_id (fst (budgets st ! n))) response)))"
  note sv = assms(1)[unfolded send_via_def Let_def r prod.case]
  have "?rw \<noteq> None" using sv by (metis option.case(1) option.distinct(1))
  then obtain x where x: "?rw = Some x" by blast
  have ?goal
  proof (cases x)
    case (Inl e)
    have h: "rewrite_failed w n m e st1 = (res, st')" using sv unfolding x Inl option.case sum.case by blast
    show ?thesis using rewrite_failed_spec[OF h] f t1 b by simp
  next
    case (Inr rw0)
    define rw where "rw = rotation_note st1 rot (inbound_subject w m) rw0"
    define st2 where "st2 = log_message (w_now w) (qm_id m) (\<lambda>r. r\<lparr>mr_from_header := rw_from_header rw,
        mr_envelope_from := rw_envelope_from rw, mr_notes := rw_notes rw\<rparr>) st1"
    have t2: "tally st2 = tally st" "budgets st2 = budgets st" "app_pool st2 = app_pool st1"
      "app_queue st2 = app_queue st" "app_config st2 = app_config st" using t1 f by (simp_all add: st2_def)
    let ?out = "deliver (w_parse w) (w_envelope w) (w_send w k n) (rw_envelope_from rw) (qm_recipients m) (rw_raw rw)"
    have so: "(case ?out of
          Inr response \<Rightarrow> (case finish_delivered w k n m rw response st2 of (out, st) \<Rightarrow> (Stop out, st))
        | Inl e \<Rightarrow> handle_failure w k n m attempted e st2) = (res, st')"
      using sv unfolding x Inr option.case sum.case rw_def[symmetric] st2_def[symmetric] by blast
    show ?thesis
    proof (cases ?out)
      case (Inl e)
      then have h: "handle_failure w k n m attempted e st2 = (res, st')" using so by simp
      show ?thesis using handle_failure_spec[OF h] t2 b by simp
    next
      case (Inr response)
      then obtain out where h: "finish_delivered w k n m rw response st2 = (out, st')" "res = Stop out"
        using so by (auto split: prod.splits)
      have "id_of (relays (app_pool st2) ! n) = r_id (fst (budgets st ! n))" using b t2(3) by (simp add: id_of_def budget_def flip: b)
      then show ?thesis using finish_delivered_spec[OF h(1)] h(2) t2 by (simp add: scored_round_def)
    qed
  qed
  then show "budgets st' = (if delivers_round res then budgets st else (budgets st)[n := spent (budgets st ! n)])"
    "app_queue st' = app_queue st" "app_config st' = app_config st" "tally st' = scored_round res (tally st)"
    "delivers_round res \<Longrightarrow> \<exists>response. res = Stop (AtDelivered (r_id (fst (budgets st ! n))) response)" by blast+
qed

lemma candidates_view: "pool_view (snd (candidates clk req p)) = pool_view p"
proof (cases "fst (candidates clk req p)")
  case (Inl e)
  then show ?thesis
    by (auto simp: candidates_def Let_def dest: eligible_among_spec(2) general_candidates_spec(4)
        split: option.splits prod.splits if_splits)
next
  case (Inr r)
  then show ?thesis using candidates_spec(3)[of clk req p "fst r" "snd r" "snd (candidates clk req p)"]
    by (cases "candidates clk req p") simp
qed

lemma select_view:
  assumes "select hash clk req p = (r, q)"
  shows "pool_view q = pool_view p"
proof (cases r)
  case (Inl e)
  obtain c p1 where c: "candidates clk req p = (c, p1)" by (rule prod.exhaust)
  have v: "pool_view p1 = pool_view p" using candidates_view[of clk req p] c by simp
  show ?thesis using assms Inl c v explain_empty_view[of clk req p1]
    by (auto simp: select_def split: if_splits sum.splits prod.splits option.splits list.splits)
next
  case (Inr x)
  obtain n why where "select hash clk req p = (Inr (n, why), q)" using assms Inr by (cases x) simp
  from select_from_candidates[OF this] candidates_spec(3) show ?thesis by metis
qed

fun reserved :: "relay_config \<times> nat \<times> nat \<Rightarrow> relay_config \<times> nat \<times> nat" where
  "reserved (c, f, t) = (c, f, t + 1)"

fun busier :: "relay_config \<times> nat \<times> nat \<Rightarrow> relay_config \<times> nat \<times> nat" where
  "busier (c, f, t) = (c, f + 1, t)"

fun idler :: "relay_config \<times> nat \<times> nat \<Rightarrow> relay_config \<times> nat \<times> nat" where
  "idler (c, f, t) = (c, f - 1, t)"

lemma budget_steps:
  "budget (snd (try_reserve_quota clk r)) = (if fst (try_reserve_quota clk r) then reserved (budget r) else budget r)"
  "budget (begin_delivery r) = busier (budget r)" "budget (drop_guard r) = idler (budget r)"
  "idler (busier x) = x" "idler (spent (busier (reserved x))) = x" "idler (busier (reserved x)) = reserved x"
  "fst (reserved x) = fst x" "fst (busier x) = fst x"
  by (cases x; simp add: budget_def try_reserve_quota_def begin_delivery_def drop_guard_def Let_def)+

text \<open>The books of the relays after a round: only a delivery is charged, once, to the relay that made it.\<close>

definition charged :: "str \<Rightarrow> app_state \<Rightarrow> app_state \<Rightarrow> bool" where
  "charged i st st' = (\<exists>n<length (budgets st). r_id (fst (budgets st ! n)) = i
     \<and> budgets st' = (budgets st)[n := reserved (budgets st ! n)])"

fun settled :: "attempt_outcome option \<Rightarrow> app_state \<Rightarrow> app_state \<Rightarrow> bool" where
  "settled (Some (AtDelivered i r)) st st' = charged i st st'"
| "settled _ st st' = (budgets st' = budgets st)"

lemma settled_unfold:
  "settled out st st' = (case out of Some (AtDelivered i r) \<Rightarrow> charged i st st' | _ \<Rightarrow> budgets st' = budgets st)"
  by (cases "(out, st, st')" rule: settled.cases) auto

text \<open>A message after some rounds: relays were added to its history, nothing else.\<close>

definition tried_more :: "nat \<Rightarrow> queued_message \<Rightarrow> queued_message \<Rightarrow> bool" where
  "tried_more k m m' = (\<exists>new. length new \<le> k \<and> m' = m\<lparr>tried_relays := tried_relays m @ new\<rparr>)"

lemma tried_more_refl [simp]: "tried_more k m m"
  unfolding tried_more_def by (rule exI[of _ "[]"]) simp

lemma tried_more_note: "tried_more 1 m (note_tried i m)"
proof (cases "i \<in> set (tried_relays m)")
  case False
  then show ?thesis unfolding tried_more_def note_tried_def by (intro exI[of _ "[i]"]) simp
qed (simp add: note_tried_def)

lemma tried_more_trans:
  assumes "tried_more j m m'" "tried_more k m' m''"
  shows "tried_more (j + k) m m''"
proof -
  obtain xs ys where x: "length xs \<le> j" "m' = m\<lparr>tried_relays := tried_relays m @ xs\<rparr>"
    and y: "length ys \<le> k" "m'' = m'\<lparr>tried_relays := tried_relays m' @ ys\<rparr>"
    using assms unfolding tried_more_def by blast
  show ?thesis unfolding tried_more_def
    by (intro exI[of _ "xs @ ys"] conjI) (use x(1) y(1) in simp, simp add: x(2) y(2))
qed

lemma budgets_pool: "pool_view p = pool_view (app_pool st) \<Longrightarrow> budgets (st\<lparr>app_pool := p\<rparr>) = budgets st"
  by (drule pool_viewD(7)) (simp add: budgets_def)

lemma length_budgets: "length (budgets st) = length (relays (app_pool st))"
  by (simp add: budgets_def)

lemma one_round_spec:
  assumes "one_round w k attempted le m st = Some (res, m', st')"
  shows "settled (outcome_of res) st st'" "app_queue st' = app_queue st" "app_config st' = app_config st"
    "tally st' = scored_round res (tally st)" "tried_more 1 m m'"
proof -
  obtain x p where sel: "select (w_hash w) (w_clock w k) (request_of m attempted) (app_pool st) = (x, p)" by (rule prod.exhaust)
  define st1 where "st1 = st\<lparr>app_pool := p\<rparr>"
  have b1: "budgets st1 = budgets st" unfolding st1_def by (rule budgets_pool[OF select_view[OF sel]])
  have t1: "tally st1 = tally st" "app_queue st1 = app_queue st" "app_config st1 = app_config st" by (simp_all add: st1_def)
  have "settled (outcome_of res) st st' \<and> app_queue st' = app_queue st \<and> app_config st' = app_config st
      \<and> tally st' = scored_round res (tally st) \<and> tried_more 1 m m'"
  proof (cases x)
    case (Inl msg)
    let ?st = "count (\<lambda>c. c\<lparr>routing_no_relay_available := routing_no_relay_available c + 1\<rparr>) st1"
    obtain out st2 where f: "finish_deferred (w_now w) m (no_route_reason msg le) ?st = (out, st2)" by (rule prod.exhaust)
    have r: "res = Stop out" "m' = m" "st' = st2"
      using assms sel Inl f by (simp_all add: one_round_def st1_def)
    note s = finish_deferred_spec[OF f]
    have t: "tally ?st = tally st" using t1(1) by (simp add: tally_count) (simp add: tally_def Let_def)
    have "budgets st2 = budgets st" using s(2) b1 by (simp add: budgets_def)
    then show ?thesis using r s t t1 by (simp add: scored_round_def)
  next
    case (Inr y)
    obtain n why where y: "y = (n, why)" by (rule prod.exhaust)
    have n: "n < length (relays (app_pool st))" using select_sound sel Inr y by metis
    obtain ok r where q: "try_reserve_quota (w_clock w k) (relays p ! n) = (ok, r)" by (rule prod.exhaust)
    define st2 where "st2 = on_relay n (\<lambda>_. r) st1"
    define st3 where "st3 = on_relay n begin_delivery st2"
    let ?m = "note_tried (id_of (relays p ! n)) m" and ?b = "budgets st ! n"
    have n1: "n < length (relays p)" "n < length (budgets st)"
      using n pool_viewD(1)[OF select_view[OF sel]] by (simp_all add: length_budgets)
    have bp: "budget (relays p ! n) = ?b" using b1 n1 nth_map[of n "relays p" budget] by (simp add: budgets_def st1_def)
    have b2: "budgets st2 = (budgets st)[n := if ok then reserved ?b else ?b]"
      using b1 budget_steps(1)[of "w_clock w k" "relays p ! n"] q bp by (simp add: st2_def budgets_on_relay)
    have o: "(if \<not> ok then Some (Next True (attempted @ [id_of (relays p ! n)]) le, ?m, st2)
        else map_option (\<lambda>(res, st). (res, ?m, on_relay n drop_guard st))
               (send_via w k n ?m (attempted @ [id_of (relays p ! n)]) st3)) = Some (res, m', st')"
      using assms sel Inr y q unfolding one_round_def Let_def st1_def st2_def st3_def by simp
    show ?thesis
    proof (cases ok)
      case False
      then have r: "res = Next True (attempted @ [id_of (relays p ! n)]) le" "m' = ?m" "st' = st2" using o by auto
      then show ?thesis using b2 False t1 tried_more_note by (simp add: scored_round_def st2_def)
    next
      case True
      then obtain st4 where sv: "send_via w k n ?m (attempted @ [id_of (relays p ! n)]) st3 = Some (res, st4)"
        and r: "m' = ?m" "st' = on_relay n drop_guard st4" using o by auto
      have l2: "relays (app_pool st2) = (relays p)[n := r]" by (simp add: st2_def st1_def on_relay_def update_at_def)
      have "budget r = reserved ?b" using budget_steps(1)[of "w_clock w k" "relays p ! n"] q bp True by simp
      then have b3: "budgets st3 = (budgets st)[n := busier (reserved ?b)]"
        using b2 True l2 n1 by (simp add: st3_def budgets_on_relay budget_steps(2))
      have n3: "n < length (relays (app_pool st3))" using n1 b3 length_budgets[of st3] by simp
      note s = send_via_spec[OF sv n3]
      have l4: "length (budgets st4) = length (budgets st)" using s(1) b3 by (simp split: if_splits)
      then have "budget (relays (app_pool st4) ! n) = budgets st4 ! n"
        using n1 by (simp add: budgets_def)
      then have b': "budgets st' = (budgets st4)[n := idler (budgets st4 ! n)]"
        by (simp add: r(2) budgets_on_relay budget_steps(3))
      have "settled (outcome_of res) st st'"
      proof (cases "delivers_round res")
        case d: True
        then have "budgets st' = (budgets st)[n := reserved ?b]" using b' s(1) b3 n1 by (simp add: budget_steps)
        moreover obtain response where "res = Stop (AtDelivered (r_id (fst ?b)) response)"
          using s(5)[OF d] b3 n1 by (auto simp: budget_steps)
        ultimately show ?thesis using n1 by (auto simp: charged_def)
      next
        case False
        then have "budgets st' = budgets st" using b' s(1) b3 n1 by (simp add: budget_steps)
        moreover have "\<nexists>i e. outcome_of res = Some (AtDelivered i e)" using False by (cases res) auto
        ultimately show ?thesis by (auto simp: settled_unfold split: option.splits attempt_outcome.splits)
      qed
      then show ?thesis using s t1 r tried_more_note by (simp add: st3_def st2_def)
    qed
  qed
  then show "settled (outcome_of res) st st'" "app_queue st' = app_queue st" "app_config st' = app_config st"
    "tally st' = scored_round res (tally st)" "tried_more 1 m m'" by blast+
qed

section \<open>One attempt\<close>

lemma give_up_spec:
  assumes "give_up w le m st = (out, st')"
  shows "settled (Some out) st st'" "app_queue st' = app_queue st" "app_config st' = app_config st"
    "tally st' = scored out (tally st)"
  using finish_deferred_spec[OF assms[unfolded give_up_def]] by (simp_all add: budgets_def)

lemma settled_trans: "budgets st1 = budgets st \<Longrightarrow> settled out st1 st' \<Longrightarrow> settled out st st'"
  by (auto simp: settled_unfold charged_def split: option.splits attempt_outcome.splits)

lemma rounds_spec:
  assumes "rounds w k left attempted le m st = Some (out, m', st')"
  shows "settled (Some out) st st'" "app_queue st' = app_queue st" "app_config st' = app_config st"
    "tally st' = scored out (tally st)" "tried_more left m m'"
proof -
  have "settled (Some out) st st' \<and> app_queue st' = app_queue st \<and> app_config st' = app_config st
      \<and> tally st' = scored out (tally st) \<and> tried_more left m m'"
    using assms
  proof (induction left arbitrary: k attempted le m st)
    case 0
    then obtain o1 st1 where g: "give_up w le m st = (o1, st1)" "out = o1" "m' = m" "st' = st1"
      by (cases "give_up w le m st") simp
    show ?case using give_up_spec[OF g(1)] g(2-4) by simp
  next
    case (Suc left)
    obtain res m1 st1 where r: "one_round w k attempted le m st = Some (res, m1, st1)"
      using Suc.prems by (cases "one_round w k attempted le m st") auto
    note s = one_round_spec[OF r]
    show ?case
    proof (cases res)
      case (Stop o1)
      then have "out = o1" "m' = m1" "st' = st1" using Suc.prems r by simp_all
      moreover have "tried_more (Suc left) m m1" using tried_more_trans[OF s(5) tried_more_refl[of left]] by simp
      ultimately show ?thesis using s Stop by (simp add: scored_round_def)
    next
      case (Next go attempted' le')
      have b: "budgets st1 = budgets st" "tally st1 = tally st" using s(1,4) Next by (simp_all add: scored_round_def)
      show ?thesis
      proof (cases go)
        case True
        then have "rounds w (k + 1) left attempted' le' m1 st1 = Some (out, m', st')" using Suc.prems r Next by simp
        note IH = Suc.IH[OF this]
        moreover have "tried_more (Suc left) m m'" using tried_more_trans[OF s(5), of left m'] IH by simp
        ultimately show ?thesis using s b settled_trans[OF b(1), of "Some out" st'] by simp
      next
        case False
        then obtain o1 st2 where g: "give_up w le' m1 st1 = (o1, st2)" "out = o1" "m' = m1" "st' = st2"
          using Suc.prems r Next by (cases "give_up w le' m1 st1") simp
        moreover have "tried_more (Suc left) m m1" using tried_more_trans[OF s(5) tried_more_refl[of left]] by simp
        ultimately show ?thesis using give_up_spec[OF g(1)] s b settled_trans[OF b(1), of "Some o1" st2] by simp
      qed
    qed
  qed
  then show "settled (Some out) st st'" "app_queue st' = app_queue st" "app_config st' = app_config st"
    "tally st' = scored out (tally st)" "tried_more left m m'" by blast+
qed

text \<open>What an attempt does to the message: one more attempt, some more relays tried, and recipients only
  dropped.\<close>

definition attempted :: "config \<Rightarrow> queued_message \<Rightarrow> queued_message \<Rightarrow> bool" where
  "attempted c m m' = (\<exists>new rcpts. set rcpts \<subseteq> set (qm_recipients m)
     \<and> length new \<le> max (max_attempts_per_message (config.routing c)) 1
     \<and> m' = m\<lparr>qm_attempts := qm_attempts m + 1, tried_relays := tried_relays m @ new, qm_recipients := rcpts\<rparr>)"

lemma attempted_kept: "attempted c m m' \<Longrightarrow> qm_id m' = qm_id m \<and> qm_attempts m' = qm_attempts m + 1 \<and> raw m' = raw m
    \<and> set (qm_recipients m') \<subseteq> set (qm_recipients m)"
  by (auto simp: attempted_def)

lemma attemptedI:
  assumes "tried_more (max (max_attempts_per_message (config.routing c)) 1) (m\<lparr>qm_attempts := qm_attempts m + 1, qm_recipients := rcpts\<rparr>) m'"
    "set rcpts \<subseteq> set (qm_recipients m)"
  shows "attempted c m m'"
proof -
  obtain new where "length new \<le> max (max_attempts_per_message (config.routing c)) 1"
    "m' = m\<lparr>qm_attempts := qm_attempts m + 1, qm_recipients := rcpts, tried_relays := tried_relays m @ new\<rparr>"
    using assms(1) unfolding tried_more_def by auto
  then show ?thesis unfolding attempted_def using assms(2)
    by (intro exI[of _ new] exI[of _ rcpts] conjI) simp_all
qed

lemma check_each_addresses:
  "(\<And>a rr. rc_address (fst (chk a rr)) = a) \<Longrightarrow> map rc_address (fst (check_each chk as rr)) = as"
proof (induction as arbitrary: rr)
  case (Cons a as)
  then show ?case by (auto split: prod.splits) (metis fst_conv)+
qed simp

lemma check_recipient_address: "rc_address (fst (check_recipient call probe debug v a rr)) = a"
  by (auto simp: check_recipient_def check_yahoo_def decide_def Let_def split: prod.splits sum.splits option.splits)

lemma filter_recipients_addresses:
  "map rc_address (fst (filter_recipients call probe debug v rcpts rr)) = rcpts"
  by (auto simp: filter_recipients_def comp_def intro: check_each_addresses check_recipient_address)

lemma attempt_delivery_spec:
  assumes "attempt_delivery w m st = Some (out, m', st')"
  shows "settled (Some out) st st'" "app_queue st' = app_queue st" "app_config st' = app_config st"
    "tally st' = scored out (tally st)" "attempted (app_config st) m m'"
proof -
  define m1 where "m1 = m\<lparr>qm_attempts := qm_attempts m + 1\<rparr>"
  define st1 where "st1 = log_message (w_now w) (qm_id m) (\<lambda>r. r\<lparr>mr_status := StSending, mr_attempts := qm_attempts m1\<rparr>) st"
  let ?v = "config.validation (app_config st)"
  define checks where "checks = fst (filter_recipients (w_call w) (w_probe w) (w_debug w) ?v (qm_recipients m) (w_rr w))"
  define valid where "valid = map rc_address (filter rc_deliver checks)"
  define skipped where "skipped = map rc_address (filter (\<lambda>c. \<not> rc_deliver c) checks)"
  define st2 where "st2 = log_message (w_now w) (qm_id m) (\<lambda>r. r\<lparr>mr_notes := mr_notes r @ map check_line checks, mr_skipped := skipped\<rparr>)
      (count (\<lambda>c. c\<lparr>validation_passed := validation_passed c + of_nat (length valid),
                         validation_skipped := validation_skipped c + of_nat (length skipped)\<rparr>) st1)"
  have v: "set valid \<subseteq> set (qm_recipients m)"
    using filter_recipients_addresses[of "w_call w" "w_probe w" "w_debug w" ?v "qm_recipients m" "w_rr w"]
    by (metis checks_def valid_def filter_is_subset image_mono set_map)
  have c: "app_config st1 = app_config st" "budgets st1 = budgets st" "app_queue st1 = app_queue st" "tally st1 = tally st"
    by (simp_all add: st1_def)
  have c2: "app_config st2 = app_config st" "budgets st2 = budgets st" "app_queue st2 = app_queue st" "tally st2 = tally st"
    using c by (simp_all add: st2_def tally_count) (simp add: tally_def Let_def)
  have d: "(if qm_attempts m1 = 1 \<and> va_enabled ?v
      then if valid = []
           then (case finish_failed (w_now w) m1 ''validation'' ''all recipients failed address validation'' st2 of
                   (out, st) \<Rightarrow> Some (out, m1, st))
           else run_rounds w (m1\<lparr>qm_recipients := valid\<rparr>) st2
      else run_rounds w m1 st1) = Some (out, m', st')"
    using assms unfolding attempt_delivery_def Let_def st2_def skipped_def valid_def checks_def st1_def m1_def
    by (simp cong: if_cong)
  have run: "settled (Some out) st st' \<and> app_queue st' = app_queue st \<and> app_config st' = app_config st
      \<and> tally st' = scored out (tally st) \<and> attempted (app_config st) m m'"
    if "run_rounds w (m1\<lparr>qm_recipients := rcpts\<rparr>) st3 = Some (out, m', st')" "set rcpts \<subseteq> set (qm_recipients m)"
      "app_config st3 = app_config st" "budgets st3 = budgets st" "app_queue st3 = app_queue st" "tally st3 = tally st" for rcpts st3
  proof -
    note s = rounds_spec[OF that(1)[unfolded run_rounds_def]]
    show ?thesis using s that attemptedI[where c = "app_config st" and m = m and rcpts = rcpts and m' = m'] settled_trans[OF that(4) s(1)] by (simp add: m1_def)
  qed
  consider (all) "run_rounds w m1 st1 = Some (out, m', st')"
    | (some) "run_rounds w (m1\<lparr>qm_recipients := valid\<rparr>) st2 = Some (out, m', st')"
    | (none) st3 where "finish_failed (w_now w) m1 ''validation'' ''all recipients failed address validation'' st2 = (out, st3)"
        "m' = m1" "st' = st3"
    using d by (auto split: if_splits prod.splits)
  then have "settled (Some out) st st' \<and> app_queue st' = app_queue st \<and> app_config st' = app_config st
      \<and> tally st' = scored out (tally st) \<and> attempted (app_config st) m m'"
  proof cases
    case all
    then show ?thesis using run[of "qm_recipients m" st1] c by (simp add: m1_def)
  next
    case some
    then show ?thesis using run[OF _ v, of st2] c2 by simp
  next
    case none
    note s = finish_failed_spec[OF none(1)]
    have "attempted (app_config st) m m1"
      unfolding attempted_def m1_def by (intro exI[of _ "[]"] exI[of _ "qm_recipients m"] conjI) simp_all
    then show ?thesis using s none(2,3) c2 by (simp add: budgets_def)
  qed
  then show "settled (Some out) st st'" "app_queue st' = app_queue st" "app_config st' = app_config st"
    "tally st' = scored out (tally st)" "attempted (app_config st) m m'" by blast+
qed

section \<open>The worker\<close>

lemma worker_end:
  shows "app_queue (completed now i st) = finish i (app_queue st)" "app_config (completed now i st) = app_config st"
    "tally (completed now i st) = tally st"
    and "app_queue (buried now m e st) = finish (qm_id m) (app_queue st)" "app_config (buried now m e st) = app_config st"
    "tally (buried now m e st) = (case tally st of (d, f, l) \<Rightarrow> (d, f + 1, l))"
    and "app_queue (postponed w m st) = requeue (w_write w) (w_now w) m
        (backoff_for (w_powf w) (config.queue (app_config st)) (qm_attempts m)) (app_queue st)"
    "app_config (postponed w m st) = app_config st" "tally (postponed w m st) = tally st"
  by (simp_all add: completed_def buried_def postponed_def Let_def tally_count) (simp add: tally_def Let_def)

text \<open>A turn that takes a message: the attempt, and what is done with its outcome.\<close>

definition settle_message :: "('addr, 'env) world \<Rightarrow> queued_message \<Rightarrow> attempt_outcome \<Rightarrow> queued_message \<Rightarrow> app_state \<Rightarrow> app_state" where
  "settle_message w m out m' st =
     (case out of
        AtDeferred error \<Rightarrow>
          if max_attempts (config.queue (app_config st)) \<le> qm_attempts m'
          then buried (w_now w) (m'\<lparr>qm_last_error := Some error\<rparr>) error st
          else postponed w (m'\<lparr>qm_last_error := Some error\<rparr>) st
      | _ \<Rightarrow> completed (w_now w) (qm_id m) st)"

lemma worker_turn_cases:
  assumes "worker_turn w st = Some (True, st')"
  obtains m q out m' st1 where "take_due (w_now w) (app_queue st) = (Some m, q)" "attempted (app_config st) m m'"
    "app_queue st1 = q" "app_config st1 = app_config st" "tally st1 = scored out (tally st)" "settled (Some out) st st1"
    "st' = settle_message w m out m' st1"
proof -
  obtain m q where t: "take_due (w_now w) (app_queue st) = (Some m, q)"
    using assms by (auto simp: worker_turn_def split: if_splits prod.splits option.splits)
  define st0 where "st0 = (if 0 < qm_attempts m then count (\<lambda>c. c\<lparr>queue_retries := queue_retries c + 1\<rparr>) (st\<lparr>app_queue := q\<rparr>)
      else st\<lparr>app_queue := q\<rparr>)"
  have "\<not> shutting_down st" using assms by (auto simp: worker_turn_def split: if_splits)
  then obtain out m' st1 where a: "attempt_delivery w m st0 = Some (out, m', st1)" "st' = settle_message w m out m' st1"
    using assms t by (auto simp: worker_turn_def st0_def settle_message_def Let_def cong: attempt_outcome.case_cong)
  have c0: "app_queue st0 = q" "app_config st0 = app_config st" "tally st0 = tally st" "budgets st0 = budgets st"
    by (simp_all add: st0_def tally_count) (simp_all add: tally_def Let_def budgets_def)
  note s = attempt_delivery_spec[OF a(1)]
  show thesis
    using that[OF t _ _ _ _ _ a(2)] s c0 settled_trans[OF c0(4) s(1)] by simp
qed

definition retries_left :: "nat \<Rightarrow> queue \<Rightarrow> nat" where
  "retries_left mx q = sum_list (map (\<lambda>(k, m). max 1 (mx - qm_attempts m)) (scheduled q))"

lemma bt_insert_sum:
  "sum_list (map f (bt_insert k m xs)) \<le> f (k, m) + sum_list (map (f :: _ \<Rightarrow> nat) xs)"
  by (induction k m xs rule: bt_insert.induct) auto

lemma take_due_retries:
  "take_due now q = (Some m, q') \<Longrightarrow> retries_left mx q = max 1 (mx - qm_attempts m) + retries_left mx q'"
  by (auto simp: take_due_def retries_left_def split: list.splits if_splits)

lemma finish_retries: "retries_left mx (finish i q) = retries_left mx q"
  by (simp add: finish_def retries_left_def Let_def)

lemma requeue_retries: "retries_left mx (requeue wr now m d q) \<le> max 1 (mx - qm_attempts m) + retries_left mx q"
  using bt_insert_sum[of "\<lambda>(k, m). max 1 (mx - qm_attempts m)" "Key (now + delay_ms d) (sequence q)"
      "m\<lparr>next_attempt_at := now + delay_ms d\<rparr>" "scheduled q"]
  by (auto simp: requeue_def retries_left_def insert_message_def spool_if_def Let_def)

lemma worker_progress:
  assumes "worker_turn w st = Some (True, st')"
  shows "retries_left (max_attempts (config.queue (app_config st))) (app_queue st')
      < retries_left (max_attempts (config.queue (app_config st))) (app_queue st)" "app_config st' = app_config st"
proof -
  let ?mx = "max_attempts (config.queue (app_config st))"
  obtain m q out m' st1 where t: "take_due (w_now w) (app_queue st) = (Some m, q)" "attempted (app_config st) m m'"
    "app_queue st1 = q" "app_config st1 = app_config st" "st' = settle_message w m out m' st1"
    by (rule worker_turn_cases[OF assms])
  note k = attempted_kept[OF t(2)]
  note r = take_due_retries[OF t(1), of ?mx]
  have "retries_left ?mx (app_queue st') < retries_left ?mx (app_queue st) \<and> app_config st' = app_config st"
  proof (cases "\<exists>e. out = AtDeferred e \<and> \<not> ?mx \<le> qm_attempts m'")
    case True
    then obtain e where e: "out = AtDeferred e" "\<not> ?mx \<le> qm_attempts m'" by blast
    let ?m = "m'\<lparr>qm_last_error := Some e\<rparr>"
    have "st' = postponed w ?m st1" using t(4,5) e by (simp add: settle_message_def)
    moreover have "max 1 (?mx - qm_attempts ?m) < max 1 (?mx - qm_attempts m)" using k e(2) by simp
    moreover have "retries_left ?mx (app_queue (postponed w ?m st1)) \<le> max 1 (?mx - qm_attempts ?m) + retries_left ?mx q"
      using requeue_retries[of ?mx] t(3) by (simp only: worker_end)
    ultimately show ?thesis using r t(4) worker_end(8)[of w ?m st1] by (metis add_less_cancel_right order.strict_trans1)
  next
    case False
    then have "app_queue st' = finish (qm_id m) q \<and> app_config st' = app_config st"
      using t(3-5) k by (auto simp: settle_message_def worker_end split: attempt_outcome.splits)
    then show ?thesis using r by (simp add: finish_retries)
  qed
  then show "retries_left ?mx (app_queue st') < retries_left ?mx (app_queue st)" "app_config st' = app_config st" by blast+
qed

text \<open>How many turns in a row take a message.\<close>

fun busy_turns :: "('addr, 'env) world list \<Rightarrow> app_state \<Rightarrow> nat" where
  "busy_turns [] st = 0"
| "busy_turns (w # ws) st = (case worker_turn w st of Some (True, st') \<Rightarrow> Suc (busy_turns ws st') | _ \<Rightarrow> 0)"

section \<open>Properties\<close>

text \<open>C18. The worker stops: whatever the upstream relays, the clocks and the file system answer, a worker on a
  queue nothing is added to takes messages at most as often as the messages have retries left.\<close>

theorem worker_terminates:
  "busy_turns ws st \<le> retries_left (max_attempts (config.queue (app_config st))) (app_queue st)"
proof (induction ws arbitrary: st)
  case (Cons w ws)
  show ?case
  proof (cases "\<exists>st'. worker_turn w st = Some (True, st')")
    case True
    then obtain st' where t: "worker_turn w st = Some (True, st')" by blast
    then show ?thesis using Cons[of st'] worker_progress[OF t] by simp
  next
    case False
    then show ?thesis by (auto split: option.splits bool.splits)
  qed
qed simp

text \<open>C1. No message is lost or counted twice by a worker: a turn takes one due message and leaves every other
  as it is; the message either stays, with one more attempt and its body unchanged, below the limit of
  attempts, or it leaves the queue and exactly one message more is counted as delivered or failed. The
  queue's invariant, with its spool, holds again, and nothing stays in flight.\<close>

theorem worker_conservation:
  assumes "queue_inv (app_queue st)" "w_write w = Written" "worker_turn w st = Some (True, st')"
  shows "\<exists>m r. get_message (qm_id m) (app_queue st) = Some m \<and> next_attempt_at m \<le> w_now w
    \<and> (\<lambda>i. get_message i (app_queue st')) = (\<lambda>i. get_message i (app_queue st))(qm_id m := r)
    \<and> (case r of
         None \<Rightarrow> fst (tally st') + fst (snd (tally st')) = fst (tally st) + fst (snd (tally st)) + 1
       | Some m' \<Rightarrow> qm_attempts m' = qm_attempts m + 1 \<and> raw m' = raw m \<and> set (qm_recipients m') \<subseteq> set (qm_recipients m)
           \<and> qm_attempts m' < max_attempts (config.queue (app_config st))
           \<and> fst (tally st') + fst (snd (tally st')) = fst (tally st) + fst (snd (tally st)))
    \<and> queue_inv (app_queue st') \<and> flying_ids (app_queue st') = flying_ids (app_queue st)"
proof -
  obtain m q out m' st1 where t: "take_due (w_now w) (app_queue st) = (Some m, q)" "attempted (app_config st) m m'"
    "app_queue st1 = q" "app_config st1 = app_config st" "tally st1 = scored out (tally st)" "st' = settle_message w m out m' st1"
    by (rule worker_turn_cases[OF assms(3)])
  note k = attempted_kept[OF t(2)]
  note d = dq.take_some[OF assms(1) t(1)]
  have ok: "queue_ok (app_queue st)" using assms(1) by (simp add: queue_inv_def)
  have due: "next_attempt_at m \<le> w_now w" using take_due_spec(3)[OF ok t(1)] .
  have nf: "qm_id m \<notin> flying_ids (app_queue st)" using d assms(1) by (auto simp: queue_inv_def)
  obtain a b c where tl: "tally st = (a, b, c)" by (cases "tally st") auto
  show ?thesis
  proof (cases "\<exists>e. out = AtDeferred e \<and> \<not> max_attempts (config.queue (app_config st)) \<le> qm_attempts m'")
    case True
    then obtain e where e: "out = AtDeferred e" "qm_attempts m' < max_attempts (config.queue (app_config st))" by auto
    let ?m = "m'\<lparr>qm_last_error := Some e\<rparr>"
    let ?d = "backoff_for (w_powf w) (config.queue (app_config st1)) (qm_attempts ?m)"
    have st': "st' = postponed w ?m st1" using t(4,6) e by (simp add: settle_message_def)
    have q': "app_queue st' = requeue Written (w_now w) ?m ?d q" using st' t(3) assms(2) worker_end(7)[of w ?m st1] by simp
    have id: "qm_id ?m = qm_id m" "queue_inv q" "qm_id ?m \<in> flying_ids q" using k d by simp_all
    then have ok1: "queue_ok q" "waiting q (qm_id ?m) = None" by (auto simp: queue_inv_def)
    have g: "(\<lambda>i. get_message i (app_queue st')) = (\<lambda>i. get_message i (app_queue st))
        (qm_id m := Some (?m\<lparr>next_attempt_at := w_now w + delay_ms ?d\<rparr>))"
      using requeue_spec(2)[OF ok1] d id(1) by (auto simp: q' fun_eq_iff)
    have fi: "flying_ids (app_queue st') = flying_ids (app_queue st)" "queue_inv (app_queue st')"
      using dq.put_back[OF id(2,3), of "w_now w" ?d] d nf id(1) by (auto simp: q')
    have tt: "tally st' = (a, b, c + 1)" using st' t(5) tl e(1) by (simp add: worker_end)
    show ?thesis
      by (rule exI[of _ m], rule exI, intro conjI, use d in blast, rule due, rule g)
        (use k e(2) tt tl fi in auto)
  next
    case False
    then have q': "app_queue st' = finish (qm_id m) q"
      and tt: "fst (tally st') + fst (snd (tally st')) = fst (tally st) + fst (snd (tally st)) + 1"
      using t(3-6) k tl by (auto simp: settle_message_def worker_end split: attempt_outcome.splits)
    note f = dq.retired[of q "qm_id m"]
    have g: "(\<lambda>i. get_message i (app_queue st')) = (\<lambda>i. get_message i (app_queue st))(qm_id m := None)"
      and fi: "flying_ids (app_queue st') = flying_ids (app_queue st)" "queue_inv (app_queue st')"
      using f d nf by (auto simp: q')
    show ?thesis
      by (rule exI[of _ m], rule exI, intro conjI, use d in blast, rule due, rule g)
        (use tt fi in auto)
  qed
qed

definition idle_world :: "(unit, unit) world" where
  "idle_world = \<lparr>w_b64d = (\<lambda>_. None), w_b64e = (\<lambda>s. s), w_hash = (\<lambda>_. 0), w_powf = (\<lambda>x y. x), w_parse = (\<lambda>_. Inr ()),
     w_envelope = (\<lambda>_ _. Inr ()), w_send = (\<lambda>_ _ _ _. Inr (250, [])), w_latency = (\<lambda>_. 0), w_clock = (\<lambda>_. second 60),
     w_clock_after = (\<lambda>_. second 60), w_date = (\<lambda>_. []), w_received_date = (\<lambda>_. []), w_nonce = (\<lambda>_. []),
     w_call = (\<lambda>_ _. Inl []), w_probe = (\<lambda>_ s. ProbeFailed (vs_id s) []), w_debug = (\<lambda>_. []), w_rr = 0, w_now = 1000000,
     w_write = Written, w_dumped = False\<rparr>"

definition no_relays :: app_state where
  "no_relays = (sample_state default_config)\<lparr>app_pool := sample_pool []\<rparr>"

lemma no_relays_turn: "\<exists>st'. worker_turn idle_world no_relays = Some (True, st')"
  by (simp add: worker_turn_def idle_world_def no_relays_def sample_state_def one_waiting_def take_due_def enqueue_def
      insert_message_def new_queue_def default_queue_def sample_message_def attempt_delivery_def default_config_def
      default_validation_def run_rounds_def default_routing_def one_round_def select_def sample_pool_def
      finish_deferred_def Let_def numeral_eq_Suc)

theorem worker_conservation_witness:
  "\<exists>st'. worker_turn idle_world no_relays = Some (True, st') \<and> queue_inv (app_queue st')"
proof -
  obtain st' where t: "worker_turn idle_world no_relays = Some (True, st')" using no_relays_turn by blast
  have "queue_inv (app_queue no_relays)"
    using queue_inv_steps[OF one_waiting_steps queue_inv_new] by (simp add: no_relays_def sample_state_def)
  with worker_conservation[OF _ _ t] have "queue_inv (app_queue st')" by (auto simp: idle_world_def)
  then show ?thesis using t by blast
qed



end
