(* ===== verification/Health.thy ===== *)
theory Health
  imports Dispatch
begin

text \<open>The state of a relay as the dashboard shows it (the snapshot of src/relay/pool.rs), and the background
  health checks (src/relay/health.rs). Looking at a relay settles its breaker and rolls its windows, so a
  snapshot returns the relay after it; the clock is read once. The answer of a connection test is an
  argument, \<^const>\<open>None\<close> when it did not come in time.\<close>

section \<open>Snapshots\<close>

record relay_snapshot =
  sn_id :: str
  sn_host :: str
  sn_port :: nat
  sn_tls :: str
  sn_allow_invalid_certs :: bool
  sn_from_address :: str
  sn_from_same_as_username :: bool
  sn_align_envelope :: bool
  sn_description :: "str option"
  sn_tags :: "str list"
  sn_username :: "str option"
  sn_has_auth :: bool
  sn_smtp_detail_id :: "str option"
  sn_in_rotation_pool :: bool
  sn_weight :: nat
  sn_weight_percent :: f64
  sn_priority :: nat
  sn_max_concurrent :: nat
  sn_enabled :: bool
  sn_active :: bool
  sn_eligible :: bool
  sn_ineligible_reason :: "str option"
  sn_circuit_state :: circuit_state
  sn_healthy :: bool
  sn_manually_disabled :: bool
  sn_circuit_trips :: u64
  sn_cooldown_remaining_seconds :: "nat option"
  sn_in_flight :: nat
  sn_sent :: u64
  sn_failed :: u64
  sn_deferred :: u64
  sn_attempts :: u64
  sn_bytes_sent :: u64
  sn_average_latency_ms :: "f64 option"
  sn_last_latency_ms :: "u64 option"
  sn_consecutive_failures :: u32
  sn_last_error :: "str option"
  sn_last_error_at :: "int option"
  sn_last_success_at :: "int option"
  sn_last_probe_at :: "int option"
  sn_last_probe_ms :: "nat option"
  sn_minute_count :: nat
  sn_minute_limit :: "nat option"
  sn_hour_count :: nat
  sn_hour_limit :: "nat option"
  sn_day_count :: nat
  sn_day_limit :: "nat option"
  sn_total_reserved :: nat

definition average_latency :: "stats \<Rightarrow> f64 option" where
  "average_latency s =
     (if latency_count s = 0 then None
      else Some (f64_div (u64_to_f64 (unat (latency_sum_ms s))) (u64_to_f64 (unat (latency_count s)))))"

definition snapshot_of :: "clock \<Rightarrow> f64 \<Rightarrow> circuit_state \<Rightarrow> bool \<Rightarrow> str option \<Rightarrow> relay_runtime \<Rightarrow> relay_snapshot" where
  "snapshot_of clk percent cs eligible reason r =
     (let cfg = rcfg r; u = usage r; c = circuit r; s = stats r in
      \<lparr>sn_id = r_id cfg, sn_host = host cfg, sn_port = port cfg, sn_tls = tls_mode_str (tls cfg),
       sn_allow_invalid_certs = allow_invalid_certs cfg, sn_from_address = effective_from_address cfg,
       sn_from_same_as_username = from_same_as_username cfg, sn_align_envelope = align_envelope cfg,
       sn_description = description cfg, sn_tags = tags cfg, sn_username = map_option username (r_auth cfg),
       sn_has_auth = (r_auth cfg \<noteq> None), sn_smtp_detail_id = smtp_detail_id cfg,
       sn_in_rotation_pool = in_rotation_pool cfg, sn_weight = weight cfg, sn_weight_percent = percent,
       sn_priority = priority cfg, sn_max_concurrent = max_concurrent cfg, sn_enabled = r_enabled cfg,
       sn_active = active r, sn_eligible = eligible, sn_ineligible_reason = reason, sn_circuit_state = cs,
       sn_healthy = healthy c, sn_manually_disabled = manually_disabled c, sn_circuit_trips = trips c,
       sn_cooldown_remaining_seconds = (case open_until c of
          Some deadline \<Rightarrow> if mono clk \<le> deadline then Some ((deadline - mono clk) div secs 1) else None | None \<Rightarrow> None),
       sn_in_flight = in_flight r, sn_sent = sent s, sn_failed = failed s, sn_deferred = deferred s,
       sn_attempts = attempts s, sn_bytes_sent = bytes_sent s, sn_average_latency_ms = average_latency s,
       sn_last_latency_ms = (if last_latency_ms s = 0 then None else Some (last_latency_ms s)),
       sn_consecutive_failures = consecutive_failures c, sn_last_error = last_error c, sn_last_error_at = last_error_at c,
       sn_last_success_at = last_success_at c, sn_last_probe_at = last_probe_at c, sn_last_probe_ms = last_probe_ms c,
       sn_minute_count = minute_count u, sn_minute_limit = max_per_minute cfg, sn_hour_count = hour_count u,
       sn_hour_limit = max_per_hour cfg, sn_day_count = day_count u, sn_day_limit = max_per_day cfg,
       sn_total_reserved = total u\<rparr>)"

definition snapshot :: "clock \<Rightarrow> f64 \<Rightarrow> relay_runtime \<Rightarrow> relay_snapshot \<times> relay_runtime" where
  "snapshot clk percent r =
     (let (cs, r) = circuit_state clk r; (eligible, r) = is_eligible clk r; (reason, r) = ineligible_reason clk r;
          r = r\<lparr>usage := roll (utc clk) (usage r)\<rparr>
      in (snapshot_of clk percent cs eligible reason r, r))"

fun snapshots :: "clock \<Rightarrow> (str \<Rightarrow> f64 option) \<Rightarrow> relay_runtime list \<Rightarrow> relay_snapshot list \<times> relay_runtime list" where
  "snapshots clk shares [] = ([], [])"
| "snapshots clk shares (r # rs) =
     (let (s, r) = snapshot clk (case shares (id_of r) of Some p \<Rightarrow> p | None \<Rightarrow> Fin 0) r; (ss, rs) = snapshots clk shares rs
      in (s # ss, r # rs))"

definition pool_snapshot :: "clock \<Rightarrow> pool \<Rightarrow> relay_snapshot list \<times> pool" where
  "pool_snapshot clk p =
     (let (ss, rs) = snapshots clk (map_of (rev (weight_percentages p))) (relays p) in (ss, p\<lparr>relays := rs\<rparr>))"

definition active_count :: "pool \<Rightarrow> nat" where
  "active_count p = length (filter active (relays p))"

definition healthy_count :: "pool \<Rightarrow> nat" where
  "healthy_count p = length (filter (\<lambda>r. healthy (circuit r)) (relays p))"

fun rows :: "clock \<Rightarrow> relay_runtime list \<Rightarrow> relay_metrics_row list \<times> relay_runtime list" where
  "rows clk [] = ([], [])"
| "rows clk (r # rs) =
     (let (available, r') = is_eligible clk r; (ms, rs') = rows clk rs
      in (\<lparr>rm_id = id_of r, rm_available = available, rm_sent = unat (sent (stats r)), rm_failed = unat (failed (stats r)),
           rm_in_flight = in_flight r\<rparr> # ms, r' # rs'))"

definition metrics_rows :: "clock \<Rightarrow> pool \<Rightarrow> relay_metrics_row list \<times> pool" where
  "metrics_rows clk p = (let (ms, rs) = rows clk (relays p) in (ms, p\<lparr>relays := rs\<rparr>))"

section \<open>Probes\<close>

record probe_result =
  pr_relay_id :: str
  pr_ok :: bool
  pr_latency_ms :: "nat option"
  pr_error :: "str option"

text \<open>What is outside a probe: the clock before and after, the wall clock, the answer and its latency.\<close>

record probe_world =
  pw_before :: clock
  pw_after :: clock
  pw_wall :: int
  pw_answer :: "(smtp_error + bool) option"
  pw_latency :: nat

definition probe_outcome_of :: "probe_world \<Rightarrow> health_config \<Rightarrow> relay_runtime \<Rightarrow> probe_result \<times> relay_runtime" where
  "probe_outcome_of w h r =
     (let i = id_of r;
          lost = (\<lambda>error. (\<lparr>pr_relay_id = i, pr_ok = False, pr_latency_ms = None, pr_error = Some error\<rparr>,
             snd (record_failure (pw_after w) h error (record_probe (pw_after w) None r))))
      in case pw_answer w of
           None \<Rightarrow> lost (''probe timed out after '' @ dec (max (h_timeout_seconds h) 1) @ ''s'')
         | Some answer \<Rightarrow>
             (case probe_transport answer of
                Some error \<Rightarrow> lost (Delivery.message error)
              | None \<Rightarrow> (\<lparr>pr_relay_id = i, pr_ok = True, pr_latency_ms = Some (pw_latency w), pr_error = None\<rparr>,
                  record_success (pw_after w) h (pw_latency w) (record_probe (pw_after w) (Some (pw_latency w)) r))))"

definition probe :: "probe_world \<Rightarrow> nat \<Rightarrow> app_state \<Rightarrow> probe_result \<times> app_state" where
  "probe w n st =
     (let (was_eligible, r) = is_eligible (pw_before w) (relays (app_pool st) ! n);
          (result, r) = probe_outcome_of w (config.health (app_config st)) r;
          (now_eligible, r) = is_eligible (pw_after w) r;
          (reason, r') = ineligible_reason (pw_after w) r
      in if was_eligible = now_eligible then (result, st\<lparr>app_pool := update_at n r (app_pool st)\<rparr>)
         else (result, announce (pw_wall w) EvRelay
            [(''id'', JStr (pr_relay_id result)),
             (''action'', JStr (if now_eligible then ''recovered'' else ''unavailable'')),
             (''eligible'', JBool now_eligible), (''reason'', opt_json reason), (''error'', opt_json (pr_error result))]
            (st\<lparr>app_pool := update_at n r' (app_pool st)\<rparr>)))"

text \<open>The probes of a round in the order in which they end.\<close>

fun probe_all :: "(nat \<times> probe_world) list \<Rightarrow> app_state \<Rightarrow> probe_result list \<times> app_state" where
  "probe_all [] st = ([], st)"
| "probe_all ((n, w) # ps) st =
     (if n < length (relays (app_pool st))
      then let (result, st) = probe w n st; (results, st) = probe_all ps st in (result # results, st)
      else probe_all ps st)"

text \<open>One turn of the background loop after its sleep; \<open>ps\<close> is the round of probes. \<^const>\<open>None\<close> ends the loop.\<close>

definition health_turn :: "(nat \<times> probe_world) list \<Rightarrow> app_state \<Rightarrow> app_state option" where
  "health_turn ps st =
     (if \<not> h_enabled (config.health (app_config st)) \<or> shutting_down st then None else Some (snd (probe_all ps st)))"

definition health_start :: "(nat \<times> probe_world) list \<Rightarrow> app_state \<Rightarrow> app_state option" where
  "health_start ps st =
     (if \<not> h_enabled (config.health (app_config st)) then None
      else Some (if probe_on_start (config.health (app_config st)) then snd (probe_all ps st) else st))"

definition u64_json :: "u64 \<Rightarrow> json" where
  "u64_json w = JInt (uint w)"

definition stats_tick :: "clock \<Rightarrow> int \<Rightarrow> nat \<Rightarrow> nat \<Rightarrow> app_state \<Rightarrow> app_state" where
  "stats_tick clk wall subscribers uptime st =
     (if subscribers = 0 then st
      else let c = me_counters (app_metrics st); (n, p) = eligible_count clk (app_pool st)
           in announce wall EvStats
             [(''uptime_seconds'', JInt (int uptime)), (''queue_depth'', JInt (int (depth (app_queue st)))),
              (''queue_in_flight'', JInt (int (flying (app_queue st)))),
              (''messages_received'', u64_json (messages_received c)), (''messages_delivered'', u64_json (messages_delivered c)),
              (''messages_failed'', u64_json (messages_failed c)), (''messages_deferred'', u64_json (messages_deferred c)),
              (''connections_active'', u64_json (connections_active c)), (''relays_eligible'', JInt (int n)),
              (''relays_total'', JInt (int (length (relays p))))] (st\<lparr>app_pool := p\<rparr>))"

section \<open>What a probe leaves alone\<close>

text \<open>The choices of the operator and the accounts of the quota: the configuration, the live switch, the manual
  flag, the deliveries running and the messages reserved.\<close>

definition chosen :: "relay_runtime \<Rightarrow> relay_config \<times> bool \<times> bool \<times> nat \<times> nat" where
  "chosen r = (rcfg r, active r, manually_disabled (circuit r), in_flight r, total (usage r))"

lemma chosen_circuit: "manually_disabled c = manually_disabled (circuit r) \<Longrightarrow> chosen (r\<lparr>circuit := c\<rparr>) = chosen r"
  by (simp add: chosen_def)

lemma chosen_usage: "total u = total (usage r) \<Longrightarrow> chosen (r\<lparr>usage := u\<rparr>) = chosen r"
  by (simp add: chosen_def)

lemma chosen_observe [simp]:
  "chosen (snd (circuit_state clk r)) = chosen r" "chosen (snd (quota_exhausted clk r)) = chosen r"
  by (simp_all add: circuit_state_def quota_exhausted_def Let_def chosen_circuit chosen_usage roll_def)

lemma chosen_eligible [simp]:
  "chosen (snd (is_eligible clk r)) = chosen r" "chosen (snd (ineligible_reason clk r)) = chosen r"
  using chosen_observe(1)[of clk r] chosen_observe(2)[of clk "snd (circuit_state clk r)"]
  by (simp_all add: is_eligible_def ineligible_reason_def Let_def split_beta del: chosen_observe)

lemma chosen_recorded [simp]:
  "chosen (snd (record_failure clk h e r)) = chosen r" "chosen (record_success clk h ms r) = chosen r"
  "chosen (record_probe clk p r) = chosen r"
  by (simp_all add: chosen_def record_failure_def record_success_def record_probe_def Let_def del: max_less_iff_conj)

lemma chosen_probe_outcome: "chosen (snd (probe_outcome_of w h r)) = chosen r"
  by (simp add: probe_outcome_of_def Let_def split: option.split)

text \<open>\<open>st'\<close> is \<open>st\<close> but for the circuits and windows of the relays and the events.\<close>

definition same_choices :: "app_state \<Rightarrow> app_state \<Rightarrow> bool" where
  "same_choices st st' =
     (map chosen (relays (app_pool st')) = map chosen (relays (app_pool st))
      \<and> app_pool st' = (app_pool st)\<lparr>relays := relays (app_pool st')\<rparr>
      \<and> st' = st\<lparr>app_pool := app_pool st', app_events := app_events st'\<rparr>)"

lemma same_choices_refl: "same_choices st st"
  by (simp add: same_choices_def)

lemma same_choices_trans: "same_choices a b \<Longrightarrow> same_choices b c \<Longrightarrow> same_choices a c"
proof -
  assume ab: "same_choices a b" and bc: "same_choices b c"
  have "app_pool c = (app_pool a)\<lparr>relays := relays (app_pool c)\<rparr>"
    using ab bc by (cases "app_pool a"; cases "app_pool b"; cases "app_pool c") (auto simp: same_choices_def)
  moreover have "c = a\<lparr>app_pool := app_pool c, app_events := app_events c\<rparr>"
    using ab bc by (cases a; cases b; cases c) (auto simp: same_choices_def)
  moreover have "map chosen (relays (app_pool c)) = map chosen (relays (app_pool a))"
    using ab bc by (simp add: same_choices_def)
  ultimately show ?thesis by (simp add: same_choices_def)
qed

lemma same_choices_update:
  "chosen r = chosen (relays (app_pool st) ! n) \<Longrightarrow> same_choices st (st\<lparr>app_pool := update_at n r (app_pool st)\<rparr>)"
  by (simp add: same_choices_def update_at_def map_update_same)

lemma same_choices_announce: "same_choices st (announce now k fs st)"
  by (simp add: same_choices_def announce_def)

lemma probe_same: "same_choices st (snd (probe w n st))"
proof -
  let ?start = "relays (app_pool st) ! n"
  obtain b1 r1 where 1: "is_eligible (pw_before w) ?start = (b1, r1)" by (rule prod.exhaust)
  obtain res r2 where 2: "probe_outcome_of w (config.health (app_config st)) r1 = (res, r2)" by (rule prod.exhaust)
  obtain b3 r3 where 3: "is_eligible (pw_after w) r2 = (b3, r3)" by (rule prod.exhaust)
  obtain why r4 where 4: "ineligible_reason (pw_after w) r3 = (why, r4)" by (rule prod.exhaust)
  have c3: "chosen r3 = chosen ?start"
    using chosen_eligible(1)[of "pw_before w" ?start] chosen_probe_outcome[of w "config.health (app_config st)" r1]
      chosen_eligible(1)[of "pw_after w" r2] by (simp add: 1 2 3)
  moreover have c4: "chosen r4 = chosen ?start" using chosen_eligible(2)[of "pw_after w" r3] c3 by (simp add: 4)
  ultimately show ?thesis
    by (auto simp: probe_def 1 2 3 4 Let_def intro: same_choices_update same_choices_trans[OF same_choices_update same_choices_announce])
qed

lemma probe_all_same: "same_choices st (snd (probe_all ps st))"
proof (induction ps st rule: probe_all.induct)
  case (2 n w ps st)
  obtain res st1 where 1: "probe w n st = (res, st1)" by (rule prod.exhaust)
  show ?case using 2 probe_same[of st w n] 1 by (auto simp: split_beta intro: same_choices_trans)
qed (simp add: same_choices_refl)

section \<open>A relay enabled by a reload\<close>

lemma manual_step:
  "relay_step h r clk op r' \<Longrightarrow> op \<notin> {OpActivate, OpReset} \<Longrightarrow> manually_disabled (circuit r) \<Longrightarrow>
   manually_disabled (circuit r') \<and> (state (circuit r) \<noteq> Closed \<longrightarrow> state (circuit r') \<noteq> Closed)"
  by (erule relay_stepE) (auto simp: breaker_defs Let_def)

lemma manual_steps:
  "relay_steps h r ops r' \<Longrightarrow> \<forall>(clk, op)\<in>set ops. op \<notin> {OpActivate, OpReset} \<Longrightarrow> manually_disabled (circuit r) \<Longrightarrow>
   manually_disabled (circuit r') \<and> (state (circuit r) \<noteq> Closed \<longrightarrow> state (circuit r') \<noteq> Closed)"
proof (induction rule: relay_steps.induct)
  case (steps_cons r clk op r' ops r'')
  then show ?case using manual_step[OF steps_cons.hyps(1)] by auto
qed simp

section \<open>Properties\<close>


text \<open>A relay that was switched off by hand and is enabled again by a changed configuration is active but
  keeps the manual flag: once its breaker has tripped, no number of successful probes or deliveries closes it
  again, although the operator wants the relay on.\<close>

theorem reenabled_relay_never_recovers:
  assumes "r_enabled cfg" "relay_steps h (carry_over_from (snd (deactivate old)) False (new_relay cfg)) before r"
    and "state (circuit r) \<noteq> Closed" "relay_steps h r later r'"
    and "\<forall>(clk, op)\<in>set (before @ later). op \<notin> {OpActivate, OpReset}"
  shows "active (carry_over_from (snd (deactivate old)) False (new_relay cfg)) \<and> state (circuit r') \<noteq> Closed"
proof
  let ?start = "carry_over_from (snd (deactivate old)) False (new_relay cfg)"
  show "active ?start" using assms(1) by (simp add: carry_over_from_def new_relay_def Let_def)
  have "manually_disabled (circuit ?start)" by (simp add: carry_over_from_def deactivate_def Let_def)
  then have "manually_disabled (circuit r)" using manual_steps[OF assms(2)] assms(5) by auto
  then show "state (circuit r') \<noteq> Closed" using manual_steps[OF assms(4)] assms(3,5) by auto
qed

theorem reenabled_relay_never_recovers_witness:
  "(let cfg = default_relay\<lparr>r_enabled := True\<rparr>; h = default_health\<lparr>failure_threshold := 1, success_threshold := 1\<rparr>;
        r = snd (record_failure (second 5) h ''refused'' (carry_over_from (snd (deactivate (new_relay default_relay))) False (new_relay cfg)))
    in state (circuit (record_success (second 99) h 3 (snd (circuit_state (second 98) r)))) \<noteq> Closed)"
proof -
  let ?cfg = "default_relay\<lparr>r_enabled := True\<rparr>" and ?h = "default_health\<lparr>failure_threshold := 1, success_threshold := 1\<rparr>"
  let ?start = "carry_over_from (snd (deactivate (new_relay default_relay))) False (new_relay ?cfg)"
  let ?r = "snd (record_failure (second 5) ?h ''refused'' ?start)"
  have b: "relay_steps ?h ?start [(second 5, OpFailure ''refused'')] ?r"
    by (rule steps_cons[OF relay_step.intros(2) steps_nil])
  have l: "relay_steps ?h ?r [(second 98, OpObserve), (second 99, OpSuccess 3)]
      (record_success (second 99) ?h 3 (snd (circuit_state (second 98) ?r)))"
    by (rule steps_cons[OF relay_step.intros(10) steps_cons[OF relay_step.intros(1) steps_nil]])
  have t: "state (circuit ?r) \<noteq> Closed"
    by (simp add: record_failure_def carry_over_from_def deactivate_def new_relay_def new_circuit_def default_health_def sat_inc_def Let_def)
  have e: "r_enabled ?cfg" by simp
  have other: "\<forall>(clk, op)\<in>set ([(second 5, OpFailure ''refused'')] @ [(second 98, OpObserve), (second 99, OpSuccess 3)]).
      op \<notin> {OpActivate, OpReset}" by simp
  show ?thesis unfolding Let_def by (rule conjunct2[OF reenabled_relay_never_recovers[OF e b t l other]])
qed

end
