(* ===== verification/Lines.thy ===== *)
theory Lines
  imports Util
begin

text \<open>
  \<^verbatim>\<open>src/smtp/lines.rs\<close>: the bounded line reader over a socket. The socket is the list of
  what its next reads do: deliver bytes, fail, or deliver nothing until the timeout around the
  call fires; an empty list is a closed connection. Reading is defined on the buffer and position
  of the code, and refines a specification on the pending bytes alone (\<open>spec_line\<close>): how the
  network cut the stream into segments is invisible to the caller.
\<close>

section \<open>The reader\<close>

datatype read_event = Data bytes | ReadErr | Stall

text \<open>What an awaited read gives its caller: a value, an I/O error, or nothing because the
  enclosing \<^verbatim>\<open>tokio::time::timeout\<close> dropped the future.\<close>

datatype 'a io = Done 'a | Failed | Elapsed

datatype line_result = Line bytes | TooLong | Eof

record line_reader =
  inner :: "read_event list"
  buffer :: bytes
  position :: nat

definition CHUNK :: nat where
  "CHUNK = 16 * 1024"

definition new_reader :: "read_event list \<Rightarrow> line_reader" where
  "new_reader src = \<lparr>inner = src, buffer = [], position = 0\<rparr>"

definition buffered :: "line_reader \<Rightarrow> nat" where
  "buffered r = length (buffer r) - position r"

definition compact_if_drained :: "line_reader \<Rightarrow> line_reader" where
  "compact_if_drained r =
     (if position r = length (buffer r) then r\<lparr>buffer := [], position := 0\<rparr> else r)"

text \<open>A read that the timeout drops has already grown the buffer by a chunk of zero bytes, and
  the truncation after the await never runs.\<close>

definition fill :: "line_reader \<Rightarrow> nat io \<times> line_reader" where
  "fill r =
     (let drained = (if 0 < position r then drop (position r) (buffer r) else buffer r);
          r0 = r\<lparr>buffer := drained, position := 0\<rparr>
      in case inner r of
           [] \<Rightarrow> (Done 0, r0)
         | Data bs # rest \<Rightarrow>
             let got = take CHUNK bs
             in (Done (length got),
                 r0\<lparr>buffer := drained @ got,
                    inner := (if length bs \<le> CHUNK then rest else Data (drop CHUNK bs) # rest)\<rparr>)
         | ReadErr # rest \<Rightarrow> (Failed, r0\<lparr>inner := rest\<rparr>)
         | Stall # rest \<Rightarrow> (Elapsed, r0\<lparr>buffer := drained @ replicate CHUNK NUL, inner := rest\<rparr>))"

fun event_size :: "read_event \<Rightarrow> nat" where
  "event_size (Data bs) = Suc (length bs)"
| "event_size _ = 1"

abbreviation source_size :: "line_reader \<Rightarrow> nat" where
  "source_size r \<equiv> sum_list (map event_size (inner r))"

lemma fill_decreases:
  "fill r = (Done n, r') \<Longrightarrow> n \<noteq> 0 \<Longrightarrow> source_size r' < source_size r"
  by (auto simp: fill_def Let_def CHUNK_def split: list.splits read_event.splits if_splits)

section \<open>The loops\<close>

function discard_line :: "line_reader \<Rightarrow> unit io \<times> line_reader" where
  "discard_line r =
     (case find_byte (\<lambda>b. b = LF) (drop (position r) (buffer r)) of
        Some index \<Rightarrow> (Done (), compact_if_drained (r\<lparr>position := position r + (index + 1)\<rparr>))
      | None \<Rightarrow>
          (case fill (compact_if_drained (r\<lparr>position := length (buffer r)\<rparr>)) of
             (Done n, r') \<Rightarrow> if n = 0 then (Done (), r') else discard_line r'
           | (Failed, r') \<Rightarrow> (Failed, r')
           | (Elapsed, r') \<Rightarrow> (Elapsed, r')))"
  by pat_completeness auto
termination
proof (relation "measure source_size")
  fix r r' :: line_reader and n :: nat and y and z :: "nat io"
  assume "(z, r') = fill (compact_if_drained (r\<lparr>position := length (buffer r)\<rparr>))" "z = Done n" "n \<noteq> 0"
  then have "source_size r' < source_size (compact_if_drained (r\<lparr>position := length (buffer r)\<rparr>))"
    by (metis fill_decreases)
  then show "(r', r) \<in> measure source_size"
    by (simp add: compact_if_drained_def split: if_splits)
qed simp

definition finish_line :: "nat \<Rightarrow> bytes \<Rightarrow> line_result" where
  "finish_line max_len line = (if max_len < length line then TooLong else Line line)"

text \<open>One turn of the loop of \<^verbatim>\<open>read_line\<close>; \<open>scanned\<close> bytes after the position are known
  to hold no newline.\<close>

function read_line_loop :: "nat \<Rightarrow> nat \<Rightarrow> line_reader \<Rightarrow> line_result io \<times> line_reader" where
  "read_line_loop max_len scanned r =
     (case find_byte (\<lambda>b. b = LF) (drop (position r + scanned) (buffer r)) of
        Some index \<Rightarrow>
          let newline = scanned + index;
              end = (if 0 < newline \<and> buffer r ! (position r + newline - 1) = CR
                     then newline - 1 else newline);
              line = take end (drop (position r) (buffer r))
          in (Done (finish_line max_len line),
              compact_if_drained (r\<lparr>position := position r + (newline + 1)\<rparr>))
      | None \<Rightarrow>
          let scanned = buffered r
          in if usize_sat_add max_len 2 < scanned
             then (case discard_line r of
                     (Done _, r') \<Rightarrow> (Done TooLong, r')
                   | (Failed, r') \<Rightarrow> (Failed, r')
                   | (Elapsed, r') \<Rightarrow> (Elapsed, r'))
             else (case fill r of
                     (Done n, r') \<Rightarrow>
                       if n = 0
                       then if buffered r' = 0 then (Done Eof, r')
                            else (Done (finish_line max_len (drop (position r') (buffer r'))),
                                  compact_if_drained (r'\<lparr>position := length (buffer r')\<rparr>))
                       else read_line_loop max_len scanned r'
                   | (Failed, r') \<Rightarrow> (Failed, r')
                   | (Elapsed, r') \<Rightarrow> (Elapsed, r')))"
  by pat_completeness auto
termination
proof (relation "measure (\<lambda>(m, s, r). source_size r)")
  fix max_len scanned sc n :: nat and r r' :: line_reader and z :: "nat io" and p
  assume "(z, r') = fill r" "z = Done n" "n \<noteq> 0"
  then show "((max_len, sc, r'), (max_len, scanned, r)) \<in> measure (\<lambda>(m, s, r). source_size r)"
    using fill_decreases[of r n r'] by simp
qed simp

definition read_line :: "nat \<Rightarrow> line_reader \<Rightarrow> line_result io \<times> line_reader" where
  "read_line max_len r = read_line_loop max_len 0 r"

lemma fill_buffered: "fill r = (Done n, r') \<Longrightarrow> n \<noteq> 0 \<Longrightarrow> 0 < buffered r'"
  by (auto simp: fill_def Let_def buffered_def split: list.splits read_event.splits if_splits)

text \<open>\<^verbatim>\<open>read_exact_bytes\<close>: \<^const>\<open>None\<close> when the peer closes before \<open>count\<close> bytes. The fill
  is only reached when nothing is buffered; \<open>Done 1\<close> stands for skipping it.\<close>

function read_exact_loop :: "nat \<Rightarrow> bytes \<Rightarrow> line_reader \<Rightarrow> bytes option io \<times> line_reader" where
  "read_exact_loop count out r =
     (if count \<le> length out then (Done (Some out), r)
      else
        (case (if buffered r = 0 then fill r else (Done 1, r)) of
           (Done n, r1) \<Rightarrow>
             if n = 0 then (Done None, r1)
             else
               let t = min (count - length out) (buffered r1)
               in read_exact_loop count (out @ take t (drop (position r1) (buffer r1)))
                    (compact_if_drained (r1\<lparr>position := position r1 + t\<rparr>))
         | (Failed, r1) \<Rightarrow> (Failed, r1)
         | (Elapsed, r1) \<Rightarrow> (Elapsed, r1)))"
  by pat_completeness auto
termination
proof (relation "measure (\<lambda>(count, out, r). count - length out)")
  fix count :: nat and out :: bytes and r r1 :: line_reader and z :: "nat io" and n t
  assume a: "\<not> count \<le> length out" "(z, r1) = (if buffered r = 0 then fill r else (Done 1, r))"
    "z = Done n" "n \<noteq> 0" "t = min (count - length out) (buffered r1)"
  have "0 < buffered r1" using a(2-4) fill_buffered[of r n r1] by (auto split: if_splits)
  then have "0 < t" "t \<le> buffered r1" using a by auto
  then show "((count, out @ take t (drop (position r1) (buffer r1)),
      compact_if_drained (r1\<lparr>position := position r1 + t\<rparr>)), count, out, r)
      \<in> measure (\<lambda>(count, out, r). count - length out)"
    using a by (auto simp: buffered_def)
qed simp

declare discard_line.simps [simp del] read_line_loop.simps [simp del] read_exact_loop.simps [simp del]

definition read_exact_bytes :: "nat \<Rightarrow> line_reader \<Rightarrow> bytes option io \<times> line_reader" where
  "read_exact_bytes count r = read_exact_loop count [] r"

section \<open>The specification on pending bytes\<close>

fun src_bytes :: "read_event list \<Rightarrow> bytes" where
  "src_bytes [] = []"
| "src_bytes (Data bs # es) = bs @ src_bytes es"
| "src_bytes (_ # es) = []"

definition pending :: "line_reader \<Rightarrow> bytes" where
  "pending r = drop (position r) (buffer r) @ src_bytes (inner r)"

text \<open>A connection that neither fails nor stalls, cut into non-empty segments.\<close>

definition delivers :: "read_event list \<Rightarrow> bool" where
  "delivers es = list_all (\<lambda>e. case e of Data bs \<Rightarrow> bs \<noteq> [] | _ \<Rightarrow> False) es"

definition reader_ok :: "line_reader \<Rightarrow> bool" where
  "reader_ok r = (position r \<le> length (buffer r) \<and> delivers (inner r))"

definition strip_cr :: "bytes \<Rightarrow> bytes" where
  "strip_cr l = (if l \<noteq> [] \<and> last l = CR then butlast l else l)"

definition spec_line :: "nat \<Rightarrow> bytes \<Rightarrow> line_result \<times> bytes" where
  "spec_line max_len s =
     (case find_byte (\<lambda>b. b = LF) s of
        Some i \<Rightarrow> (finish_line max_len (strip_cr (take i s)), drop (Suc i) s)
      | None \<Rightarrow> if s = [] then (Eof, []) else (finish_line max_len s, []))"

definition after_line :: "bytes \<Rightarrow> bytes" where
  "after_line s = (case find_byte (\<lambda>b. b = LF) s of Some i \<Rightarrow> drop (Suc i) s | None \<Rightarrow> [])"

lemma pending_compact [simp]: "pending (compact_if_drained r) = pending r"
  by (simp add: pending_def compact_if_drained_def)

lemma reader_ok_compact [simp]: "reader_ok (compact_if_drained r) = reader_ok r"
  by (simp add: reader_ok_def compact_if_drained_def)

lemma reader_ok_new: "delivers es \<Longrightarrow> reader_ok (new_reader es)"
  by (simp add: reader_ok_def new_reader_def)

lemma pending_new: "pending (new_reader es) = src_bytes es"
  by (simp add: pending_def new_reader_def)

lemma fill_ok:
  assumes "reader_ok r"
  obtains n r' where "fill r = (Done n, r')" "reader_ok r'" "pending r' = pending r"
    "position r' = 0" "\<exists>t. buffer r' = drop (position r) (buffer r) @ t \<and> (n = 0 \<longrightarrow> t = [])"
    "n = 0 \<longleftrightarrow> inner r = []" "n = 0 \<longrightarrow> inner r' = []"
proof (cases "inner r")
  case Nil
  then show ?thesis
    using assms by (intro that[of 0 "snd (fill r)"])
      (auto simp: fill_def Let_def reader_ok_def pending_def)
next
  case (Cons e es)
  then obtain bs where e: "e = Data bs" "bs \<noteq> []"
    using assms by (auto simp: reader_ok_def delivers_def split: read_event.splits)
  let ?n = "length (take CHUNK bs)"
  have n: "?n \<noteq> 0" using e by (simp add: CHUNK_def)
  show ?thesis
  proof (rule that[of ?n "snd (fill r)"])
    show "fill r = (Done ?n, snd (fill r))" by (simp add: fill_def Let_def Cons e)
    show "reader_ok (snd (fill r))"
      using assms e by (auto simp: fill_def Let_def Cons reader_ok_def delivers_def)
    show "pending (snd (fill r)) = pending r"
      using e by (auto simp: fill_def Let_def Cons pending_def CHUNK_def)
    show "position (snd (fill r)) = 0" by (simp add: fill_def Let_def Cons e)
    show "\<exists>t. buffer (snd (fill r)) = drop (position r) (buffer r) @ t \<and> (?n = 0 \<longrightarrow> t = [])"
      using n by (auto simp: fill_def Let_def Cons e)
    show "?n = 0 \<longleftrightarrow> inner r = []" using n Cons by simp
    show "?n = 0 \<longrightarrow> inner (snd (fill r)) = []" using n by blast
  qed
qed

lemma discard_line_refines:
  "reader_ok r \<Longrightarrow> \<exists>r'. discard_line r = (Done (), r') \<and> reader_ok r' \<and> pending r' = after_line (pending r)"
proof (induction r rule: discard_line.induct)
  case (1 r)
  let ?d = "drop (position r) (buffer r)"
  show ?case
  proof (cases "find_byte (\<lambda>b. b = LF) ?d")
    case (Some i)
    then have "i < length ?d" by (simp add: find_byte_Some)
    with Some "1.prems" show ?thesis
      by (subst discard_line.simps)
        (auto simp: after_line_def pending_def find_byte_append reader_ok_def compact_if_drained_def add.commute)
  next
    case None
    let ?r = "compact_if_drained (r\<lparr>position := length (buffer r)\<rparr>)"
    have ok: "reader_ok ?r" using "1.prems" by (simp add: reader_ok_def compact_if_drained_def)
    have p: "pending ?r = src_bytes (inner r)" by (simp add: pending_def compact_if_drained_def)
    have al: "after_line (pending r) = after_line (src_bytes (inner r))"
      using None by (auto simp: after_line_def pending_def find_byte_append split: option.splits)
    obtain n r' where f: "fill ?r = (Done n, r')" "reader_ok r'" "pending r' = pending ?r"
      "n = 0 \<longleftrightarrow> inner ?r = []"
      by (rule fill_ok[OF ok]) blast
    show ?thesis
    proof (cases "n = 0")
      case True
      then have "pending ?r = []" using f(4) p by (auto simp: compact_if_drained_def split: if_splits)
      with True f None al p show ?thesis
        by (subst discard_line.simps) (simp add: after_line_def)
    next
      case False
      with "1.IH"[OF None f(1)[symmetric] refl] f(2,3) None al p f(1) show ?thesis
        by (subst discard_line.simps) simp
    qed
  qed
qed

text \<open>A line that grew past the limit without a newline is over-long whatever follows it.\<close>

lemma spec_line_overlong:
  assumes "find_byte (\<lambda>b. b = LF) a = None" "max_len + 2 < length a"
  shows "spec_line max_len (a @ s) = (TooLong, after_line (a @ s))"
proof (cases "find_byte (\<lambda>b. b = LF) s")
  case None
  then show ?thesis using assms
    by (auto simp: spec_line_def after_line_def find_byte_append finish_line_def)
next
  case (Some i)
  have "length (strip_cr (a @ take i s)) \<ge> length (a @ take i s) - 1" by (simp add: strip_cr_def)
  then have "length (strip_cr (a @ take i s)) \<ge> length a - 1" by simp
  then show ?thesis using assms Some
    by (simp add: spec_line_def after_line_def find_byte_append finish_line_def)
qed

lemma read_line_loop_refines:
  "reader_ok r \<Longrightarrow> max_len + 2 \<le> usize_max \<Longrightarrow> position r + scanned \<le> length (buffer r) \<Longrightarrow>
   LF \<notin> set (take scanned (drop (position r) (buffer r))) \<Longrightarrow>
   \<exists>r'. read_line_loop max_len scanned r = (Done (fst (spec_line max_len (pending r))), r')
      \<and> reader_ok r' \<and> pending r' = snd (spec_line max_len (pending r))"
proof (induction max_len scanned r rule: read_line_loop.induct)
  case (1 max_len scanned r)
  let ?d = "drop (position r) (buffer r)"
  have pre: "find_byte (\<lambda>b. b = LF) (take scanned ?d) = None"
    using "1.prems"(4) by (auto simp: find_byte_None)
  have split: "find_byte (\<lambda>b. b = LF) ?d =
      map_option ((+) scanned) (find_byte (\<lambda>b. b = LF) (drop (position r + scanned) (buffer r)))"
  proof -
    have "length (take scanned ?d) = scanned" using "1.prems"(3) by simp
    moreover have "take scanned ?d @ drop (position r + scanned) (buffer r) = ?d"
      by (metis append_take_drop_id drop_drop add.commute)
    ultimately show ?thesis
      using find_byte_append[of "\<lambda>b. b = LF" "take scanned ?d" "drop (position r + scanned) (buffer r)"] pre
      by simp
  qed
  show ?case
  proof (cases "find_byte (\<lambda>b. b = LF) (drop (position r + scanned) (buffer r))")
    case (Some index)
    let ?nl = "scanned + index"
    have nl: "find_byte (\<lambda>b. b = LF) ?d = Some ?nl" using split Some by simp
    then have len: "?nl < length ?d" by (auto simp: find_byte_Some)
    have tk: "take ?nl (pending r) = take ?nl ?d" "drop (Suc ?nl) (pending r) = drop (Suc ?nl) ?d @ src_bytes (inner r)"
      using len by (auto simp: pending_def)
    have cr: "strip_cr (take ?nl ?d) =
        take (if 0 < ?nl \<and> buffer r ! (position r + ?nl - 1) = CR then ?nl - 1 else ?nl) ?d"
      using len by (auto simp: strip_cr_def last_conv_nth butlast_take)
    have spec: "spec_line max_len (pending r) = (finish_line max_len (strip_cr (take ?nl ?d)), drop (Suc ?nl) ?d @ src_bytes (inner r))"
    proof -
      have "find_byte (\<lambda>b. b = LF) (pending r) = Some ?nl"
        using nl by (simp add: pending_def find_byte_append)
      then show ?thesis by (simp only: spec_line_def option.case tk)
    qed
    let ?r = "r\<lparr>position := position r + (?nl + 1)\<rparr>"
    have "read_line_loop max_len scanned r =
        (Done (finish_line max_len (strip_cr (take ?nl ?d))), compact_if_drained ?r)"
      by (subst read_line_loop.simps) (simp only: Some option.case Let_def cr)
    moreover have "reader_ok ?r" "pending ?r = drop (Suc ?nl) ?d @ src_bytes (inner r)"
      using len "1.prems"(1) by (auto simp: reader_ok_def pending_def add.commute)
    ultimately show ?thesis using spec by simp
  next
    case None
    have nod: "find_byte (\<lambda>b. b = LF) ?d = None" using split None by simp
    show ?thesis
    proof (cases "usize_sat_add max_len 2 < buffered r")
      case True
      obtain r' where d: "discard_line r = (Done (), r')" "reader_ok r'" "pending r' = after_line (pending r)"
        using discard_line_refines[OF "1.prems"(1)] by blast
      have "spec_line max_len (pending r) = (TooLong, after_line (pending r))"
        using True "1.prems"(1,2) spec_line_overlong[OF nod, of max_len "src_bytes (inner r)"]
        by (simp add: usize_sat_add_def buffered_def pending_def reader_ok_def)
      then show ?thesis using None True d by (subst read_line_loop.simps) (simp add: Let_def)
    next
      case False
      obtain n r' t where f: "fill r = (Done n, r')" "reader_ok r'" "pending r' = pending r"
        "position r' = 0" "buffer r' = ?d @ t" "n = 0 \<longrightarrow> t = []" "n = 0 \<longrightarrow> inner r' = []"
        by (rule fill_ok[OF "1.prems"(1)]) blast
      show ?thesis
      proof (cases "n = 0")
        case True
        then have p: "pending r = ?d" "buffer r' = ?d" using f by (auto simp: pending_def)
        then have "spec_line max_len (pending r) = (if ?d = [] then (Eof, []) else (finish_line max_len ?d, []))"
          using nod by (simp add: spec_line_def)
        then show ?thesis using None False True f p
          by (subst read_line_loop.simps)
            (auto simp: Let_def buffered_def reader_ok_def pending_def compact_if_drained_def)
      next
        case nz: False
        have "position r' + buffered r \<le> length (buffer r')"
          "LF \<notin> set (take (buffered r) (drop (position r') (buffer r')))"
          using f nod by (auto simp: buffered_def find_byte_None)
        with "1.IH"[OF None refl False f(1)[symmetric] refl nz f(2) "1.prems"(2)] f(1,3) None False nz
        show ?thesis by (subst read_line_loop.simps) (simp add: Let_def)
      qed
    qed
  qed
qed

section \<open>Exact reads\<close>

lemma take_drop_split:
  "xs = a @ b \<Longrightarrow> length a = t \<Longrightarrow> n = t + k \<Longrightarrow> take n xs = a @ take k b \<and> drop n xs = drop k b"
  by simp

lemma read_exact_loop_refines:
  "reader_ok r \<Longrightarrow> length out \<le> count \<Longrightarrow>
   \<exists>r'. read_exact_loop count out r =
       (Done (if count - length out \<le> length (pending r) then Some (out @ take (count - length out) (pending r)) else None), r')
     \<and> reader_ok r'
     \<and> (count - length out \<le> length (pending r) \<longrightarrow> pending r' = drop (count - length out) (pending r))"
proof (induction count out r rule: read_exact_loop.induct)
  case (1 count out r)
  let ?need = "count - length out"
  show ?case
  proof (cases "count \<le> length out")
    case True
    with "1.prems" show ?thesis by (subst read_exact_loop.simps) simp
  next
    case False
    obtain n r1 where f: "(if buffered r = 0 then fill r else (Done 1, r)) = (Done n, r1)"
      "reader_ok r1" "pending r1 = pending r" "n = 0 \<longrightarrow> pending r = []"
    proof (cases "buffered r = 0")
      case True
      obtain n r' t where a: "fill r = (Done n, r')" "reader_ok r'" "pending r' = pending r" "n = 0 \<longleftrightarrow> inner r = []"
        by (rule fill_ok[OF "1.prems"(1)]) blast
      then have "n = 0 \<longrightarrow> pending r = []" using True "1.prems"(1)
        by (auto simp: pending_def buffered_def reader_ok_def)
      then show ?thesis using that a True by simp
    next
      case False
      then show ?thesis using that[of 1 r] "1.prems" by simp
    qed
    show ?thesis
    proof (cases "n = 0")
      case True
      then show ?thesis using f False by (subst read_exact_loop.simps) simp
    next
      case nz: False
      define t where "t = min ?need (buffered r1)"
      define r2 where "r2 = compact_if_drained (r1\<lparr>position := position r1 + t\<rparr>)"
      define D where "D = drop (position r1) (buffer r1)"
      define out2 where "out2 = out @ take t D"
      define k where "k = count - length out2"
      have p1: "position r1 \<le> length (buffer r1)" using f(2) by (simp add: reader_ok_def)
      then have t: "t \<le> length D" by (simp add: buffered_def t_def D_def)
      have ok2: "reader_ok r2"
        using f(2) t p1 unfolding r2_def reader_ok_compact by (auto simp: reader_ok_def D_def)
      have "pending (r1\<lparr>position := position r1 + t\<rparr>) = drop t D @ src_bytes (inner r1)"
        by (simp add: pending_def D_def add.commute)
      then have pr: "pending r = take t D @ pending r2"
        unfolding r2_def pending_compact f(3)[symmetric]
        by (simp only: pending_def D_def[symmetric] append_take_drop_id append_assoc[symmetric])
      have lt: "length (take t D) = t" using t by simp
      have le: "length out2 \<le> count" "?need = t + k"
        using lt False by (auto simp: out2_def k_def t_def)
      have IH: "\<exists>r'. read_exact_loop count out2 r2 =
         (Done (if k \<le> length (pending r2) then Some (out2 @ take k (pending r2)) else None), r')
        \<and> reader_ok r' \<and> (k \<le> length (pending r2) \<longrightarrow> pending r' = drop k (pending r2))"
        unfolding k_def using "1.IH"[OF False f(1)[symmetric] refl nz t_def] ok2 le(1)
        unfolding r2_def out2_def D_def by blast
      have step: "read_exact_loop count out r = read_exact_loop count out2 r2"
        unfolding r2_def out2_def D_def t_def using False nz
        by (subst read_exact_loop.simps) (simp only: f(1) prod.case io.case if_False Let_def)
      have len: "length (pending r) = t + length (pending r2)"
        using arg_cong[OF pr, of length] lt by (simp only: length_append)
      show ?thesis
        using IH take_drop_split[OF pr lt le(2)] unfolding step le(2) len out2_def
        by (elim exE, intro exI) (auto split: if_splits)
    qed
  qed
qed

section \<open>Bounded buffering\<close>

text \<open>Whatever the peer sends, the buffer never keeps more than one over-long line prefix and a
  chunk.\<close>

lemma fill_bound: "fill r = (z, r') \<Longrightarrow> length (buffer r') \<le> buffered r + CHUNK"
  by (auto simp: fill_def Let_def buffered_def split: list.splits read_event.splits if_splits)

lemma buffered_le: "buffered r \<le> length (buffer r)"
  by (simp add: buffered_def)

lemma compact_bound: "length (buffer (compact_if_drained r)) \<le> length (buffer r)"
  by (simp add: compact_if_drained_def)

lemma discard_line_bound: "length (buffer (snd (discard_line r))) \<le> max (length (buffer r)) CHUNK"
proof (induction r rule: discard_line.induct)
  case (1 r)
  let ?c = "compact_if_drained (r\<lparr>position := length (buffer r)\<rparr>)"
  show ?case
  proof (cases "find_byte (\<lambda>b. b = LF) (drop (position r) (buffer r))")
    case (Some i)
    then show ?thesis
      by (subst discard_line.simps) (simp add: compact_if_drained_def)
  next
    case None
    obtain z r' where f: "fill ?c = (z, r')" by (cases "fill ?c")
    have "buffered ?c = 0" by (simp add: buffered_def compact_if_drained_def)
    then have b: "length (buffer r') \<le> CHUNK" using fill_bound[OF f] by simp
    show ?thesis
    proof (cases "\<exists>n. z = Done n \<and> n \<noteq> 0")
      case True
      then obtain n where n: "z = Done n" "n \<noteq> 0" by blast
      from "1.IH"[OF None f[symmetric] n(1,2)] b None f n show ?thesis
        by (subst discard_line.simps) simp
    next
      case False
      then have "snd (discard_line r) = r'"
        using None f by (cases z; subst discard_line.simps; simp)
      then show ?thesis using b by simp
    qed
  qed
qed

lemma read_line_loop_bound:
  "length (buffer r) \<le> max_len + 2 + CHUNK \<Longrightarrow>
   length (buffer (snd (read_line_loop max_len scanned r))) \<le> max_len + 2 + CHUNK"
proof (induction max_len scanned r rule: read_line_loop.induct)
  case (1 max_len scanned r)
  show ?case
  proof (cases "find_byte (\<lambda>b. b = LF) (drop (position r + scanned) (buffer r))")
    case (Some i)
    then show ?thesis using "1.prems"
      by (subst read_line_loop.simps) (simp add: Let_def compact_if_drained_def)
  next
    case None
    show ?thesis
    proof (cases "usize_sat_add max_len 2 < buffered r")
      case True
      then show ?thesis using None "1.prems" discard_line_bound[of r]
        by (subst read_line_loop.simps) (auto simp: Let_def split: prod.splits io.splits)
    next
      case False
      obtain z r' where f: "fill r = (z, r')" by (cases "fill r")
      have "buffered r \<le> max_len + 2" using False by (simp add: usize_sat_add_def)
      then have b: "length (buffer r') \<le> max_len + 2 + CHUNK" using fill_bound[OF f] by simp
      show ?thesis
      proof (cases "\<exists>n. z = Done n \<and> n \<noteq> 0")
        case True
        then obtain n where n: "z = Done n" "n \<noteq> 0" by blast
        from "1.IH"[OF None refl False f[symmetric] n(1,2) b] None False f n show ?thesis
          by (subst read_line_loop.simps) (simp add: Let_def)
      next
        case nd: False
        then show ?thesis using None False f b
          by (subst read_line_loop.simps)
            (auto simp: Let_def compact_if_drained_def split: io.splits)
      qed
    qed
  qed
qed

text \<open>The interface the session relies on: reading a line consumes the pending bytes as the
  specification says.\<close>

locale line_source =
  fixes next_line :: "nat \<Rightarrow> 's \<Rightarrow> line_result io \<times> 's"
    and remaining :: "'s \<Rightarrow> bytes"
    and healthy :: "'s \<Rightarrow> bool"
  assumes next_line_spec: "healthy s \<Longrightarrow> max_len + 2 \<le> usize_max \<Longrightarrow>
    \<exists>s'. next_line max_len s = (Done (fst (spec_line max_len (remaining s))), s')
       \<and> healthy s' \<and> remaining s' = snd (spec_line max_len (remaining s))"

interpretation lr: line_source read_line pending reader_ok
  by unfold_locales (use read_line_loop_refines[where scanned = 0] in
      \<open>simp add: read_line_def reader_ok_def\<close>)

section \<open>Progress\<close>

text \<open>What is still to come from a reader; every line that is read takes something off it. A read that the
  timeout drops leaves a chunk of zero bytes in the buffer (see \<^const>\<open>fill\<close>), hence its weight.\<close>

fun event_weight :: "read_event \<Rightarrow> nat" where
  "event_weight (Data bs) = Suc (length bs)"
| "event_weight ReadErr = 1"
| "event_weight Stall = Suc CHUNK"

definition to_come :: "line_reader \<Rightarrow> nat" where
  "to_come r = buffered r + sum_list (map event_weight (inner r))"

lemma buffered_compact [simp]: "buffered (compact_if_drained r) = buffered r"
  by (simp add: compact_if_drained_def buffered_def)

lemma inner_compact [simp]: "inner (compact_if_drained r) = inner r"
  by (simp add: compact_if_drained_def)

lemma fill_to_come: "fill r = (x, r') \<Longrightarrow> to_come r' \<le> to_come r"
  by (auto simp: fill_def Let_def to_come_def buffered_def split: list.splits read_event.splits if_splits)

lemma to_come_at: "to_come (r\<lparr>position := n\<rparr>) = length (buffer r) - n + sum_list (map event_weight (inner r))"
  by (simp add: to_come_def buffered_def)

lemma to_come_compact [simp]: "to_come (compact_if_drained r) = to_come r"
  by (simp add: to_come_def)

lemma discard_line_to_come:
  "discard_line r = (x, r') \<Longrightarrow> to_come r' \<le> sum_list (map event_weight (inner r)) \<or> to_come r' < to_come r"
proof (induction r arbitrary: x r' rule: discard_line.induct)
  case (1 r)
  show ?case
  proof (cases "find_byte (\<lambda>b. b = LF) (drop (position r) (buffer r))")
    case (Some i)
    then have "i < length (buffer r) - position r" using find_byte_Some by fastforce
    moreover have "r' = compact_if_drained (r\<lparr>position := position r + (i + 1)\<rparr>)"
      using "1.prems" Some by (subst (asm) discard_line.simps) simp
    ultimately have "to_come r' < to_come r"
      unfolding to_come_def[of r] buffered_def[of r] by (simp only: to_come_compact to_come_at)
    then show ?thesis ..
  next
    case None
    let ?r = "compact_if_drained (r\<lparr>position := length (buffer r)\<rparr>)"
    obtain y r1 where f: "fill ?r = (y, r1)" by (rule prod.exhaust)
    have le: "to_come r1 \<le> sum_list (map event_weight (inner r))"
      using fill_to_come[OF f] by (simp add: to_come_at)
    show ?thesis
    proof (cases "\<exists>n. y = Done n \<and> n \<noteq> 0")
      case True
      then obtain n where n: "y = Done n" "n \<noteq> 0" by blast
      then have "discard_line r1 = (x, r')" using "1.prems" None f
        by (subst (asm) discard_line.simps) simp
      then have "to_come r' \<le> to_come r1"
        using "1.IH"[OF None f[symmetric] n] by (force simp: to_come_def)
      then show ?thesis using le by simp
    next
      case False
      then have "r' = r1" using "1.prems" None f
        by (subst (asm) discard_line.simps) (auto split: io.splits)
      then show ?thesis using le by simp
    qed
  qed
qed

lemma read_line_loop_to_come:
  "read_line_loop m sc r = (x, r') \<Longrightarrow>
     to_come r' \<le> to_come r \<and> (\<forall>l. x = Done l \<longrightarrow> l \<noteq> Eof \<longrightarrow> to_come r' < to_come r)"
proof (induction m sc r arbitrary: x r' rule: read_line_loop.induct)
  case (1 m sc r)
  show ?case
  proof (cases "find_byte (\<lambda>b. b = LF) (drop (position r + sc) (buffer r))")
    case (Some i)
    then have i: "position r + sc + i < length (buffer r)" using find_byte_Some by fastforce
    have "r' = compact_if_drained (r\<lparr>position := position r + (sc + i + 1)\<rparr>)"
      using "1.prems" Some by (subst (asm) read_line_loop.simps) (simp add: Let_def)
    then have "to_come r' < to_come r"
      using i unfolding to_come_def[of r] buffered_def[of r] by (simp only: to_come_compact to_come_at)
    then show ?thesis by simp
  next
    case None
    show ?thesis
    proof (cases "usize_sat_add m 2 < buffered r")
      case True
      obtain y r1 where d: "discard_line r = (y, r1)" by (rule prod.exhaust)
      then have "r' = r1" using "1.prems" None True
        by (subst (asm) read_line_loop.simps) (auto simp: Let_def split: io.splits)
      then show ?thesis using discard_line_to_come[OF d] True by (auto simp: to_come_def)
    next
      case False
      obtain y r1 where f: "fill r = (y, r1)" by (rule prod.exhaust)
      note le = fill_to_come[OF f]
      show ?thesis
      proof (cases "\<exists>n. y = Done n \<and> n \<noteq> 0")
        case True
        then obtain n where n: "y = Done n" "n \<noteq> 0" by blast
        then have "read_line_loop m (buffered r) r1 = (x, r')" using "1.prems" None False f
          by (subst (asm) read_line_loop.simps) (simp add: Let_def)
        then show ?thesis using "1.IH"[OF None refl False f[symmetric] n] le by fastforce
      next
        case nn: False
        have "(x, r') = (case y of
            Done _ \<Rightarrow> if buffered r1 = 0 then (Done Eof, r1)
              else (Done (finish_line m (drop (position r1) (buffer r1))), compact_if_drained (r1\<lparr>position := length (buffer r1)\<rparr>))
          | Failed \<Rightarrow> (Failed, r1) | Elapsed \<Rightarrow> (Elapsed, r1))"
          using "1.prems"[symmetric] None False f nn
          by (subst (asm) read_line_loop.simps) (cases y; cases "buffered r1 = 0"; simp add: Let_def)
        then have "r' = r1 \<and> (\<forall>l. x = Done l \<longrightarrow> l = Eof) \<or> to_come r' < to_come r1"
          by (cases y; cases "buffered r1 = 0") (simp_all add: to_come_at to_come_def[of r1])
        then show ?thesis using le by auto
      qed
    qed
  qed
qed

lemma read_line_to_come:
  assumes "read_line m r = (x, r')"
  shows "to_come r' \<le> to_come r" "x = Done l \<Longrightarrow> l \<noteq> Eof \<Longrightarrow> to_come r' < to_come r"
  using read_line_loop_to_come[OF assms[unfolded read_line_def]] by auto

lemma read_line_more: "read_line m r = (Done l, r') \<Longrightarrow> l \<noteq> Eof \<Longrightarrow> to_come r' < to_come r"
  using read_line_to_come(2) by blast

lemma read_exact_loop_to_come: "read_exact_loop count out r = (x, r') \<Longrightarrow> to_come r' \<le> to_come r"
proof (induction count out r arbitrary: x r' rule: read_exact_loop.induct)
  case (1 count out r)
  obtain y r1 where f: "(if buffered r = 0 then fill r else (Done 1, r)) = (y, r1)" by (rule prod.exhaust)
  have le: "to_come r1 \<le> to_come r" using f fill_to_come by (auto split: if_splits)
  show ?case
  proof (cases "\<not> count \<le> length out \<and> (\<exists>n. y = Done n \<and> n \<noteq> 0)")
    case True
    then obtain n where n: "\<not> count \<le> length out" "y = Done n" "n \<noteq> 0" by blast
    define t where "t = min (count - length out) (buffered r1)"
    define r2 where "r2 = compact_if_drained (r1\<lparr>position := position r1 + t\<rparr>)"
    have "to_come r2 \<le> to_come r1"
      unfolding r2_def to_come_compact to_come_at to_come_def[of r1] buffered_def[of r1] by simp
    moreover have "read_exact_loop count (out @ take t (drop (position r1) (buffer r1))) r2 = (x, r')"
      using "1.prems" n unfolding t_def r2_def by (subst (asm) read_exact_loop.simps) (simp add: f Let_def)
    then have "to_come r' \<le> to_come r2"
      using "1.IH"[OF n(1) f[symmetric] n(2,3) t_def] unfolding r2_def by blast
    ultimately show ?thesis using le by simp
  next
    case False
    then have "r' = r \<or> r' = r1"
      using "1.prems" by (subst (asm) read_exact_loop.simps) (auto simp: f split: if_splits io.splits)
    then show ?thesis using le by auto
  qed
qed

section \<open>One line with its ending\<close>

lemma spec_line_crlf: "LF \<notin> set l \<Longrightarrow> spec_line m (l @ CR # LF # rest) = (finish_line m l, rest)"
proof -
  assume "LF \<notin> set l"
  then have "find_byte (\<lambda>b. b = LF) l = None" by (auto simp: find_byte_None)
  then have "find_byte (\<lambda>b. b = LF) (l @ CR # LF # rest) = Some (Suc (length l))" by (simp add: find_byte_append)
  then show ?thesis by (simp add: spec_line_def strip_cr_def)
qed

lemma read_line_crlf:
  assumes "reader_ok r" "ll + 2 \<le> usize_max" "pending r = l @ CR # LF # rest" "LF \<notin> set l"
  obtains r' where "read_line ll r = (Done (finish_line ll l), r')" "reader_ok r'" "pending r' = rest"
  using lr.next_line_spec[OF assms(1,2)] spec_line_crlf[OF assms(4)] assms(3) by auto

section \<open>Properties\<close>

text \<open>C12. However the network cuts the client's bytes into segments, reading a line returns
  (the loops terminate) exactly what the specification on the concatenated bytes says: the bytes
  up to the first newline without the line ending, or that the line was over-long, or that the
  stream ended; and exactly the bytes after that line stay pending for the next call.\<close>

theorem read_line_refines_spec:
  assumes "delivers segments" and "max_len + 2 \<le> usize_max"
  shows "\<exists>r'. read_line max_len (new_reader segments)
               = (Done (fst (spec_line max_len (src_bytes segments))), r')
            \<and> reader_ok r' \<and> pending r' = snd (spec_line max_len (src_bytes segments))"
  using lr.next_line_spec[OF reader_ok_new[OF assms(1)] assms(2)] by (simp add: pending_new)

theorem read_line_refines_spec_witness:
  "\<exists>r'. read_line 512 (new_reader [Data ''NO'', Data [CHR ''O'', CHR ''P'', CR], Data [LF, CHR ''Q'']])
         = (Done (Line ''NOOP''), r') \<and> reader_ok r' \<and> pending r' = ''Q''"
proof -
  let ?s = "[Data ''NO'', Data [CHR ''O'', CHR ''P'', CR], Data [LF, CHR ''Q'']]"
  have s: "spec_line 512 (src_bytes ?s) = (Line ''NOOP'', ''Q'')" by code_simp
  have d: "delivers ?s" by code_simp
  show ?thesis using read_line_refines_spec[of ?s 512, OF d] unfolding s
    by (simp add: usize_max_def)
qed

text \<open>Whatever the peer sends, and whether reads succeed, fail or stall, the reader never
  holds more than the line limit, the line ending and one chunk between two calls.\<close>

theorem read_line_memory_bounded:
  assumes "length (buffer r) \<le> max_len + 2 + CHUNK"
  shows "length (buffer (snd (read_line max_len r))) \<le> max_len + 2 + CHUNK"
  using assms by (simp only: read_line_def read_line_loop_bound)

theorem read_line_memory_bounded_witness:
  "length (buffer (snd (read_line 4 (new_reader [Data (replicate 9 CHR ''A''), Stall])))) \<le> 4 + 2 + CHUNK"
  by (rule read_line_memory_bounded) (simp add: new_reader_def)

text \<open>An exact read returns the next \<open>count\<close> bytes as they were sent, line endings
  included, and leaves the rest pending; it reports truncation exactly when fewer were sent.\<close>

theorem read_exact_bytes_spec:
  assumes "reader_ok r"
  shows "\<exists>r'. read_exact_bytes count r
              = (Done (if count \<le> length (pending r) then Some (take count (pending r)) else None), r')
            \<and> reader_ok r' \<and> (count \<le> length (pending r) \<longrightarrow> pending r' = drop count (pending r))"
  using read_exact_loop_refines[OF assms, of "[]" count] by (auto simp: read_exact_bytes_def)

theorem read_exact_bytes_spec_witness:
  "\<exists>r'. read_exact_bytes 3 (new_reader [Data [CR, LF], Data ''xyz'']) = (Done (Some [CR, LF, CHR ''x'']), r')
     \<and> reader_ok r' \<and> pending r' = ''yz''"
  using read_exact_bytes_spec[of "new_reader [Data [CR, LF], Data ''xyz'']" 3]
  by (simp add: pending_new reader_ok_new delivers_def)

end
