(* ===== verification/Command.thy ===== *)
theory Command
  imports Util
begin

text \<open>
  \<^verbatim>\<open>src/smtp/command.rs\<close>: the grammar of client commands. A line of bytes becomes a
  command, or the exact error reply (code, enhanced status, text) that the session sends.
\<close>

section \<open>Commands and errors\<close>

datatype command =
    Ehlo str
  | Helo str
  | Mail str "nat option"
  | Rcpt str
  | DataCmd
  | Rset
  | Noop
  | Quit
  | Vrfy
  | Expn
  | Help
  | StartTls
  | Auth str "str option"
  | Unimplemented str
  | Unknown str
  | Empty

record command_error =
  err_code :: nat
  err_enhanced :: str
  err_message :: str

definition new_error :: "nat \<Rightarrow> str \<Rightarrow> str \<Rightarrow> command_error" where
  "new_error code enhanced message = \<lparr>err_code = code, err_enhanced = enhanced, err_message = message\<rparr>"

definition syntax_error :: "str \<Rightarrow> command_error" where
  "syntax_error message = new_error 501 ''5.5.4'' message"

section \<open>Pieces of the grammar\<close>

definition first_token :: "str \<Rightarrow> str" where
  "first_token input = (case split_whitespace input of t # _ \<Rightarrow> t | [] \<Rightarrow> [])"

text \<open>\<open>KEYWORD:\<close> at the start, tolerating blanks before the colon.\<close>

definition expect_keyword :: "str \<Rightarrow> str \<Rightarrow> str option" where
  "expect_keyword input keyword =
     (let trimmed = trim_start input in
      if length trimmed < length keyword then None
      else if \<not> eq_ignore_case (take (length keyword) trimmed) keyword then None
      else strip_prefix '':'' (trim_start (drop (length keyword) trimmed)))"

definition strip_source_route :: "str \<Rightarrow> str" where
  "strip_source_route address =
     (if starts_with ''@'' address then
        (case split_once CHR '':'' address of
           Some (_, rest) \<Rightarrow> trim rest
         | None \<Rightarrow> address)
      else address)"

definition parse_parameter :: "str \<Rightarrow> str \<times> str option" where
  "parse_parameter token =
     (case split_once CHR ''='' token of
        Some (key, v) \<Rightarrow> (to_upper key, Some v)
      | None \<Rightarrow> (to_upper token, None))"

definition split_path :: "str \<Rightarrow> command_error + str \<times> (str \<times> str option) list" where
  "split_path input =
     (let trimmed = trim_start input in
      case (case strip_prefix ''<'' trimmed of
              Some open \<Rightarrow>
                (case split_once CHR ''>'' open of
                   Some (address, remainder) \<Rightarrow> Inr (address, remainder)
                 | None \<Rightarrow> Inl (syntax_error (''unterminated address: expected a closing '' @ bq ''>'')))
            | None \<Rightarrow> Inr (span_ws trimmed)) of
        Inl e \<Rightarrow> Inl e
      | Inr (address, remainder) \<Rightarrow>
          Inr (strip_source_route (trim address), map parse_parameter (split_whitespace remainder)))"

text \<open>The loop over the MAIL parameters, with the SIZE found so far.\<close>

fun mail_parameters :: "(str \<times> str option) list \<Rightarrow> nat option \<Rightarrow> command_error + nat option" where
  "mail_parameters [] declared = Inr declared"
| "mail_parameters ((key, v) # ps) declared =
     (if key = ''SIZE'' then
        (case Option.bind v (parse_uint (2 ^ 64)) of
           None \<Rightarrow> Inl (new_error 501 ''5.5.4'' ''the SIZE parameter must be a number'')
         | Some n \<Rightarrow> mail_parameters ps (Some n))
      else if key \<in> set [''BODY'', ''SMTPUTF8'', ''RET'', ''ENVID'', ''AUTH'', ''REQUIRETLS'']
      then mail_parameters ps declared
      else Inl (new_error 555 ''5.5.4'' (''unsupported MAIL parameter '' @ bq key)))"

definition parse_mail :: "str \<Rightarrow> command_error + command" where
  "parse_mail rest =
     (case expect_keyword rest ''FROM'' of
        None \<Rightarrow> Inl (syntax_error (''expected '' @ bq ''MAIL FROM:<address>''))
      | Some after \<Rightarrow>
          (case split_path after of
             Inl e \<Rightarrow> Inl e
           | Inr (address, parameters) \<Rightarrow>
               (case mail_parameters parameters None of
                  Inl e \<Rightarrow> Inl e
                | Inr declared \<Rightarrow> Inr (Mail address declared))))"

fun rcpt_parameters :: "(str \<times> str option) list \<Rightarrow> command_error option" where
  "rcpt_parameters [] = None"
| "rcpt_parameters ((key, v) # ps) =
     (if key \<in> set [''NOTIFY'', ''ORCPT'', ''RRVS''] then rcpt_parameters ps
      else Some (new_error 555 ''5.5.4'' (''unsupported RCPT parameter '' @ bq key)))"

definition parse_rcpt :: "str \<Rightarrow> command_error + command" where
  "parse_rcpt rest =
     (case expect_keyword rest ''TO'' of
        None \<Rightarrow> Inl (syntax_error (''expected '' @ bq ''RCPT TO:<address>''))
      | Some after \<Rightarrow>
          (case split_path after of
             Inl e \<Rightarrow> Inl e
           | Inr (address, parameters) \<Rightarrow>
               if address = [] then Inl (new_error 501 ''5.1.3'' ''a recipient address is required'')
               else (case rcpt_parameters parameters of
                       Some e \<Rightarrow> Inl e
                     | None \<Rightarrow> Inr (Rcpt address))))"

definition parse_auth :: "str \<Rightarrow> command_error + command" where
  "parse_auth rest =
     (if rest = [] then Inl (new_error 501 ''5.5.4'' ''AUTH requires a mechanism'')
      else (case split_whitespace rest of
              [] \<Rightarrow> Inr (Auth [] None)
            | [m] \<Rightarrow> Inr (Auth (to_upper m) None)
            | m # i # _ \<Rightarrow> Inr (Auth (to_upper m) (Some i))))"

section \<open>The parser\<close>

definition parse_verb :: "str \<Rightarrow> str \<Rightarrow> command_error + command" where
  "parse_verb upper rest =
     (if upper = ''EHLO'' then
        (if rest = [] then Inl (syntax_error ''EHLO requires a domain name'')
         else Inr (Ehlo (first_token rest)))
      else if upper = ''HELO'' then
        (if rest = [] then Inl (syntax_error ''HELO requires a domain name'')
         else Inr (Helo (first_token rest)))
      else if upper = ''MAIL'' then parse_mail rest
      else if upper = ''RCPT'' then parse_rcpt rest
      else if upper = ''DATA'' then Inr DataCmd
      else if upper = ''RSET'' then Inr Rset
      else if upper = ''NOOP'' then Inr Noop
      else if upper = ''QUIT'' then Inr Quit
      else if upper = ''VRFY'' then Inr Vrfy
      else if upper = ''EXPN'' then Inr Expn
      else if upper = ''HELP'' then Inr Help
      else if upper = ''STARTTLS'' then Inr StartTls
      else if upper = ''AUTH'' then parse_auth rest
      else if upper \<in> set [''BDAT'', ''ETRN'', ''ATRN'', ''TURN'', ''SAML'', ''SOML'', ''SEND'']
      then Inr (Unimplemented upper)
      else Inr (Unknown upper))"

definition parse :: "bytes \<Rightarrow> command_error + command" where
  "parse line =
     (let text = utf8_lossy line; trimmed = trim text in
      if trimmed = [] then Inr Empty
      else let (verb, tail) = span_ws trimmed
           in parse_verb (to_upper verb) (trim_start tail))"

lemmas parse_defs = parse_verb_def parse_mail_def parse_rcpt_def parse_auth_def split_path_def
  expect_keyword_def strip_source_route_def parse_parameter_def first_token_def syntax_error_def
  new_error_def

section \<open>Case folding\<close>

lemma ascii_upper_lower [simp]: "ascii_upper (ascii_lower c) = ascii_upper c"
  by (auto simp: ascii_upper_def ascii_lower_def byte_def)

lemma ascii_lower_upper [simp]: "ascii_lower (ascii_upper c) = ascii_lower c"
  by (auto simp: ascii_upper_def ascii_lower_def byte_def)

lemma to_upper_lower: "to_upper (to_lower s) = to_upper s"
  by (simp add: to_upper_def to_lower_def comp_def)

lemma ascii_lower_less: "byte (ascii_lower c) < 128 \<longleftrightarrow> byte c < 128"
  by (auto simp: ascii_lower_def)

lemma is_ws_ascii_lower: "is_ws [ascii_lower c] = is_ws [c]"
  by (auto simp: is_ws_byte_iff ascii_lower_def)

lemma is_ascii_to_lower: "is_ascii (to_lower s) = is_ascii s"
  by (simp add: is_ascii_def to_lower_def list_all_iff ascii_lower_less)

text \<open>A verb or keyword in any case is a plain ASCII word.\<close>

lemma word_props:
  assumes "to_lower v = w" "is_ascii w" "\<forall>c\<in>set w. \<not> is_ws [c]"
  shows "is_ascii v" "\<forall>c\<in>set v. \<not> is_ws [c]" "to_upper v = to_upper w" "length v = length w"
    "eq_ignore_case v (to_upper w)"
proof -
  show "is_ascii v" using assms by (metis is_ascii_to_lower)
  show "\<forall>c\<in>set v. \<not> is_ws [c]"
    using assms(1,3) is_ws_ascii_lower by (auto simp: to_lower_def)
  show "to_upper v = to_upper w" using assms(1) by (metis to_upper_lower)
  show "length v = length w" using assms(1) by (metis length_to_lower)
  show "eq_ignore_case v (to_upper w)"
    using assms(1) by (auto simp: eq_ignore_case_def to_lower_def to_upper_def comp_def)
qed

section \<open>Reading back a command\<close>

lemma trim_start_Cons: "byte c < 128 \<Longrightarrow> \<not> is_ws [c] \<Longrightarrow> trim_start (c # s) = c # s"
  by (simp add: trim_start_def utf8_width_ascii)

lemma trim_start_blank: "trim_start (CHR '' '' # s) = trim_start s"
  by (simp add: trim_start_def utf8_width_def byte_def is_ws_def)

lemma trim_start_word:
  "is_ascii w \<Longrightarrow> \<forall>c\<in>set w. \<not> is_ws [c] \<Longrightarrow> w \<noteq> [] \<Longrightarrow> trim_start (w @ s) = w @ s"
  by (cases w) (auto simp: is_ascii_def trim_start_Cons)

lemma span_ws_word:
  assumes "is_ascii w" "\<forall>c\<in>set w. \<not> is_ws [c]"
  shows "span_ws (w @ CHR '' '' # s) = (w, CHR '' '' # s)"
proof -
  have c: "chars (w @ CHR '' '' # s) = map (\<lambda>c. [c]) w @ [CHR '' ''] # chars s"
    using assms(1) by (simp add: chars_ascii_append utf8_width_def byte_def)
  have sp: "is_ws [CHR '' '']" by (simp add: is_ws_def byte_def)
  have t: "takeWhile (\<lambda>x. \<not> is_ws x) (map (\<lambda>c. [c]) w @ [CHR '' ''] # chars s) = map (\<lambda>c. [c]) w"
    "dropWhile (\<lambda>x. \<not> is_ws x) (map (\<lambda>c. [c]) w @ [CHR '' ''] # chars s) = [CHR '' ''] # chars s"
    using assms(2) sp by (simp_all add: takeWhile_append dropWhile_append)
  have "concat (map (\<lambda>c. [c]) w) = w" by (induction w) auto
  then show ?thesis by (simp add: span_ws_def c t)
qed

lemma expect_keyword_word:
  assumes "to_lower k = to_lower kw" "is_ascii k" "\<forall>c\<in>set k. \<not> is_ws [c]" "k \<noteq> []"
  shows "expect_keyword (CHR '' '' # k @ CHR '':'' # s) kw = Some s"
proof -
  have t: "trim_start (CHR '' '' # k @ CHR '':'' # s) = k @ CHR '':'' # s"
    using trim_start_word[OF assms(2-4)] by (simp add: trim_start_blank)
  have l: "length kw = length k" using assms(1) by (metis length_to_lower)
  have c: "trim_start (CHR '':'' # s) = CHR '':'' # s"
    by (rule trim_start_Cons) (simp_all add: byte_def is_ws_def)
  show ?thesis
    using assms(1) by (simp add: expect_keyword_def t l eq_ignore_case_def c strip_prefix_def starts_with_def)
qed

lemma split_path_angle:
  assumes "trim a = a" "CHR ''>'' \<notin> set a" "\<not> starts_with ''@'' a"
  shows "split_path (CHR ''<'' # a @ CHR ''>'' # rest) = Inr (a, map parse_parameter (split_whitespace rest))"
proof -
  have t: "trim_start (CHR ''<'' # a @ CHR ''>'' # rest) = CHR ''<'' # a @ CHR ''>'' # rest"
    by (rule trim_start_Cons) (simp_all add: byte_def is_ws_def)
  have "split_once CHR ''>'' (a @ CHR ''>'' # rest) = Some (a, rest)"
    using assms(2) by (simp add: split_once_Some)
  then show ?thesis
    using assms(1,3) by (simp add: split_path_def t strip_prefix_def starts_with_def strip_source_route_def)
qed

lemma ws_tokens_word: "\<forall>x\<in>set xs. \<not> is_ws x \<Longrightarrow> ws_tokens xs acc = (if acc @ concat xs = [] then [] else [acc @ concat xs])"
  by (induction xs arbitrary: acc) auto

lemma split_whitespace_word:
  assumes "is_ascii w" "\<forall>c\<in>set w. \<not> is_ws [c]" "w \<noteq> []"
  shows "split_whitespace (CHR '' '' # w) = [w]" "split_whitespace [] = []"
proof -
  have "chars w = map (\<lambda>c. [c]) w" using assms(1) by (rule chars_ascii)
  moreover have "concat (map (\<lambda>c. [c]) w) = w" by (induction w) auto
  moreover have "chars (CHR '' '' # w) = [CHR '' ''] # chars w" by (simp add: utf8_width_def byte_def)
  moreover have "is_ws [CHR '' '']" by (simp add: is_ws_def byte_def)
  ultimately show "split_whitespace (CHR '' '' # w) = [w]"
    using assms ws_tokens_word[of "chars w" "[]"] by (simp add: split_whitespace_def)
qed (simp add: split_whitespace_def)

lemma parse_line:
  assumes v: "to_lower v = w" "is_ascii w" "\<forall>c\<in>set w. \<not> is_ws [c]" "v \<noteq> []"
    and s: "utf8_valid s" "\<not> is_ws [e]" "byte e < 128"
  shows "parse (v @ CHR '' '' # s @ [e]) = parse_verb (to_upper w) (trim_start (CHR '' '' # s @ [e]))"
proof -
  note p = word_props[OF v(1-3)]
  let ?l = "v @ CHR '' '' # s @ [e]"
  have sp: "byte CHR '' '' < 128" by (simp add: byte_def)
  have valid: "utf8_valid ?l"
    using p(1) s sp utf8_valid_append[of v "CHR '' '' # s @ [e]"] utf8_valid_append[of s "[e]"]
    by (simp add: utf8_valid_ascii)
  have "chars ?l = map (\<lambda>c. [c]) v @ chars (CHR '' '' # s) @ [[e]]"
    using p(1) s sp chars_append[of "CHR '' '' # s" "[e]"] by (simp add: chars_ascii_append utf8_width_ascii)
  then have "hd (chars ?l) = [hd v]" "last (chars ?l) = [e]"
    using v(4) by (auto simp: hd_append hd_map)
  moreover have "\<not> is_ws [hd v]" using p(2) v(4) by simp
  ultimately have "trim ?l = ?l" using s(2) by (intro trim_id) simp
  then show ?thesis
    using valid v(4) by (simp add: parse_def utf8_lossy_valid span_ws_word[OF p(1,2)] p(3))
qed

section \<open>Addresses that come out of the parser\<close>

lemma utf8_valid_span_ws: "utf8_valid s \<Longrightarrow> span_ws s = (a, b) \<Longrightarrow> utf8_valid a \<and> utf8_valid b"
  unfolding span_ws_def
  by (auto intro!: utf8_valid_sub dest: set_takeWhileD set_dropWhileD)

lemma utf8_valid_drop_ascii: "utf8_valid (p @ s) \<Longrightarrow> is_ascii p \<Longrightarrow> utf8_valid s"
  by (induction p) (auto simp: is_ascii_def)

lemma strip_prefix_valid: "utf8_valid s \<Longrightarrow> is_ascii p \<Longrightarrow> strip_prefix p s = Some t \<Longrightarrow> utf8_valid t"
  by (auto simp: strip_prefix_def starts_with_iff intro: utf8_valid_drop_ascii split: if_splits)

lemma strip_source_route_props:
  assumes "utf8_valid a" "trim a = a"
  shows "utf8_valid (strip_source_route a) \<and> trim (strip_source_route a) = strip_source_route a"
proof (cases "split_once CHR '':'' a")
  case None
  then show ?thesis using assms by (simp add: strip_source_route_def)
next
  case (Some p)
  then obtain x r where p: "p = (x, r)" "a = x @ CHR '':'' # r" by (cases p) (auto simp: split_once_Some)
  then have "utf8_valid r" using assms(1) utf8_valid_split[of x "CHR '':''" r] by (simp add: byte_def)
  with Some p(1) assms show ?thesis by (simp add: strip_source_route_def utf8_valid_trim)
qed

lemma split_path_props:
  assumes "utf8_valid s" "split_path s = Inr (a, ps)"
  shows "utf8_valid a \<and> trim a = a"
proof -
  have v: "utf8_valid (trim_start s)" using assms(1) by (rule utf8_valid_trim_start)
  have "\<exists>x. a = strip_source_route (trim x) \<and> utf8_valid x"
  proof (cases "strip_prefix ''<'' (trim_start s)")
    case None
    obtain x r where x: "span_ws (trim_start s) = (x, r)" by (cases "span_ws (trim_start s)")
    then have "a = strip_source_route (trim x)"
      using assms(2) None by (simp add: split_path_def)
    then show ?thesis using utf8_valid_span_ws[OF v x] by blast
  next
    case (Some op)
    have vop: "utf8_valid op"
      by (rule strip_prefix_valid[OF v _ Some]) (simp add: is_ascii_def byte_def)
    obtain x r where x: "split_once CHR ''>'' op = Some (x, r)"
      using assms(2) Some by (cases "split_once CHR ''>'' op") (auto simp: split_path_def)
    then have "a = strip_source_route (trim x)"
      using assms(2) Some by (simp add: split_path_def)
    moreover have "utf8_valid x"
      using x vop utf8_valid_split[of x "CHR ''>''" r] by (simp add: split_once_Some byte_def)
    ultimately show ?thesis by blast
  qed
  then obtain x where a: "a = strip_source_route (trim x)" and "utf8_valid x" by blast
  then show ?thesis using a strip_source_route_props[of "trim x"] by (simp add: utf8_valid_trim)
qed

lemma expect_keyword_valid:
  assumes "utf8_valid s" "expect_keyword s k = Some t" "is_ascii k"
  shows "utf8_valid t"
proof -
  let ?s = "trim_start s"
  let ?k = "take (length k) ?s"
  have e: "eq_ignore_case ?k k" "strip_prefix '':'' (trim_start (drop (length k) ?s)) = Some t"
    using assms(2) by (auto simp: expect_keyword_def Let_def split: if_splits)
  then have "is_ascii ?k" using assms(3) by (metis eq_ignore_case_def is_ascii_to_lower)
  moreover have "utf8_valid (?k @ drop (length k) ?s)"
    using assms(1) by (simp add: utf8_valid_trim_start)
  ultimately have "utf8_valid (drop (length k) ?s)" by (metis utf8_valid_drop_ascii)
  then show ?thesis
    using strip_prefix_valid[OF utf8_valid_trim_start _ e(2)] by (simp add: is_ascii_def byte_def)
qed

lemma parse_verb_mail:
  assumes "parse_verb v s = Inr (Mail a sz)" "utf8_valid s"
  shows "utf8_valid a \<and> trim a = a"
proof -
  have "parse_mail s = Inr (Mail a sz)"
    using assms(1)
    by (auto simp: parse_verb_def parse_rcpt_def parse_auth_def Let_def
        split: if_splits option.splits sum.splits list.splits)
  then obtain t ps where "expect_keyword s ''FROM'' = Some t" "split_path t = Inr (a, ps)"
    by (auto simp: parse_mail_def split: option.splits sum.splits)
  moreover have "is_ascii ''FROM''" by (simp add: is_ascii_def byte_def)
  ultimately show ?thesis using assms(2) split_path_props expect_keyword_valid by blast
qed

lemma parse_verb_rcpt:
  assumes "parse_verb v s = Inr (Rcpt a)" "utf8_valid s"
  shows "utf8_valid a \<and> trim a = a \<and> a \<noteq> []"
proof -
  have "parse_rcpt s = Inr (Rcpt a)"
    using assms(1)
    by (auto simp: parse_verb_def parse_mail_def parse_auth_def Let_def
        split: if_splits option.splits sum.splits list.splits)
  then obtain t ps where "expect_keyword s ''TO'' = Some t" "split_path t = Inr (a, ps)" "a \<noteq> []"
    by (auto simp: parse_rcpt_def split: option.splits sum.splits if_splits)
  moreover have "is_ascii ''TO''" by (simp add: is_ascii_def byte_def)
  ultimately show ?thesis using assms(2) split_path_props expect_keyword_valid by blast
qed

lemma parse_addresses:
  shows "parse line = Inr (Mail a sz) \<Longrightarrow> utf8_valid a \<and> trim a = a"
    and "parse line = Inr (Rcpt a) \<Longrightarrow> utf8_valid a \<and> trim a = a \<and> a \<noteq> []"
proof -
  obtain v t where s: "span_ws (trim (utf8_lossy line)) = (v, t)" by (cases "span_ws (trim (utf8_lossy line))")
  have "utf8_valid (trim (utf8_lossy line))" by (intro utf8_valid_trim utf8_valid_lossy)
  then have t: "utf8_valid (trim_start t)"
    using utf8_valid_span_ws[OF _ s] by (blast intro: utf8_valid_trim_start)
  show "parse line = Inr (Mail a sz) \<Longrightarrow> utf8_valid a \<and> trim a = a"
    using parse_verb_mail[OF _ t] s by (auto simp: parse_def Let_def split: if_splits)
  show "parse line = Inr (Rcpt a) \<Longrightarrow> utf8_valid a \<and> trim a = a \<and> a \<noteq> []"
    using parse_verb_rcpt[OF _ t] s by (auto simp: parse_def Let_def split: if_splits)
qed

text \<open>Every syntax error is a permanent 5xx reply.\<close>

lemma parse_error_code:
  assumes "parse line = Inl e"
  shows "err_code e \<in> {501, 555}"
proof -
  have sp: "split_path s = Inl e \<Longrightarrow> err_code e = 501" for s e
    by (auto simp: split_path_def syntax_error_def new_error_def Let_def split: option.splits prod.splits)
  have mp: "mail_parameters ps d = Inl e \<Longrightarrow> err_code e \<in> {501, 555}" for ps d e
    by (induction ps d rule: mail_parameters.induct)
      (auto simp: new_error_def split: if_splits option.splits)
  have rp: "rcpt_parameters ps = Some e \<Longrightarrow> err_code e = 555" for ps e
    by (induction ps rule: rcpt_parameters.induct) (auto simp: new_error_def split: if_splits)
  have m: "parse_mail s = Inl e \<Longrightarrow> err_code e \<in> {501, 555}" for s
    by (auto simp: parse_mail_def syntax_error_def new_error_def split: option.splits sum.splits
        dest: sp mp)
  have r: "parse_rcpt s = Inl e \<Longrightarrow> err_code e \<in> {501, 555}" for s
    by (auto simp: parse_rcpt_def syntax_error_def new_error_def split: option.splits sum.splits if_splits
        dest: sp rp)
  have a: "parse_auth s = Inl e \<Longrightarrow> err_code e \<in> {501, 555}" for s
    by (auto simp: parse_auth_def new_error_def split: if_splits list.splits)
  show ?thesis using assms m r a
    by (auto simp: parse_def parse_verb_def syntax_error_def new_error_def Let_def
        split: if_splits prod.splits)
qed

section \<open>Properties\<close>

text \<open>A MAIL command written by a client - any letter case of the verb and the keyword, an
  address in angle brackets, a SIZE parameter below \<open>2^64\<close> - is read back as exactly that
  address and that size.\<close>

theorem parse_mail_roundtrip:
  assumes "to_lower v = ''mail''" "to_lower f = ''from''"
    and "utf8_valid a" "trim a = a" "CHR ''>'' \<notin> set a" "\<not> starts_with ''@'' a" and "n < 2 ^ 64"
  shows "parse (v @ '' '' @ f @ '':<'' @ a @ ''> SIZE='' @ dec n) = Inr (Mail a (Some n))"
proof -
  let ?w = "''SIZE='' @ dec n"
  let ?tail = "f @ '':<'' @ a @ ''> '' @ ?w"
  note v = word_props[OF assms(1)] and f = word_props[OF assms(2)]
  have dig: "is_digit_byte c \<Longrightarrow> byte c < 128 \<and> \<not> is_ws [c]" for c
    by (auto simp: is_digit_byte_def is_ws_byte_iff)
  then have wa: "is_ascii ?w" "\<forall>c\<in>set ?w. \<not> is_ws [c]"
    using dec_digits[of n] by (auto simp: is_ascii_def list_all_iff byte_def is_ws_def)
  obtain ds e where ds: "dec n = ds @ [e]" using dec_nonempty[of n] by (metis rev_exhaust)
  have e: "byte e < 128" "\<not> is_ws [e]" using wa ds by (auto simp: is_ascii_def)
  have fl: "is_ascii f" "\<forall>c\<in>set f. \<not> is_ws [c]" "f \<noteq> []"
    using f assms(2) by (auto simp: is_ascii_def byte_def is_ws_def)
  have val: "utf8_valid (f @ '':<'' @ a @ ''> SIZE='' @ ds)"
  proof -
    have "is_ascii '':<''" "is_ascii (''> SIZE='' @ ds)"
      using wa(1) ds by (auto simp: is_ascii_def byte_def)
    from this[THEN utf8_valid_ascii] utf8_valid_ascii[OF fl(1)] assms(3)
    show ?thesis using utf8_valid_append by blast
  qed
  have "parse (v @ CHR '' '' # (f @ '':<'' @ a @ ''> SIZE='' @ ds) @ [e])
      = parse_verb (to_upper ''mail'') (trim_start (CHR '' '' # (f @ '':<'' @ a @ ''> SIZE='' @ ds) @ [e]))"
    by (rule parse_line[OF assms(1) _ _ _ val e(2,1)])
      (use assms(1) in \<open>auto simp: is_ascii_def byte_def is_ws_def to_lower_def\<close>)
  moreover have "to_upper ''mail'' = ''MAIL''" by code_simp
  moreover have "trim_start (CHR '' '' # ?tail) = ?tail"
    using trim_start_word[OF fl] by (simp add: trim_start_blank)
  moreover have "expect_keyword ?tail ''FROM'' = Some (''<'' @ a @ ''> '' @ ?w)"
  proof -
    have "to_lower f = to_lower ''FROM''" unfolding assms(2) by code_simp
    from expect_keyword_word[OF this fl, of "''<'' @ a @ ''> '' @ ?w"] trim_start_word[OF fl]
    show ?thesis by (simp add: expect_keyword_def trim_start_blank)
  qed
  moreover have "split_path (''<'' @ a @ ''> '' @ ?w) = Inr (a, [(''SIZE'', Some (dec n))])"
  proof -
    have "split_once CHR ''='' ?w = Some (''SIZE'', dec n)" by simp
    moreover have "to_upper ''SIZE'' = ''SIZE''" by code_simp
    ultimately have "parse_parameter ?w = (''SIZE'', Some (dec n))" by (simp add: parse_parameter_def)
    then show ?thesis
      using split_path_angle[OF assms(4-6), of "CHR '' '' # ?w"] split_whitespace_word(1)[OF wa] by simp
  qed
  ultimately show ?thesis
    using parse_uint_dec[OF assms(7)] ds by (simp add: parse_verb_def parse_mail_def)
qed

theorem parse_mail_roundtrip_witness:
  "parse (''mAiL From:<a.b@c.io> SIZE='' @ dec 5000000000) = Inr (Mail ''a.b@c.io'' (Some 5000000000))"
proof -
  have h: "to_lower ''mAiL'' = ''mail''" "to_lower ''From'' = ''from''" "utf8_valid ''a.b@c.io''"
    "trim ''a.b@c.io'' = ''a.b@c.io''" "CHR ''>'' \<notin> set ''a.b@c.io''" "\<not> starts_with ''@'' ''a.b@c.io''"
    "(5000000000 :: nat) < 2 ^ 64"
    by (code_simp, code_simp, code_simp, code_simp, simp, code_simp, simp)
  show ?thesis using parse_mail_roundtrip[OF h] by simp
qed

text \<open>C37. The address of a parsed MAIL or RCPT command is valid UTF-8 without surrounding
  whitespace, and the one of RCPT is not empty - whatever bytes the client sent.\<close>

theorem parsed_address_wellformed:
  "(case parse line of
      Inr (Mail a sz) \<Rightarrow> utf8_valid a \<and> trim a = a
    | Inr (Rcpt a) \<Rightarrow> utf8_valid a \<and> trim a = a \<and> a \<noteq> []
    | Inl e \<Rightarrow> err_code e \<in> {501, 555}
    | _ \<Rightarrow> True)"
  using parse_addresses[of line] parse_error_code[of line]
  by (auto split: sum.splits command.splits)

end
