(* ===== verification/Session.thy ===== *)
theory Session
  imports Lines Command Dispatch
begin

text \<open>The inbound SMTP session (src/smtp/session.rs) and the admission of connections (src/smtp/server.rs).
  An operation of the session is a function of the session that returns its result, or an I/O error, with
  the session after it; \<^const>\<open>None\<close> is a panic of the task, which only the submission of a message can
  cause. What the client sends is the source of the line reader; \<open>se_written\<close> is what the client was
  sent, \<open>se_writes\<close> the success of the next writes (all succeed once the list is used up), and
  \<open>se_submitted\<close> what was handed to the dispatcher.\<close>

definition VERSION :: str where "VERSION = ''1.0.0''"
definition MAX_COMMAND_LINE :: nat where "MAX_COMMAND_LINE = 4096"
definition MAX_PROTOCOL_ERRORS :: u32 where "MAX_PROTOCOL_ERRORS = 12"

datatype disconnect =
    DiscQuit
  | DiscClientClosed
  | DiscTimeout
  | DiscProtocolAbuse
  | DiscWriteFailed
  | DiscReadFailed
  | DiscServerShutdown

fun disconnect_str :: "disconnect \<Rightarrow> str" where
  "disconnect_str DiscQuit = ''client sent QUIT''"
| "disconnect_str DiscClientClosed = ''client closed the connection''"
| "disconnect_str DiscTimeout = ''idle timeout''"
| "disconnect_str DiscProtocolAbuse = ''too many protocol errors''"
| "disconnect_str DiscWriteFailed = ''write failed''"
| "disconnect_str DiscReadFailed = ''read failed''"
| "disconnect_str DiscServerShutdown = ''server shutting down''"

record smtp_session =
  se_state :: app_state
  se_config :: config
  se_reader :: line_reader
  se_written :: bytes
  se_writes :: "bool list"
  se_peer :: ip_addr
  se_helo_name :: str
  se_esmtp :: bool
  se_authenticated :: bool
  se_auth_user :: "str option"
  se_envelope_sender :: "str option"
  se_recipients :: "str list"
  se_accepted_messages :: u32
  se_protocol_errors :: u32
  se_sequence :: u64
  se_submitted :: "inbound_message list"

text \<open>\<open>se_sequence\<close> is the process-wide counter of queue ids; \<open>ou_world n\<close> is what the submission that draws
  number \<open>n\<close> finds outside the program.\<close>

record ('addr, 'env) outside =
  ou_b64d :: "str \<Rightarrow> bytes option"
  ou_b64e :: "bytes \<Rightarrow> str"
  ou_world :: "u64 \<Rightarrow> ('addr, 'env) world"

datatype io_error = SocketError | UnexpectedEof str

type_synonym 'a act = "smtp_session \<Rightarrow> ((io_error + 'a) \<times> smtp_session) option"

definition and_then :: "'a act \<Rightarrow> ('a \<Rightarrow> 'b act) \<Rightarrow> 'b act" where
  "and_then f g s =
     (case f s of
        None \<Rightarrow> None
      | Some (Inl e, s') \<Rightarrow> Some (Inl e, s')
      | Some (Inr x, s') \<Rightarrow> g x s')"

definition ret :: "'a \<Rightarrow> 'a act" where
  "ret x s = Some (Inr x, s)"

definition new_session :: "app_state \<Rightarrow> read_event list \<Rightarrow> bool list \<Rightarrow> ip_addr \<Rightarrow> u64 \<Rightarrow> smtp_session" where
  "new_session st src writes peer sq =
     \<lparr>se_state = st, se_config = app_config st, se_reader = new_reader src, se_written = [], se_writes = writes,
      se_peer = peer, se_helo_name = [], se_esmtp = False, se_authenticated = False, se_auth_user = None,
      se_envelope_sender = None, se_recipients = [], se_accepted_messages = 0, se_protocol_errors = 0,
      se_sequence = sq, se_submitted = []\<rparr>"

definition max_message_size :: "smtp_session \<Rightarrow> nat" where
  "max_message_size s = max_message_size_bytes (se_config s)"

definition auth_available :: "smtp_session \<Rightarrow> bool" where
  "auth_available s = (auth_users (server (se_config s)) \<noteq> [])"

definition tally_up :: "(counters \<Rightarrow> counters) \<Rightarrow> smtp_session \<Rightarrow> smtp_session" where
  "tally_up f s = s\<lparr>se_state := count f (se_state s)\<rparr>"

section \<open>Replies\<close>

fun sanitize_loop :: "str list \<Rightarrow> bool \<Rightarrow> str \<Rightarrow> str" where
  "sanitize_loop [] pending_space cleaned = cleaned"
| "sanitize_loop (ch # rest) pending_space cleaned =
     (if ch = [CR] \<or> ch = [LF] then sanitize_loop rest True cleaned
      else if is_control ch then sanitize_loop rest pending_space cleaned
      else sanitize_loop rest False (cleaned @ (if pending_space \<and> cleaned \<noteq> [] then '' '' else []) @ ch))"

definition sanitize :: "str \<Rightarrow> str" where
  "sanitize text = truncate_str (trim (sanitize_loop (chars text) False [])) 400"

text \<open>A write that fails ends the session; what it got out before it failed is not recorded.\<close>

definition write_raw :: "bytes \<Rightarrow> unit act" where
  "write_raw bs s =
     (case se_writes s of
        False # rest \<Rightarrow> Some (Inl SocketError, s\<lparr>se_writes := rest\<rparr>)
      | writes \<Rightarrow> Some (Inr (), s\<lparr>se_writes := tl writes, se_written := se_written s @ bs\<rparr>))"

definition reply_line :: "bool \<Rightarrow> nat \<Rightarrow> str option \<Rightarrow> str \<Rightarrow> bytes" where
  "reply_line esmtp code enhanced text =
     (case (if esmtp then enhanced else None) of
        Some status \<Rightarrow> dec code @ '' '' @ status @ '' '' @ sanitize text @ CRLF
      | None \<Rightarrow> dec code @ '' '' @ sanitize text @ CRLF)"

definition reply :: "nat \<Rightarrow> str option \<Rightarrow> str \<Rightarrow> unit act" where
  "reply code enhanced text s = write_raw (reply_line (se_esmtp s) code enhanced text) s"

definition protocol_error :: "nat \<Rightarrow> str \<Rightarrow> str \<Rightarrow> unit act" where
  "protocol_error code enhanced text s =
     reply code (Some enhanced) text (s\<lparr>se_protocol_errors := se_protocol_errors s + 1\<rparr>)"

definition reset_transaction :: "smtp_session \<Rightarrow> smtp_session" where
  "reset_transaction s = s\<lparr>se_envelope_sender := None, se_recipients := []\<rparr>"

definition ehlo_extensions :: "smtp_session \<Rightarrow> str list" where
  "ehlo_extensions s =
     [''SIZE '' @ dec (max_message_size s), ''8BITMIME'', ''PIPELINING'', ''ENHANCEDSTATUSCODES'']
     @ (if auth_available s then [''AUTH PLAIN LOGIN''] else []) @ [''HELP'']"

fun extension_lines :: "str list \<Rightarrow> bytes" where
  "extension_lines [] = []"
| "extension_lines (x # xs) = ''250'' @ (if xs = [] then '' '' else ''-'') @ x @ CRLF @ extension_lines xs"

definition send_ehlo_response :: "unit act" where
  "send_ehlo_response s =
     (let greeting = hostname (server (se_config s)) @ '' Hello '' @ se_helo_name s @ '' ['' @ ip_str (se_peer s) @ '']''
      in write_raw (''250-'' @ greeting @ CRLF @ extension_lines (ehlo_extensions s)) s)"

section \<open>Authentication\<close>

definition next_line :: "nat \<Rightarrow> smtp_session \<Rightarrow> line_result io \<times> smtp_session" where
  "next_line limit s = (case read_line limit (se_reader s) of (x, r) \<Rightarrow> (x, s\<lparr>se_reader := r\<rparr>))"

definition read_auth_line :: "str option act" where
  "read_auth_line s =
     (case next_line MAX_COMMAND_LINE s of
        (Done (Line line), s) \<Rightarrow>
          let text = trim (utf8_lossy line)
          in ret (if text = ''*'' \<or> text = [] then None else Some text) s
      | (Lines.Failed, s) \<Rightarrow> Some (Inl SocketError, s)
      | (_, s) \<Rightarrow> ret None s)"

definition collect_plain :: "('addr, 'env) outside \<Rightarrow> str option \<Rightarrow> (str \<times> str) option act" where
  "collect_plain e initial =
     and_then (case initial of
         Some v \<Rightarrow> ret (Some v)
       | None \<Rightarrow> and_then (write_raw (''334 '' @ CRLF)) (\<lambda>_. read_auth_line))
       (\<lambda>encoded. ret
         (case Option.bind encoded (b64_decode (ou_b64d e)) of
            None \<Rightarrow> None
          | Some decoded \<Rightarrow>
              (case split_all NUL decoded of
                 _ # user # pw # _ \<Rightarrow> Some (utf8_lossy user, utf8_lossy pw)
               | _ \<Rightarrow> None)))"

definition collect_login :: "('addr, 'env) outside \<Rightarrow> str option \<Rightarrow> (str \<times> str) option act" where
  "collect_login e initial =
     and_then (case initial of
         Some v \<Rightarrow> ret (Some v)
       | None \<Rightarrow> and_then (write_raw (''334 '' @ ou_b64e e ''Username:'' @ CRLF)) (\<lambda>_. read_auth_line))
       (\<lambda>user. case user of
            None \<Rightarrow> ret None
          | Some user \<Rightarrow>
              and_then (write_raw (''334 '' @ ou_b64e e ''Password:'' @ CRLF))
               (\<lambda>_. and_then read_auth_line
               (\<lambda>pw. ret
                  (case pw of
                     None \<Rightarrow> None
                   | Some pw \<Rightarrow>
                       (case (b64_decode (ou_b64d e) user, b64_decode (ou_b64d e) pw) of
                          (Some u, Some p) \<Rightarrow> Some (utf8_lossy u, utf8_lossy p)
                        | _ \<Rightarrow> None)))))"

definition credentials_match :: "config \<Rightarrow> str \<Rightarrow> str \<Rightarrow> bool" where
  "credentials_match c user pw =
     (list_ex (\<lambda>u. iu_username u = user \<and> secret_eq (iu_password u) pw) (auth_users (server c))
      \<or> list_ex (\<lambda>d. sd_username d = user \<and> secret_eq (sd_password d) pw) (config.smtp_details c))"

definition check_credentials :: "(str \<times> str) option \<Rightarrow> unit act" where
  "check_credentials credentials s =
     (case credentials of
        None \<Rightarrow>
          reply 501 (Some ''5.5.2'') ''could not decode the AUTH response''
            (tally_up (\<lambda>c. c\<lparr>auth_failure := auth_failure c + 1\<rparr>) s)
      | Some (user, pw) \<Rightarrow>
          if credentials_match (se_config s) user pw
          then reply 235 (Some ''2.7.0'') ''authentication successful''
                 (tally_up (\<lambda>c. c\<lparr>auth_success := auth_success c + 1\<rparr>)
                   (s\<lparr>se_authenticated := True, se_auth_user := Some user\<rparr>))
          else reply 535 (Some ''5.7.8'') ''authentication credentials invalid''
                 (tally_up (\<lambda>c. c\<lparr>auth_failure := auth_failure c + 1\<rparr>) s))"

definition handle_auth :: "('addr, 'env) outside \<Rightarrow> str \<Rightarrow> str option \<Rightarrow> unit act" where
  "handle_auth e mech initial s =
     (if \<not> auth_available s then reply 503 (Some ''5.5.1'') ''authentication is not enabled'' s
      else if se_authenticated s then reply 503 (Some ''5.5.1'') ''already authenticated'' s
      else if se_envelope_sender s \<noteq> None
      then reply 503 (Some ''5.5.1'') ''AUTH is not allowed during a transaction'' s
      else if mech = ''PLAIN'' then and_then (collect_plain e initial) check_credentials s
      else if mech = ''LOGIN'' then and_then (collect_login e initial) check_credentials s
      else reply 504 (Some ''5.5.4'') (''mechanism '' @ bq mech @ '' is not supported, use PLAIN or LOGIN'') s)"

section \<open>The envelope\<close>

definition handle_mail :: "str \<Rightarrow> nat option \<Rightarrow> unit act" where
  "handle_mail address declared s =
     (if se_helo_name s = [] then reply 503 (Some ''5.5.1'') ''send EHLO or HELO first'' s
      else if require_auth (server (se_config s)) \<and> \<not> se_authenticated s
      then reply 530 (Some ''5.7.0'') ''authentication required'' s
      else if se_envelope_sender s \<noteq> None
      then reply 503 (Some ''5.5.1'') ''nested MAIL command; send RSET first'' s
      else if address \<noteq> [] \<and> \<not> looks_like_email address
      then reply 553 (Some ''5.1.7'') (bq (truncate_str address 120) @ '' is not a valid sender address'') s
      else
        (case declared of
           Some n \<Rightarrow>
             if max_message_size s < n
             then reply 552 (Some ''5.3.4'')
                    (''message size '' @ dec n @ '' exceeds the '' @ dec (max_message_size s) @ '' byte limit'')
                    (tally_up (\<lambda>c. c\<lparr>messages_rejected := messages_rejected c + 1\<rparr>) s)
             else reply 250 (Some ''2.1.0'') ''sender OK'' (s\<lparr>se_envelope_sender := Some address, se_recipients := []\<rparr>)
         | None \<Rightarrow>
             reply 250 (Some ''2.1.0'') ''sender OK'' (s\<lparr>se_envelope_sender := Some address, se_recipients := []\<rparr>)))"

definition handle_rcpt :: "str \<Rightarrow> unit act" where
  "handle_rcpt address s =
     (if se_envelope_sender s = None then reply 503 (Some ''5.5.1'') ''send MAIL FROM first'' s
      else if \<not> looks_like_email address
      then reply 553 (Some ''5.1.3'') (bq (truncate_str address 120) @ '' is not a valid recipient address'') s
      else if max_recipients_per_message (server (se_config s)) \<le> length (se_recipients s)
      then reply 452 (Some ''4.5.3'')
             (''too many recipients (limit '' @ dec (max_recipients_per_message (server (se_config s))) @ '')'') s
      else if list_ex (\<lambda>existing. eq_ignore_case existing address) (se_recipients s)
      then reply 250 (Some ''2.1.5'') ''recipient OK (duplicate ignored)'' s
      else reply 250 (Some ''2.1.5'') ''recipient OK'' (s\<lparr>se_recipients := se_recipients s @ [address]\<rparr>))"

section \<open>The body\<close>

datatype body_result = Complete bytes | TooLarge nat | Aborted bool

function read_body_loop :: "nat \<Rightarrow> nat \<Rightarrow> bytes \<Rightarrow> bool \<Rightarrow> line_reader \<Rightarrow> (io_error + body_result) \<times> line_reader" where
  "read_body_loop limit line_limit got over_size r =
     (case read_line line_limit r of
        (Done (Line line), r') \<Rightarrow>
          if line = ''.'' then (Inr (if over_size then TooLarge limit else Complete got), r')
          else if over_size then read_body_loop limit line_limit got True r'
          else
            let payload = (case line of c # rest \<Rightarrow> if c = CHR ''.'' then rest else line | [] \<Rightarrow> line) in
            if limit < length got + length payload + 2
            then read_body_loop limit line_limit [] True r'
            else read_body_loop limit line_limit (got @ payload @ CRLF) False r'
      | (Done TooLong, r') \<Rightarrow> read_body_loop limit line_limit got True r'
      | (Done Eof, r') \<Rightarrow> (Inr (Aborted False), r')
      | (Lines.Failed, r') \<Rightarrow> (Inl SocketError, r')
      | (Elapsed, r') \<Rightarrow> (Inr (Aborted True), r'))"
  by pat_completeness auto
termination
  by (relation "measure (\<lambda>(limit, line_limit, got, over, r). to_come r)")
    (simp_all, (metis read_line_to_come(2) line_result.distinct)+)

declare read_body_loop.simps [simp del]

definition read_body :: "nat \<Rightarrow> line_reader \<Rightarrow> (io_error + body_result) \<times> line_reader" where
  "read_body limit r = read_body_loop limit (usize_sat_add limit MAX_COMMAND_LINE) [] False r"

lemma read_body_loop_to_come: "read_body_loop limit ll got over r = (x, r') \<Longrightarrow> to_come r' \<le> to_come r"
proof (induction "to_come r" arbitrary: got over r rule: less_induct)
  case less
  obtain y r1 where l: "read_line ll r = (y, r1)" by (rule prod.exhaust)
  note le = read_line_to_come[OF l]
  show ?case
  proof (cases "\<exists>k. y = Done k \<and> k \<noteq> Eof")
    case True
    then have lt: "to_come r1 < to_come r" using le(2) by blast
    have "r' = r1 \<or> (\<exists>got over. read_body_loop limit ll got over r1 = (x, r'))"
      using less.prems l True by (subst (asm) read_body_loop.simps) (auto simp: Let_def split: line_result.splits if_splits)
    then show ?thesis using less.hyps[OF lt] lt by fastforce
  next
    case False
    then have "r' = r1"
      using less.prems l by (subst (asm) read_body_loop.simps) (auto split: io.splits line_result.splits)
    then show ?thesis using le by simp
  qed
qed

fun fits :: "nat \<Rightarrow> body_result \<Rightarrow> bool" where
  "fits limit (Complete content) = (length content \<le> limit)"
| "fits limit _ = True"

lemma read_body_loop_fits:
  "read_body_loop limit ll got over r = (Inr b, r') \<Longrightarrow> length got \<le> limit \<Longrightarrow> fits limit b"
proof (induction limit ll got over r arbitrary: b r' rule: read_body_loop.induct)
  case (1 limit ll got over r)
  obtain y r1 where l: "read_line ll r = (y, r1)" by (rule prod.exhaust)
  show ?case
  proof (cases y)
    case (Done k)
    note d = l[unfolded Done, symmetric]
    show ?thesis
    proof (cases k)
      case (Line line)
      note e = "1.prems"(1)[unfolded read_body_loop.simps[of limit ll got over r] d[symmetric] Line prod.case io.case line_result.case]
      show ?thesis
        using e "1.prems"(2) "1.IH"(1)[OF d[unfolded Line]] "1.IH"(2,3)[OF d[unfolded Line] _ _ _ _ refl]
        by (auto simp: Let_def split: if_splits)
    next
      case TooLong
      then show ?thesis using "1.prems" "1.IH"(4)[OF d] l Done by (subst (asm) read_body_loop.simps) auto
    next
      case Eof
      then show ?thesis using "1.prems" l Done by (subst (asm) read_body_loop.simps) auto
    qed
  qed (use "1.prems" l in \<open>subst (asm) read_body_loop.simps; auto\<close>)+
qed

section \<open>DATA\<close>

text \<open>\<open>None\<close> is the panic of the task the submission may cause.\<close>

definition answered :: "submit_outcome \<Rightarrow> smtp_session \<Rightarrow> smtp_session" where
  "answered outcome s =
     (case outcome of
        SubRejected _ _ _ \<Rightarrow> tally_up (\<lambda>c. c\<lparr>messages_rejected := messages_rejected c + 1\<rparr>) s
      | _ \<Rightarrow> s\<lparr>se_accepted_messages := se_accepted_messages s + 1\<rparr>)"

definition answer_submission :: "str \<Rightarrow> submit_outcome \<Rightarrow> unit act" where
  "answer_submission queue_id outcome s =
     (case outcome of
        SubDelivered relay_id response \<Rightarrow>
          reply 250 (Some ''2.0.0'') (''OK: relayed via '' @ relay_id @ '' as '' @ queue_id)
      | SubQueued \<Rightarrow> reply 250 (Some ''2.0.0'') (''OK: queued as '' @ queue_id)
      | SubRejected code enhanced text \<Rightarrow> reply code (Some enhanced) text) (answered outcome s)"

definition inbound_of :: "smtp_session \<Rightarrow> str \<Rightarrow> bytes \<Rightarrow> inbound_message" where
  "inbound_of s queue_id content =
     \<lparr>in_id = queue_id, in_sender = (case se_envelope_sender s of Some a \<Rightarrow> a | None \<Rightarrow> []),
      in_recipients = se_recipients s, in_raw = content, in_client_ip = Some (se_peer s), in_helo = se_helo_name s,
      in_auth_user = se_auth_user s\<rparr>"

definition dispatch_message :: "('addr, 'env) outside \<Rightarrow> bytes \<Rightarrow> unit act" where
  "dispatch_message e content s =
     (let w = ou_world e (se_sequence s);
          (queue_id, sq) = new_queue_id (nat (w_now w)) (se_sequence s);
          inbound = inbound_of s queue_id content
      in case submit w inbound (se_state s) of
           None \<Rightarrow> None
         | Some (outcome, st) \<Rightarrow>
             answer_submission queue_id outcome
               (reset_transaction (s\<lparr>se_state := st, se_sequence := sq, se_submitted := se_submitted s @ [inbound]\<rparr>)))"

definition body_action :: "('addr, 'env) outside \<Rightarrow> body_result \<Rightarrow> unit act" where
  "body_action e result s =
     (case result of
        Complete content \<Rightarrow> dispatch_message e content s
      | TooLarge limit \<Rightarrow>
          reply 552 (Some ''5.3.4'') (''message exceeds the '' @ dec limit @ '' byte limit'')
            (reset_transaction (tally_up (\<lambda>c. c\<lparr>messages_rejected := messages_rejected c + 1\<rparr>) s))
      | Aborted timed_out \<Rightarrow>
          Some (Inl (UnexpectedEof (if timed_out then ''timed out during DATA'' else ''client disconnected during DATA'')),
            reset_transaction (if timed_out then tally_up (\<lambda>c. c\<lparr>sessions_timed_out := sessions_timed_out c + 1\<rparr>) s else s)))"

definition receive_body :: "body_result act" where
  "receive_body s = (case read_body (max_message_size s) (se_reader s) of (x, r) \<Rightarrow> Some (x, s\<lparr>se_reader := r\<rparr>))"

definition handle_data :: "('addr, 'env) outside \<Rightarrow> unit act" where
  "handle_data e s =
     (if se_envelope_sender s = None then reply 503 (Some ''5.5.1'') ''send MAIL FROM first'' s
      else if se_recipients s = [] then reply 503 (Some ''5.5.1'') ''no valid recipients; send RCPT TO first'' s
      else and_then (reply 354 None ''start mail input; end with <CRLF>.<CRLF>'')
             (\<lambda>_. and_then receive_body (body_action e)) s)"

section \<open>The commands\<close>

text \<open>Whether the session goes on.\<close>

definition going :: "unit act \<Rightarrow> bool act" where
  "going f = and_then f (\<lambda>_. ret True)"

definition handle :: "('addr, 'env) outside \<Rightarrow> command \<Rightarrow> bool act" where
  "handle e cmd s =
     (case cmd of
        Empty \<Rightarrow> going (protocol_error 500 ''5.5.2'' ''empty command'') s
      | Ehlo d \<Rightarrow> going send_ehlo_response (reset_transaction (s\<lparr>se_helo_name := d, se_esmtp := True\<rparr>))
      | Helo d \<Rightarrow>
          going (reply 250 None (hostname (server (se_config s)) @ '' Hello '' @ d))
            (reset_transaction (s\<lparr>se_helo_name := d, se_esmtp := False\<rparr>))
      | Auth mech initial \<Rightarrow> going (handle_auth e mech initial) s
      | Mail address declared \<Rightarrow> going (handle_mail address declared) s
      | Rcpt address \<Rightarrow> going (handle_rcpt address) s
      | DataCmd \<Rightarrow> going (handle_data e) s
      | Rset \<Rightarrow> going (reply 250 (Some ''2.0.0'') ''flushed'') (reset_transaction s)
      | Noop \<Rightarrow> going (reply 250 (Some ''2.0.0'') ''OK'') s
      | Quit \<Rightarrow>
          and_then (reply 221 (Some ''2.0.0'') (hostname (server (se_config s)) @ '' closing connection''))
            (\<lambda>_. ret False) s
      | Vrfy \<Rightarrow> going (reply 252 (Some ''2.5.2'') ''cannot verify recipients, but will attempt delivery'') s
      | Expn \<Rightarrow> going (reply 502 (Some ''5.5.1'') ''EXPN is not supported'') s
      | Help \<Rightarrow> going (reply 214 (Some ''2.0.0'') ''supported: EHLO HELO AUTH MAIL RCPT DATA RSET NOOP VRFY QUIT'') s
      | command.StartTls \<Rightarrow> going (reply 454 (Some ''4.7.0'') ''STARTTLS is not available on this listener'') s
      | Unimplemented verb \<Rightarrow> going (protocol_error 502 ''5.5.1'' (verb @ '' is not implemented'')) s
      | Unknown verb \<Rightarrow> going (protocol_error 500 ''5.5.1'' (''unrecognised command '' @ bq verb)) s)"

section \<open>What every operation keeps\<close>

lemma session_frame [simp]:
  "se_reader (tally_up f s) = se_reader s" "se_config (tally_up f s) = se_config s"
  "se_authenticated (tally_up f s) = se_authenticated s" "se_auth_user (tally_up f s) = se_auth_user s"
  "se_helo_name (tally_up f s) = se_helo_name s" "se_envelope_sender (tally_up f s) = se_envelope_sender s"
  "se_recipients (tally_up f s) = se_recipients s" "se_submitted (tally_up f s) = se_submitted s"
  "se_accepted_messages (tally_up f s) = se_accepted_messages s" "se_state (tally_up f s) = count f (se_state s)"
  "se_reader (answered out s) = se_reader s" "se_config (answered out s) = se_config s"
  "se_authenticated (answered out s) = se_authenticated s" "se_auth_user (answered out s) = se_auth_user s"
  "se_helo_name (answered out s) = se_helo_name s" "se_envelope_sender (answered out s) = se_envelope_sender s"
  "se_recipients (answered out s) = se_recipients s" "se_submitted (answered out s) = se_submitted s"
  by (simp_all add: tally_up_def answered_def split: submit_outcome.split)

text \<open>\<open>lands P (f s)\<close>: the operation \<open>f\<close>, run on \<open>s\<close>, ends in a session where \<open>P\<close> holds, unless it panics.\<close>

definition lands :: "(smtp_session \<Rightarrow> bool) \<Rightarrow> ('b \<times> smtp_session) option \<Rightarrow> bool" where
  "lands P r = (case r of None \<Rightarrow> True | Some (_, s') \<Rightarrow> P s')"

lemma lands_simps [simp]: "lands P None" "lands P (Some (x, s)) = P s" "lands P (ret y s) = P s"
  by (simp_all add: lands_def ret_def)

lemma lands_map [simp]: "lands P (map_option (\<lambda>(r, s'). (g r, s')) y) = lands P y"
  by (simp add: lands_def split: option.split prod.split)

lemma lands_and_then: "lands P (f s) \<Longrightarrow> (\<And>x s'. P s' \<Longrightarrow> lands P (g x s')) \<Longrightarrow> lands P (and_then f g s)"
  by (cases "f s") (auto simp: and_then_def split: sum.split)

text \<open>What an invariant of the session must survive: each thing an operation does to the session, with what
  the operation has checked before it does it.\<close>

locale session_law =
  fixes e :: "('addr, 'env) outside" and P :: "smtp_session \<Rightarrow> bool"
  assumes writing: "P s \<Longrightarrow> P (s\<lparr>se_writes := ws, se_written := bs\<rparr>)"
    and reading: "P s \<Longrightarrow> to_come r \<le> to_come (se_reader s) \<Longrightarrow> P (s\<lparr>se_reader := r\<rparr>)"
    and counting: "P s \<Longrightarrow> P (tally_up f s)"
    and numbering: "P s \<Longrightarrow> P (s\<lparr>se_protocol_errors := k\<rparr>)"
    and resetting: "P s \<Longrightarrow> P (reset_transaction s)"
    and greeting: "P s \<Longrightarrow> P (reset_transaction (s\<lparr>se_helo_name := d, se_esmtp := b\<rparr>))"
    and logging_in: "P s \<Longrightarrow> credentials_match (se_config s) u p
        \<Longrightarrow> P (s\<lparr>se_authenticated := True, se_auth_user := Some u\<rparr>)"
    and mailing: "P s \<Longrightarrow> se_helo_name s \<noteq> [] \<Longrightarrow> require_auth (server (se_config s)) \<longrightarrow> se_authenticated s
        \<Longrightarrow> a = [] \<or> looks_like_email a \<Longrightarrow> P (s\<lparr>se_envelope_sender := Some a, se_recipients := []\<rparr>)"
    and addressing: "P s \<Longrightarrow> se_envelope_sender s \<noteq> None \<Longrightarrow> looks_like_email a
        \<Longrightarrow> length (se_recipients s) < max_recipients_per_message (server (se_config s))
        \<Longrightarrow> list_all (\<lambda>x. \<not> eq_ignore_case x a) (se_recipients s)
        \<Longrightarrow> P (s\<lparr>se_recipients := se_recipients s @ [a]\<rparr>)"
    and submitting: "P s \<Longrightarrow> se_envelope_sender s \<noteq> None \<Longrightarrow> se_recipients s \<noteq> []
        \<Longrightarrow> length content \<le> max_message_size s
        \<Longrightarrow> submit (ou_world e (se_sequence s)) (inbound_of s i content) (se_state s) = Some (outcome, st)
        \<Longrightarrow> P (answered outcome (reset_transaction
          (s\<lparr>se_state := st, se_sequence := n, se_submitted := se_submitted s @ [inbound_of s i content]\<rparr>)))"
begin

lemma write_lands: "P s \<Longrightarrow> lands P (write_raw bs s)"
  using writing[of s "se_written s"] writing by (auto simp: write_raw_def split: list.split bool.split)

lemma reply_lands: "P s \<Longrightarrow> lands P (reply code enhanced text s)"
  by (simp add: reply_def write_lands)

lemma protocol_error_lands: "P s \<Longrightarrow> lands P (protocol_error code enhanced text s)"
  by (simp add: protocol_error_def reply_lands numbering)

lemma next_line_keeps: "P s \<Longrightarrow> next_line limit s = (x, s') \<Longrightarrow> P s'"
  by (auto simp: next_line_def split: prod.splits intro: reading read_line_to_come)

lemma read_auth_line_lands: "P s \<Longrightarrow> lands P (read_auth_line s)"
  using next_line_keeps[of s] by (auto simp: read_auth_line_def Let_def split: io.split line_result.split prod.split)

lemma collect_lands: "P s \<Longrightarrow> lands P (collect_plain e initial s)" "P s \<Longrightarrow> lands P (collect_login e initial s)"
  unfolding collect_plain_def collect_login_def
  by (auto intro!: lands_and_then write_lands read_auth_line_lands split: option.split)

lemma check_credentials_lands: "P s \<Longrightarrow> lands P (check_credentials c s)"
  by (auto simp: check_credentials_def intro!: reply_lands counting logging_in split: option.split)

lemma handle_auth_lands: "P s \<Longrightarrow> lands P (handle_auth e mech initial s)"
  by (auto simp: handle_auth_def intro!: reply_lands lands_and_then collect_lands check_credentials_lands)

lemma handle_mail_lands: "P s \<Longrightarrow> lands P (handle_mail a n s)"
  by (auto simp: handle_mail_def intro!: reply_lands counting mailing split: option.split)

lemma handle_rcpt_lands: "P s \<Longrightarrow> lands P (handle_rcpt a s)"
  by (auto simp: handle_rcpt_def list_all_iff list_ex_iff intro!: reply_lands addressing)

lemma receive_body_lands: "P s \<Longrightarrow> lands P (receive_body s)"
  by (auto simp: receive_body_def read_body_def split: prod.split intro!: reading dest: read_body_loop_to_come)

lemma answer_lands: "P (answered outcome s) \<Longrightarrow> lands P (answer_submission i outcome s)"
  by (auto simp: answer_submission_def intro!: reply_lands split: submit_outcome.split)

lemma body_action_lands:
  assumes "P s" "se_envelope_sender s \<noteq> None" "se_recipients s \<noteq> []" "fits (max_message_size s) result"
  shows "lands P (body_action e result s)"
proof (cases result)
  case (Complete content)
  show ?thesis
    using submitting[OF assms(1-3)] assms(4)
    by (auto simp: Complete body_action_def dispatch_message_def Let_def intro!: answer_lands split: option.split prod.split)
qed (use assms(1) in \<open>auto simp: body_action_def intro!: reply_lands resetting counting\<close>)

end

text \<open>The transaction survives the answer 354 and the reading of the body, whatever else the invariant is.\<close>

abbreviation in_data :: "smtp_session \<Rightarrow> bool" where
  "in_data s \<equiv> se_envelope_sender s \<noteq> None \<and> se_recipients s \<noteq> []"

lemma reply_transaction: "lands (\<lambda>s'. in_data s' = in_data s) (reply c en t s)"
  by (auto simp: reply_def write_raw_def split: list.split bool.split)

lemma receive_body_transaction:
  "receive_body s = Some (x, s') \<Longrightarrow> in_data s' = in_data s \<and> (\<forall>b. x = Inr b \<longrightarrow> fits (max_message_size s') b)"
  by (auto simp: receive_body_def max_message_size_def read_body_def split: prod.splits dest: read_body_loop_fits)

context session_law
begin

lemma data_lands: "P s \<Longrightarrow> in_data s \<Longrightarrow> lands P (and_then receive_body (body_action e) s)"
proof (cases "receive_body s")
  case (Some z)
  assume p: "P s" "in_data s"
  obtain x s' where z: "receive_body s = Some (x, s')" using Some by (cases z) simp
  have k: "P s'" using receive_body_lands[OF p(1)] z by simp
  note t = receive_body_transaction[OF z]
  show ?thesis
  proof (cases x)
    case (Inr b)
    then have "lands P (body_action e b s')" using body_action_lands[OF k] t p(2) by blast
    then show ?thesis by (simp add: and_then_def z Inr)
  qed (simp add: and_then_def z k)
qed (simp add: and_then_def)

lemma handle_data_lands: "P s \<Longrightarrow> lands P (handle_data e s)"
proof -
  assume p: "P s"
  have "lands P (and_then (reply c en t) (\<lambda>_. and_then receive_body (body_action e)) s)" if "in_data s" for c en t
    using reply_lands[OF p, of c en t] reply_transaction[of s c en t] that data_lands
    by (cases "reply c en t s") (auto simp: and_then_def[of "reply c en t"] split: sum.split)
  then show ?thesis using p by (auto simp: handle_data_def intro: reply_lands)
qed

lemma going_lands: "lands P (f s) \<Longrightarrow> lands P (going f s)"
  by (auto simp: going_def intro: lands_and_then)

lemma handle_lands: "P s \<Longrightarrow> lands P (handle e cmd s)"
  by (cases cmd)
    (auto simp: handle_def send_ehlo_response_def Let_def intro!: going_lands lands_and_then protocol_error_lands reply_lands
      write_lands resetting greeting handle_auth_lands handle_mail_lands handle_rcpt_lands handle_data_lands)

end

section \<open>The loop\<close>

text \<open>What a complaint does to the session: it goes on unless the write failed or the limit is reached.\<close>

definition complain :: "nat \<Rightarrow> str \<Rightarrow> str \<Rightarrow> smtp_session \<Rightarrow> (disconnect option \<times> smtp_session) option" where
  "complain code enhanced text s =
     (case protocol_error code enhanced text s of
        None \<Rightarrow> None
      | Some (Inl _, s') \<Rightarrow> Some (Some DiscWriteFailed, s')
      | Some (Inr _, s') \<Rightarrow> Some (if MAX_PROTOCOL_ERRORS \<le> se_protocol_errors s' then Some DiscProtocolAbuse else None, s'))"

text \<open>One turn of \<^verbatim>\<open>command_loop\<close>: why the session ends, or \<^const>\<open>None\<close> when it goes on.\<close>

definition turn :: "('addr, 'env) outside \<Rightarrow> smtp_session \<Rightarrow> (disconnect option \<times> smtp_session) option" where
  "turn e s =
     (if shutting_down (se_state s)
      then map_option (\<lambda>(_, s'). (Some DiscServerShutdown, s'))
             (reply 421 (Some ''4.3.2'') ''server is shutting down, please retry'' s)
      else
        (case next_line MAX_COMMAND_LINE s of
           (Elapsed, s) \<Rightarrow>
             map_option (\<lambda>(_, s'). (Some DiscTimeout, s'))
               (reply 421 (Some ''4.4.2'') ''timeout waiting for command''
                 (tally_up (\<lambda>c. c\<lparr>sessions_timed_out := sessions_timed_out c + 1\<rparr>) s))
         | (Lines.Failed, s) \<Rightarrow> Some (Some DiscReadFailed, s)
         | (Done Eof, s) \<Rightarrow> Some (Some DiscClientClosed, s)
         | (Done TooLong, s) \<Rightarrow> complain 500 ''5.5.2'' ''command line too long'' s
         | (Done (Line line), s) \<Rightarrow>
             (case parse line of
                Inl err \<Rightarrow> complain (err_code err) (err_enhanced err) (err_message err) s
              | Inr cmd \<Rightarrow>
                  map_option (\<lambda>(r, s'). (case r of Inr True \<Rightarrow> None | Inr False \<Rightarrow> Some DiscQuit | Inl _ \<Rightarrow> Some DiscWriteFailed, s'))
                    (handle e cmd s))))"

context session_law
begin

lemma complain_lands: "P s \<Longrightarrow> lands P (complain c en t s)"
  using protocol_error_lands[of s c en t]
  by (auto simp: complain_def split: option.split sum.split)

lemma turn_lands_more: "next_line MAX_COMMAND_LINE s = (x, s1) \<Longrightarrow> P s1 \<Longrightarrow> \<not> shutting_down (se_state s) \<Longrightarrow> lands P (turn e s)"
  by (auto simp: turn_def intro: reply_lands counting complain_lands handle_lands split: io.split line_result.split sum.split)

lemma turn_lands: "P s \<Longrightarrow> lands P (turn e s)"
proof (cases "shutting_down (se_state s)")
  case True
  assume "P s"
  then show ?thesis
    using True by (simp add: turn_def reply_lands)
next
  case False
  assume p: "P s"
  obtain x s1 where n: "next_line MAX_COMMAND_LINE s = (x, s1)" by (rule prod.exhaust)
  then show ?thesis using turn_lands_more[OF n next_line_keeps[OF p n] False] by simp
qed

end

text \<open>Reading never adds to what is to come.\<close>

interpretation progress: session_law e "\<lambda>s. to_come (se_reader s) \<le> n" for e :: "('addr, 'env) outside" and n
  by unfold_locales (simp_all add: reset_transaction_def)

lemma turn_progress: "turn e s = Some (None, s') \<Longrightarrow> to_come (se_reader s') < to_come (se_reader s)"
proof -
  assume t: "turn e s = Some (None, s')"
  obtain x s1 where n: "next_line MAX_COMMAND_LINE s = (x, s1)" by (rule prod.exhaust)
  have d: "\<not> shutting_down (se_state s)" using t by (auto simp: turn_def split: if_splits)
  have "\<exists>l. x = Done l \<and> l \<noteq> Eof"
    using t n d by (auto simp: turn_def split: io.splits line_result.splits)
  then have "to_come (se_reader s1) < to_come (se_reader s)"
    using n by (auto simp: next_line_def split: prod.splits dest: read_line_more)
  moreover have "to_come (se_reader s') \<le> to_come (se_reader s1)"
    using progress.turn_lands_more[where e = e, OF n order_refl d] t by simp
  ultimately show ?thesis by simp
qed

function command_loop :: "('addr, 'env) outside \<Rightarrow> smtp_session \<Rightarrow> (disconnect \<times> smtp_session) option" where
  "command_loop e s =
     (case turn e s of
        None \<Rightarrow> None
      | Some (Some reason, s') \<Rightarrow> Some (reason, s')
      | Some (None, s') \<Rightarrow> command_loop e s')"
  by pat_completeness auto
termination
  by (relation "measure (\<lambda>(e, s). to_come (se_reader s))") (auto dest: turn_progress)

declare command_loop.simps [simp del]

definition banner :: "config \<Rightarrow> str" where
  "banner c = (case greeting (server c) of Some text \<Rightarrow> text | None \<Rightarrow> hostname (server c) @ '' ESMTP smtp-relay '' @ VERSION @ '' ready'')"

text \<open>A session ends without a reason when its banner cannot be written.\<close>

definition run :: "('addr, 'env) outside \<Rightarrow> smtp_session \<Rightarrow> (disconnect option \<times> smtp_session) option" where
  "run e s =
     (case reply 220 None (banner (se_config s)) s of
        None \<Rightarrow> None
      | Some (Inl _, s) \<Rightarrow> Some (None, tally_up connection_closed s)
      | Some (Inr _, s) \<Rightarrow> map_option (\<lambda>(reason, s). (Some reason, tally_up connection_closed s)) (command_loop e s))"

section \<open>Admission\<close>

datatype admission = Refused bytes app_state | Admitted smtp_session nat

text \<open>\<^verbatim>\<open>handle_accepted\<close>: the allow list, then a permit; the session takes its permit with it.\<close>

definition handle_accepted :: "app_state \<Rightarrow> nat \<Rightarrow> read_event list \<Rightarrow> bool list \<Rightarrow> ip_addr \<Rightarrow> u64 \<Rightarrow> admission" where
  "handle_accepted st permits src writes peer sq =
     (let refused = count (\<lambda>c. c\<lparr>connections_rejected := connections_rejected c + 1\<rparr>) st
      in if \<not> is_allowed (inbound_networks (app_config st)) peer
         then Refused (''554 5.7.1 access denied'' @ CRLF) refused
         else if permits = 0
         then Refused (''421 4.3.2 too many concurrent connections, try again later'' @ CRLF) refused
         else Admitted (new_session (count connection_opened st) src writes peer sq) (permits - 1))"

section \<open>What a session hands over\<close>

context session_law
begin

lemma command_loop_lands: "P s \<Longrightarrow> lands P (command_loop e s)"
proof (induction "to_come (se_reader s)" arbitrary: s rule: less_induct)
  case less
  show ?case
  proof (cases "turn e s")
    case (Some z)
    obtain d s' where z: "turn e s = Some (d, s')" using Some by (cases z) simp
    have p: "P s'" using turn_lands[OF less.prems] z by simp
    show ?thesis
    proof (cases d)
      case None
      then show ?thesis using less.hyps[OF _ p] turn_progress[of e s s'] z by (subst command_loop.simps) simp
    qed (use z p in \<open>subst command_loop.simps; simp\<close>)
  qed (subst command_loop.simps; simp)
qed

lemma run_lands: "P s \<Longrightarrow> lands P (run e s)"
proof (cases "reply 220 None (banner (se_config s)) s")
  case (Some z)
  assume p: "P s"
  obtain x s' where z: "reply 220 None (banner (se_config s)) s = Some (x, s')" using Some by (cases z) simp
  have k: "P s'" using reply_lands[OF p, of 220 None "banner (se_config s)"] z by simp
  then show ?thesis
    using counting[of s'] command_loop_lands[OF k] counting
    by (cases x; cases "command_loop e s'") (auto simp: run_def z)
qed (simp add: run_def)

end

text \<open>Credentials name a configured user, and what a message needs to be handed to the dispatcher.\<close>

definition known_user :: "config \<Rightarrow> str option \<Rightarrow> bool" where
  "known_user c u = (case u of None \<Rightarrow> False | Some name \<Rightarrow> (\<exists>p. credentials_match c name p))"

definition recipients_ok :: "config \<Rightarrow> str list \<Rightarrow> bool" where
  "recipients_ok c rs =
     (length rs \<le> max_recipients_per_message (server c) \<and> list_all looks_like_email rs \<and> distinct (map to_lower rs))"

definition sender_ok :: "config \<Rightarrow> str \<Rightarrow> str \<Rightarrow> str option \<Rightarrow> bool" where
  "sender_ok c greeted a u = (greeted \<noteq> [] \<and> (a = [] \<or> looks_like_email a) \<and> (require_auth (server c) \<longrightarrow> known_user c u))"

definition acceptable :: "config \<Rightarrow> inbound_message \<Rightarrow> bool" where
  "acceptable c m =
     (sender_ok c (in_helo m) (in_sender m) (in_auth_user m) \<and> in_recipients m \<noteq> [] \<and> recipients_ok c (in_recipients m)
      \<and> length (in_raw m) \<le> max_message_size_bytes c)"

definition session_ok :: "app_state \<Rightarrow> smtp_session \<Rightarrow> bool" where
  "session_ok st s =
     (se_config s = app_config st
      \<and> (if se_authenticated s then known_user (app_config st) (se_auth_user s) else se_auth_user s = None)
      \<and> (case se_envelope_sender s of
           None \<Rightarrow> se_recipients s = []
         | Some a \<Rightarrow> sender_ok (app_config st) (se_helo_name s) a (se_auth_user s)
             \<and> recipients_ok (app_config st) (se_recipients s))
      \<and> list_all (acceptable (app_config st)) (se_submitted s)
      \<and> unat (se_accepted_messages s) \<le> length (se_submitted s)
      \<and> (se_submitted s = [] \<longrightarrow> app_queue (se_state s) = app_queue st \<and> app_pool (se_state s) = app_pool st))"

lemma session_ok_new: "session_ok st (new_session (count f st) src ws peer sq)"
  by (simp add: session_ok_def new_session_def)

lemma unat_Suc_le: "unat (x + 1 :: u32) \<le> Suc (unat x)"
  by (simp add: unat_word_ariths)

lemma answered_messages: "unat (se_accepted_messages (answered out s)) \<le> Suc (unat (se_accepted_messages s))"
  using unat_Suc_le[of "se_accepted_messages s"]
  by (auto simp: answered_def tally_up_def split: submit_outcome.split)

interpretation honest: session_law e "session_ok st" for e :: "('addr, 'env) outside" and st
proof unfold_locales
  fix s :: smtp_session and u p
  assume "session_ok st s" "credentials_match (se_config s) u p"
  then show "session_ok st (s\<lparr>se_authenticated := True, se_auth_user := Some u\<rparr>)"
    by (auto simp: session_ok_def known_user_def sender_ok_def split: option.splits)
next
  fix s :: smtp_session and i and content :: bytes and out st' n
  assume ok: "session_ok st s" "se_envelope_sender s \<noteq> None" "se_recipients s \<noteq> []" "length content \<le> max_message_size s"
  then have "acceptable (app_config st) (inbound_of s i content)"
    by (auto simp: session_ok_def acceptable_def inbound_of_def max_message_size_def)
  moreover have "unat (se_accepted_messages (answered out s')) \<le> Suc (length (se_submitted s))"
    if "se_accepted_messages s' = se_accepted_messages s" for s'
    using answered_messages[of out s'] ok(1) that by (simp add: session_ok_def)
  ultimately show "session_ok st (answered out (reset_transaction
      (s\<lparr>se_state := st', se_sequence := n, se_submitted := se_submitted s @ [inbound_of s i content]\<rparr>)))"
    using ok(1) by (auto simp: session_ok_def reset_transaction_def split: list.split)
qed (auto simp: session_ok_def reset_transaction_def recipients_ok_def sender_ok_def eq_ignore_case_def list_all_iff
    split: option.splits list.splits if_splits)

section \<open>The body on the wire\<close>

text \<open>A client sends a line that begins with a dot with a second one, and ends the body with a lone dot.\<close>

definition stuffed :: "bytes \<Rightarrow> bytes" where
  "stuffed l = (case l of c # _ \<Rightarrow> if c = CHR ''.'' then CHR ''.'' # l else l | [] \<Rightarrow> [])"

definition body_lines :: "bytes list \<Rightarrow> bytes" where
  "body_lines ls = concat (map (\<lambda>l. l @ CRLF) ls)"

definition on_the_wire :: "bytes list \<Rightarrow> bytes" where
  "on_the_wire ls = body_lines (map stuffed ls @ [''.''])"

lemma body_lines_simps [simp]: "body_lines [] = []" "body_lines (l # ls) = l @ CRLF @ body_lines ls"
  by (simp_all add: body_lines_def)

lemma stuffed_simps: "stuffed l \<noteq> ''.''" "length (stuffed l) \<le> Suc (length l)" "LF \<notin> set l \<Longrightarrow> LF \<notin> set (stuffed l)"
  "(case stuffed l of c # rest \<Rightarrow> if c = CHR ''.'' then rest else stuffed l | [] \<Rightarrow> stuffed l) = l"
  by (auto simp: stuffed_def split: list.split)

lemma read_body_loop_wire:
  assumes "limit < ll" "ll + 2 \<le> usize_max"
  shows "reader_ok r \<Longrightarrow> pending r = on_the_wire ls @ rest \<Longrightarrow> list_all (\<lambda>l. LF \<notin> set l) ls
    \<Longrightarrow> over \<or> length got \<le> limit
    \<Longrightarrow> \<exists>r'. read_body_loop limit ll got over r
        = (Inr (if over \<or> limit < length got + length (body_lines ls) then TooLarge limit
                else Complete (got @ body_lines ls)), r')
      \<and> reader_ok r' \<and> pending r' = rest"
proof (induction ls arbitrary: r got over)
  case Nil
  then have "pending r = ''.'' @ CR # LF # rest" by (simp add: on_the_wire_def)
  then obtain r' where "read_line ll r = (Done (finish_line ll ''.''), r')" "reader_ok r'" "pending r' = rest"
    by (rule read_line_crlf[OF Nil(1) assms(2)]) simp
  moreover have "finish_line ll ''.'' = Line ''.''" using assms(1) by (simp add: finish_line_def)
  ultimately show ?case using Nil(4) by (subst read_body_loop.simps) auto
next
  case (Cons l ls)
  have nl: "LF \<notin> set (stuffed l)" using Cons.prems(3) stuffed_simps(3) by simp
  have "pending r = stuffed l @ CR # LF # (on_the_wire ls @ rest)"
    using Cons.prems(2) by (simp add: on_the_wire_def)
  then obtain r1 where r1: "read_line ll r = (Done (finish_line ll (stuffed l)), r1)" "reader_ok r1"
      "pending r1 = on_the_wire ls @ rest"
    by (rule read_line_crlf[OF Cons.prems(1) assms(2) _ nl])
  have all: "list_all (\<lambda>l. LF \<notin> set l) ls" using Cons.prems(3) by simp
  note ih = Cons.IH[OF r1(2,3) all]
  show ?case
  proof (cases "over \<or> ll < length (stuffed l) \<or> limit < length got + length l + 2")
    case True
    then have big: "over \<or> limit < length got + length (body_lines (l # ls))"
      using stuffed_simps(2)[of l] assms(1) by auto
    have "\<exists>got'. read_body_loop limit ll got over r = read_body_loop limit ll got' True r1"
      using True r1(1) by (subst read_body_loop.simps) (auto simp: finish_line_def stuffed_simps)
    then show ?thesis using ih[of True] big by auto
  next
    case False
    then have "read_body_loop limit ll got over r = read_body_loop limit ll (got @ l @ CRLF) False r1"
      using r1(1) by (subst read_body_loop.simps) (simp add: finish_line_def stuffed_simps Let_def)
    then show ?thesis using ih[of False "got @ l @ CRLF"] False by (auto simp: add.assoc split: if_splits)
  qed
qed

section \<open>Pieces of the properties\<close>

lemma sanitize_loop_bytes:
  "list_all (\<lambda>ch. ch = [CR] \<or> ch = [LF] \<or> (CR \<notin> set ch \<and> LF \<notin> set ch)) chs \<Longrightarrow> CR \<notin> set cleaned \<Longrightarrow> LF \<notin> set cleaned
    \<Longrightarrow> CR \<notin> set (sanitize_loop chs pend cleaned) \<and> LF \<notin> set (sanitize_loop chs pend cleaned)"
  by (induction chs pend cleaned rule: sanitize_loop.induct) auto

lemma code_point_line:
  "utf8_valid s \<Longrightarrow> ch \<in> set (chars s) \<Longrightarrow> ch = [CR] \<or> ch = [LF] \<or> (CR \<notin> set ch \<and> LF \<notin> set ch)"
proof -
  have "byte CR < 128" "byte LF < 128" by (simp_all add: byte_def)
  then show "utf8_valid s \<Longrightarrow> ch \<in> set (chars s) \<Longrightarrow> ch = [CR] \<or> ch = [LF] \<or> (CR \<notin> set ch \<and> LF \<notin> set ch)"
    using chars_valid[of s ch] by fastforce
qed

lemma set_truncate: "set (truncate_str s n) \<subseteq> set s \<union> set ellipsis"
proof -
  have "set (concat (take n (chars s))) \<subseteq> set (concat (chars s))" for n by (auto simp del: concat_chars dest: in_set_takeD)
  then show ?thesis by (auto simp: truncate_str_def)
qed

lemma sanitize_bytes: "utf8_valid text \<Longrightarrow> CR \<notin> set (sanitize text) \<and> LF \<notin> set (sanitize text)"
proof -
  assume v: "utf8_valid text"
  then have "list_all (\<lambda>ch. ch = [CR] \<or> ch = [LF] \<or> (CR \<notin> set ch \<and> LF \<notin> set ch)) (chars text)"
    using code_point_line by (auto simp: list_all_iff)
  note c = sanitize_loop_bytes[OF this, of "[]" False]
  show ?thesis
    using c set_truncate[of "trim (sanitize_loop (chars text) False [])" 400] set_trim[of "sanitize_loop (chars text) False []"]
    unfolding sanitize_def by auto
qed

lemma dec_no_crlf: "CR \<notin> set (dec n)" "LF \<notin> set (dec n)"
  using dec_digits[of n] by (auto simp: list_all_iff is_digit_byte_def byte_def)

text \<open>One more unknown command, and the session goes on.\<close>

lemma next_line_pending:
  assumes "reader_ok (se_reader s)" "pending (se_reader s) = l @ CR # LF # rest" "LF \<notin> set l" "length l \<le> MAX_COMMAND_LINE"
  obtains r' where "next_line MAX_COMMAND_LINE s = (Done (Line l), s\<lparr>se_reader := r'\<rparr>)" "reader_ok r'" "pending r' = rest"
proof -
  have m: "MAX_COMMAND_LINE + 2 \<le> usize_max" by (simp add: MAX_COMMAND_LINE_def usize_max_def)
  obtain r' where "read_line MAX_COMMAND_LINE (se_reader s) = (Done (finish_line MAX_COMMAND_LINE l), r')"
      "reader_ok r'" "pending r' = rest"
    by (rule read_line_crlf[OF assms(1) m assms(2,3)])
  then show thesis using assms(4) by (intro that[of r']) (simp_all add: next_line_def finish_line_def)
qed

lemma unknown_turn:
  assumes "reader_ok (se_reader s)" "pending (se_reader s) = l @ CR # LF # rest" "LF \<notin> set l" "length l \<le> MAX_COMMAND_LINE"
    "parse l = Inr (Unknown v)" "\<not> shutting_down (se_state s)" "se_writes s = []"
  obtains s' where "turn e s = Some (None, s')" "reader_ok (se_reader s')" "pending (se_reader s') = rest"
    "\<not> shutting_down (se_state s')" "se_writes s' = []" "se_protocol_errors s' = se_protocol_errors s + 1"
proof -
  obtain r' where n: "next_line MAX_COMMAND_LINE s = (Done (Line l), s\<lparr>se_reader := r'\<rparr>)" "reader_ok r'" "pending r' = rest"
    by (rule next_line_pending[OF assms(1-4)])
  obtain w where "handle e (Unknown v) (s\<lparr>se_reader := r'\<rparr>)
      = Some (Inr True, s\<lparr>se_reader := r', se_protocol_errors := se_protocol_errors s + 1, se_writes := [], se_written := w\<rparr>)"
    using assms(7) by (simp add: handle_def going_def and_then_def protocol_error_def reply_def write_raw_def ret_def)
  then show thesis
    using n assms(5-7)
    by (intro that[of "s\<lparr>se_reader := r', se_protocol_errors := se_protocol_errors s + 1, se_writes := [], se_written := w\<rparr>"])
      (simp_all add: turn_def)
qed

lemma closed_turn:
  assumes "reader_ok (se_reader s)" "pending (se_reader s) = []" "\<not> shutting_down (se_state s)"
  obtains r' where "turn e s = Some (Some DiscClientClosed, s\<lparr>se_reader := r'\<rparr>)"
  using lr.next_line_spec[OF assms(1), of MAX_COMMAND_LINE] assms(2,3)
  by (auto simp: turn_def next_line_def spec_line_def MAX_COMMAND_LINE_def usize_max_def)

text \<open>A read that times out leaves the buffer full of zero bytes; the line that follows is thrown away.\<close>

lemma read_line_stalled:
  assumes "position r = length (buffer r)" "inner r = Stall # es"
  shows "read_line m r = (Elapsed, \<lparr>inner = es, buffer = replicate CHUNK NUL, position = 0\<rparr>)"
proof -
  have "fill r = (Elapsed, \<lparr>inner = es, buffer = replicate CHUNK NUL, position = 0\<rparr>)"
    using assms by (simp add: fill_def Let_def)
  then show ?thesis using assms unfolding read_line_def
    by (subst read_line_loop.simps) (simp add: Let_def buffered_def)
qed

lemma read_line_zeros:
  assumes "m + 2 < CHUNK" "delivers es"
  obtains r' where "read_line m \<lparr>inner = es, buffer = replicate CHUNK NUL, position = 0\<rparr> = (Done TooLong, r')"
    "reader_ok r'" "pending r' = after_line (src_bytes es)"
proof -
  let ?r = "\<lparr>inner = es, buffer = replicate CHUNK NUL, position = 0\<rparr>"
  have z: "find_byte (\<lambda>b. b = LF) (replicate CHUNK NUL) = None" by (simp add: find_byte_None)
  have "reader_ok ?r" using assms(2) by (simp add: reader_ok_def)
  then obtain r' where d: "discard_line ?r = (Done (), r')" "reader_ok r'" "pending r' = after_line (pending ?r)"
    using discard_line_refines by blast
  moreover have "after_line (pending ?r) = after_line (src_bytes es)"
    by (simp add: pending_def after_line_def find_byte_append z split: option.split)
  moreover have "read_line m ?r = (Done TooLong, r')"
    using z d(1) assms(1) unfolding read_line_def
    by (subst read_line_loop.simps) (simp add: Let_def buffered_def usize_sat_add_def min_less_iff_disj)
  ultimately show thesis using that by simp
qed

section \<open>Properties\<close>


text \<open>C39. A reply is one line: whatever text it carries - addresses a client made up, answers of an upstream
  relay - the client gets exactly one line ending, at the end.\<close>

theorem reply_is_one_line:
  assumes "utf8_valid text" "CR \<notin> set status" "LF \<notin> set status"
  shows "\<exists>l. reply_line esmtp code (Some status) text = l @ CRLF \<and> CR \<notin> set l \<and> LF \<notin> set l"
  using sanitize_bytes[OF assms(1)] assms dec_no_crlf[of code] unfolding reply_line_def
  by (cases esmtp) (rule exI[of _ "dec code @ '' '' @ status @ '' '' @ sanitize text"]
     exI[of _ "dec code @ '' '' @ sanitize text"]; simp)+

text \<open>C13. DATA undoes dot-stuffing and nothing else: whatever lines a client sends as a body, and however the
  network cuts them, the reader returns exactly those lines, each with CR LF, when they fit the limit, and
  reports the limit otherwise; in both cases the next command is read from right behind the final dot.\<close>

theorem body_roundtrip:
  assumes "reader_ok r" "pending r = on_the_wire ls @ rest" "list_all (\<lambda>l. LF \<notin> set l) ls" "limit + 4098 \<le> usize_max"
  shows "\<exists>r'. read_body limit r
        = (Inr (if length (body_lines ls) \<le> limit then Complete (body_lines ls) else TooLarge limit), r')
      \<and> reader_ok r' \<and> pending r' = rest"
proof -
  have l: "usize_sat_add limit MAX_COMMAND_LINE = limit + 4096"
    using assms(4) by (simp add: usize_sat_add_def MAX_COMMAND_LINE_def)
  show ?thesis
    using read_body_loop_wire[where limit = limit and ll = "limit + 4096" and got = "[]" and over = False, OF _ _ assms(1-3)] assms(4)
    by (auto simp: read_body_def l not_less split: if_splits)
qed

text \<open>Unknown commands never end a session: a client that sends any number of them is answered every time
  and its session ends when it closes the connection. The limit on protocol errors is only looked at after
  lines the parser rejects.\<close>

theorem unknown_commands_unlimited:
  assumes "parse l = Inr (Unknown v)" "LF \<notin> set l" "length l \<le> MAX_COMMAND_LINE" "reader_ok (se_reader s)"
    "pending (se_reader s) = body_lines (replicate n l)" "\<not> shutting_down (se_state s)" "se_writes s = []"
  shows "\<exists>s'. command_loop e s = Some (DiscClientClosed, s') \<and> se_protocol_errors s' = se_protocol_errors s + of_nat n"
  using assms(4-7)
proof (induction n arbitrary: s)
  case 0
  obtain r' where "turn e s = Some (Some DiscClientClosed, s\<lparr>se_reader := r'\<rparr>)"
    by (rule closed_turn[OF "0"(1) _ "0"(3)]) (use "0"(2) in simp)
  then show ?case by (subst command_loop.simps) simp
next
  case (Suc n)
  have p: "pending (se_reader s) = l @ CR # LF # body_lines (replicate n l)" using Suc.prems(2) by simp
  obtain s' where s': "turn e s = Some (None, s')" "reader_ok (se_reader s')" "pending (se_reader s') = body_lines (replicate n l)"
    "\<not> shutting_down (se_state s')" "se_writes s' = []" "se_protocol_errors s' = se_protocol_errors s + 1"
    by (rule unknown_turn[OF Suc.prems(1) p assms(2,3,1) Suc.prems(3,4)])
  have "command_loop e s = command_loop e s'" using s'(1) by (subst command_loop.simps) simp
  then show ?case using Suc.IH[OF s'(2-5)] s'(6) by (simp add: add.assoc)
qed

text \<open>A timeout in the middle of AUTH costs the client its next command: the read that the timeout drops
  leaves a chunk of zero bytes in the buffer, so the line that comes next, however short, is refused as too
  long and thrown away.\<close>

theorem auth_timeout_loses_command:
  assumes "position (se_reader s) = length (buffer (se_reader s))" "inner (se_reader s) = Stall # es" "delivers es"
  shows "\<exists>s1 s2. read_auth_line s = Some (Inr None, s1) \<and> next_line MAX_COMMAND_LINE s1 = (Done TooLong, s2)
      \<and> reader_ok (se_reader s2) \<and> pending (se_reader s2) = after_line (src_bytes es)"
proof -
  note st = read_line_stalled[OF assms(1,2)]
  have "MAX_COMMAND_LINE + 2 < CHUNK" by (simp add: MAX_COMMAND_LINE_def CHUNK_def)
  then obtain r' where "read_line MAX_COMMAND_LINE \<lparr>inner = es, buffer = replicate CHUNK NUL, position = 0\<rparr> = (Done TooLong, r')"
    "reader_ok r'" "pending r' = after_line (src_bytes es)"
    by (rule read_line_zeros[OF _ assms(3)])
  then show ?thesis using st by (simp add: read_auth_line_def next_line_def ret_def)
qed

text \<open>Concrete sessions.\<close>

definition quiet :: "(unit, unit) outside" where
  "quiet = \<lparr>ou_b64d = (\<lambda>_. None), ou_b64e = (\<lambda>s. s), ou_world = (\<lambda>_. idle_world)\<rparr>"

definition client :: "read_event list \<Rightarrow> smtp_session" where
  "client src = new_session no_relays src [] (V4 [127, 0, 0, 1]) 0"

theorem unknown_commands_unlimited_witness:
  "\<exists>s'. command_loop quiet (client [Data ([CHR ''F'', CHR ''O'', CHR ''O'', CR, LF, CHR ''F'', CHR ''O'', CHR ''O'', CR, LF])])
      = Some (DiscClientClosed, s') \<and> se_protocol_errors s' = 2"
proof -
  let ?s = "client [Data ([CHR ''F'', CHR ''O'', CHR ''O'', CR, LF, CHR ''F'', CHR ''O'', CHR ''O'', CR, LF])]"
  have p: "parse ''FOO'' = Inr (Unknown ''FOO'')" by code_simp
  show ?thesis
    using unknown_commands_unlimited[where s = ?s and n = 2 and e = quiet, OF p]
    by (simp add: client_def new_session_def reader_ok_new pending_new delivers_def MAX_COMMAND_LINE_def
      no_relays_def sample_state_def numeral_2_eq_2)
qed

theorem auth_timeout_loses_command_witness:
  "\<exists>s1 s2. read_auth_line (client [Stall, Data [CHR ''N'', CHR ''O'', CHR ''O'', CHR ''P'', CR, LF]]) = Some (Inr None, s1)
      \<and> next_line MAX_COMMAND_LINE s1 = (Done TooLong, s2) \<and> reader_ok (se_reader s2) \<and> pending (se_reader s2) = []"
  using auth_timeout_loses_command[of "client [Stall, Data [CHR ''N'', CHR ''O'', CHR ''O'', CHR ''P'', CR, LF]]"
      "[Data [CHR ''N'', CHR ''O'', CHR ''O'', CHR ''P'', CR, LF]]"]
  by (simp add: client_def new_session_def new_reader_def delivers_def after_line_def)

theorem reply_is_one_line_witness:
  "\<exists>l. reply_line True 250 (Some ''2.0.0'') (''OK'' @ CRLF @ ''221 BYE'') = l @ CRLF \<and> CR \<notin> set l \<and> LF \<notin> set l"
proof -
  have v: "utf8_valid (''OK'' @ CRLF @ ''221 BYE'')" by code_simp
  show ?thesis by (rule reply_is_one_line[OF v]) simp_all
qed

theorem body_roundtrip_witness:
  "\<exists>r'. read_body 100 (new_reader [Data (''..a'' @ CRLF @ ''.''), Data (CRLF @ ''QUIT'')]) = (Inr (Complete (''.a'' @ CRLF)), r')
      \<and> reader_ok r' \<and> pending r' = ''QUIT''"
  using body_roundtrip[of "new_reader [Data (''..a'' @ CRLF @ ''.''), Data (CRLF @ ''QUIT'')]" "[''.a'']" "''QUIT''" 100]
  by (simp add: reader_ok_new pending_new delivers_def on_the_wire_def stuffed_def usize_max_def)

end
