(* ===== verification/Startup.thy ===== *)
theory Startup
  imports ConfigFile Health Session "HOL-Library.List_Lexorder" "HOL-Library.Char_ord"
begin

text \<open>Start-up and shutdown (src/main.rs): the command line, the choice of the configuration file, what each option
  does, the exposure warnings, the wait for a signal and the end of the daemon; and the construction of the
  transport of a relay (src/relay/sender.rs). The library that opens connections is an argument through the outcome of its TLS
  set-up; printed text other than the usage page is part of the result.\<close>

section \<open>Transports\<close>

record tls_parameters =
  tp_domain :: str
  tp_accept_invalid :: bool

datatype 'p smtp_tls = NoTls | RequiredTls 'p | WrapperTls 'p | OpportunisticTls 'p

record 'p transport =
  tr_host :: str
  tr_port :: nat
  tr_timeout :: nat
  tr_tls :: "'p smtp_tls"
  tr_hello :: "str option"
  tr_credentials :: "(str \<times> str \<times> auth_mechanism list) option"

text \<open>\<open>init\<close> is the initialisation of the TLS library with these parameters.\<close>

definition build_tls :: "(tls_parameters \<Rightarrow> str + 'p) \<Rightarrow> relay_config \<Rightarrow> str + 'p smtp_tls" where
  "build_tls init c =
     (if tls c = TlsNone then Inr NoTls
      else case init \<lparr>tp_domain = trim (host c), tp_accept_invalid = allow_invalid_certs c\<rparr> of
        Inl e \<Rightarrow> Inl (''could not initialise TLS: '' @ e)
      | Inr p \<Rightarrow> Inr (case tls c of tls_mode.StartTls \<Rightarrow> RequiredTls p | Tls \<Rightarrow> WrapperTls p | Opportunistic \<Rightarrow> OpportunisticTls p
                                | TlsNone \<Rightarrow> NoTls))"

definition build_transport :: "(tls_parameters \<Rightarrow> str + 'p) \<Rightarrow> relay_config \<Rightarrow> nat \<Rightarrow> str + 'p transport" where
  "build_transport init c fallback_timeout =
     (if trim (host c) = [] then Inl ''host must not be empty''
      else case build_tls init c of
        Inl e \<Rightarrow> Inl e
      | Inr t \<Rightarrow> Inr \<lparr>tr_host = host c, tr_port = port c,
          tr_timeout = max (case r_timeout_seconds c of Some s \<Rightarrow> s | None \<Rightarrow> fallback_timeout) 1, tr_tls = t,
          tr_hello = (case helo_name c of Some h \<Rightarrow> if trim h = [] then None else Some (trim h) | None \<Rightarrow> None),
          tr_credentials = map_option (\<lambda>a. (username a, password a, mechanisms_for (mechanism a))) (r_auth c)\<rparr>)"

definition transport_error :: "(tls_parameters \<Rightarrow> str + 'p) \<Rightarrow> relay_config \<Rightarrow> nat \<Rightarrow> str option" where
  "transport_error init c t = (case build_transport init c t of Inl e \<Rightarrow> Some e | Inr tr \<Rightarrow> None)"

section \<open>The command line\<close>

record options =
  op_config :: "str option"
  op_check :: bool
  op_print_config :: bool
  op_generate :: "str option"
  op_force :: bool
  op_probe :: bool
  op_version :: bool
  op_help :: bool

definition no_options :: options where
  "no_options = \<lparr>op_config = None, op_check = False, op_print_config = False, op_generate = None, op_force = False,
     op_probe = False, op_version = False, op_help = False\<rparr>"

fun parse_options :: "options \<Rightarrow> str list \<Rightarrow> str + options" where
  "parse_options o1 [] = Inr o1"
| "parse_options o1 (a # as) =
     (if a \<in> {''-h'', ''--help''} then parse_options (o1\<lparr>op_help := True\<rparr>) as
      else if a \<in> {''-V'', ''--version''} then parse_options (o1\<lparr>op_version := True\<rparr>) as
      else if a = ''--check'' then parse_options (o1\<lparr>op_check := True\<rparr>) as
      else if a = ''--print-config'' then parse_options (o1\<lparr>op_print_config := True\<rparr>) as
      else if a = ''--probe'' then parse_options (o1\<lparr>op_probe := True\<rparr>) as
      else if a = ''--force'' then parse_options (o1\<lparr>op_force := True\<rparr>) as
      else if a \<in> {''-c'', ''--config''}
      then (case as of [] \<Rightarrow> Inl (a @ '' needs a path'') | v # rest \<Rightarrow> parse_options (o1\<lparr>op_config := Some v\<rparr>) rest)
      else if a = ''--generate-config''
      then (case as of
              v # rest \<Rightarrow>
                if \<not> starts_with ''-'' v then parse_options (o1\<lparr>op_generate := Some v\<rparr>) rest
                else parse_options (o1\<lparr>op_generate := Some ''config.yaml''\<rparr>) as
            | [] \<Rightarrow> parse_options (o1\<lparr>op_generate := Some ''config.yaml''\<rparr>) [])
      else if starts_with ''--config='' a
      then parse_options (o1\<lparr>op_config := Some (drop (length ''--config='') a)\<rparr>) as
      else if starts_with ''--generate-config='' a
      then parse_options (o1\<lparr>op_generate := Some (drop (length ''--generate-config='') a)\<rparr>) as
      else Inl (''unknown argument '' @ bq a))"

declare parse_options.simps(2) [simp del]

section \<open>The configuration file\<close>

definition CONFIG_CANDIDATES :: "str list" where
  "CONFIG_CANDIDATES = [''config.yaml'', ''config.yml'', ''config.toml'', ''config.json'',
     ''/etc/smtp-relay/config.yaml'', ''/etc/smtp-relay/config.yml'']"

definition resolve_config_path :: "str option \<Rightarrow> disk \<Rightarrow> str option \<Rightarrow> str option" where
  "resolve_config_path env d explicit =
     (case explicit of
        Some path \<Rightarrow> Some path
      | None \<Rightarrow>
          (case env of
             Some v \<Rightarrow> Some v
           | None \<Rightarrow> List.find (\<lambda>p. d p \<noteq> None) CONFIG_CANDIDATES))"

text \<open>\<^verbatim>\<open>Path::parent\<close>, empty where there is none.\<close>

definition parent_of :: "str \<Rightarrow> str" where
  "parent_of path =
     (let f = path_front path; p = rev (bare_end (rev f))
      in if p \<noteq> [] \<or> f = [] then p else if hd f = CHR ''/'' then ''/'' else ''.'')"

definition generate_config :: "bytes \<Rightarrow> str option \<Rightarrow> access \<Rightarrow> str \<Rightarrow> bool \<Rightarrow> disk \<Rightarrow> (str + str) \<times> disk" where
  "generate_config example_yaml mkdir writing target force d =
     (if d target \<noteq> None \<and> \<not> force then (Inl (target @ '' already exists; pass --force to overwrite it''), d)
      else if parent_of target \<noteq> [] \<and> mkdir \<noteq> None
      then (Inl (''could not create '' @ parent_of target @ '': '' @ the mkdir), d)
      else case write_file writing target example_yaml d of
        (Some e, d) \<Rightarrow> (Inl (''could not write '' @ target @ '': '' @ e), d)
      | (None, d) \<Rightarrow> (Inr target, d))"

section \<open>From the arguments to the daemon\<close>

datatype printed = Out str | Err str | UsageOut | UsageErr str

datatype phase = ExitWith nat | ProbeAll config str | Serve config str

record start_world =
  st_env :: "str option"
  st_unreadable :: "str option"
  st_parse :: "file_format \<Rightarrow> str \<Rightarrow> str + config"
  st_print :: "file_format \<Rightarrow> config \<Rightarrow> str + str"
  st_mkdir :: "str option"
  st_write :: access
  st_example :: bytes
  st_runtime :: "str option"

definition say :: "str \<Rightarrow> str" where "say s = ''smtp-relay: '' @ s"

definition main :: "start_world \<Rightarrow> str list \<Rightarrow> disk \<Rightarrow> printed list \<times> phase \<times> disk" where
  "main w arguments d =
     (case parse_options no_options arguments of
        Inl m \<Rightarrow> ([UsageErr (say m)], ExitWith 2, d)
      | Inr o1 \<Rightarrow>
          if op_help o1 then ([UsageOut], ExitWith 0, d)
          else if op_version o1 then ([Out (''smtp-relay '' @ VERSION)], ExitWith 0, d)
          else (case op_generate o1 of
            Some target \<Rightarrow>
              (case generate_config (st_example w) (st_mkdir w) (st_write w) target (op_force o1) d of
                 (Inr path, d) \<Rightarrow> ([Out (''wrote starter configuration to '' @ path),
                    Out (''edit the '' @ bq ''relays:'' @ '' section, then start the daemon.'')], ExitWith 0, d)
               | (Inl m, d) \<Rightarrow> ([Err (say m)], ExitWith 1, d))
          | None \<Rightarrow>
              (case resolve_config_path (st_env w) d (op_config o1) of
                 None \<Rightarrow> ([Err (say ''no configuration file found.''), Err (''Looked for: '' @ join '', '' CONFIG_CANDIDATES),
                    Err (''Run '' @ bq ''smtp-relay --generate-config'' @ '' to create one, or pass --config <PATH>.'')], ExitWith 1, d)
               | Some path \<Rightarrow>
                   (case load_config (st_parse w) (st_unreadable w) d path of
                      Inl e \<Rightarrow> ([Err (say (path @ '' is not usable: '' @ config_error_str e))], ExitWith 1, d)
                    | Inr c \<Rightarrow>
                        if op_check o1
                        then ([Out (path @ '' is valid: '' @ dec (length (config.relays c)) @ '' relay(s), strategy ''
                                 @ bq (strategy_str (strategy (config.routing c))) @ '', listener '' @ sc_bind_address (server c))], ExitWith 0, d)
                        else if op_print_config o1
                        then (case serialize_for (st_print w) ''config.yaml'' (redacted c) of
                                Inr s \<Rightarrow> ([Out s], ExitWith 0, d)
                              | Inl e \<Rightarrow> ([Err (say (''could not render configuration: '' @ config_error_str e))], ExitWith 1, d))
                        else if st_runtime w \<noteq> None
                        then ([Err (say (''could not start the async runtime: '' @ the (st_runtime w)))], ExitWith 1, d)
                        else if op_probe o1 then ([], ProbeAll c path, d)
                        else ([], Serve c path, d)))))"

section \<open>Serving\<close>

datatype warning = OpenListener str | LoopbackOnly str | RemoteRefused str

definition warn_about_exposure :: "config \<Rightarrow> warning list" where
  "warn_about_exposure c =
     (let b = sc_bind_address (server c); a = config.admin c; open_to_all = (starts_with ''0.0.0.0'' b \<or> starts_with ''[::]'' b)
      in (if open_to_all \<and> sc_allowed_networks (server c) = [] \<and> \<not> require_auth (server c) then [OpenListener b] else [])
       @ (if a_enabled a \<and> \<not> remote_access_configured a
          then [if starts_with ''127.'' (a_bind_address a) \<or> starts_with ''[::1]'' (a_bind_address a)
                then LoopbackOnly (a_bind_address a) else RemoteRefused (a_bind_address a)]
          else []))"

definition shutdown_grace :: "config \<Rightarrow> nat" where
  "shutdown_grace c = secs (min (max (sc_timeout_seconds (server c)) 5) 120)"

text \<open>The state the daemon starts with: the spool of the last run is restored. \<open>names\<close> is the listing of the spool directory.\<close>

definition serve_start ::
  "(relay_config \<Rightarrow> nat \<Rightarrow> str option) \<Rightarrow> bool \<Rightarrow> bool \<Rightarrow> spool \<Rightarrow> str list \<Rightarrow> config \<Rightarrow> str + app_state" where
  "serve_start te log_dir_ok have_dir fs names c =
     (case new_state te log_dir_ok have_dir fs c of
        Inl m \<Rightarrow> Inl m
      | Inr st \<Rightarrow> Inr (if qu_persist (app_queue st) then st\<lparr>app_queue := snd (recover names (app_queue st))\<rparr> else st))"

text \<open>What the main task waits for: a listener that ends is always an error, a termination signal never; a hang-up
  reloads the configuration and the wait goes on. Listeners end with a result of their own or a panic.\<close>

datatype listener_end = Stopped | ListenerFailed str | Panicked str

datatype wake = SmtpEnds listener_end | AdminEnds listener_end | Terminated | HangUp int "str + config"

fun report_listener_exit :: "listener_end \<Rightarrow> nat" where
  "report_listener_exit Stopped = 1"
| "report_listener_exit (ListenerFailed e) = 1"
| "report_listener_exit (Panicked e) = 1"

definition reload_on_hangup :: "(relay_config \<Rightarrow> nat \<Rightarrow> str option) \<Rightarrow> int \<Rightarrow> str + config \<Rightarrow> app_state \<Rightarrow> app_state" where
  "reload_on_hangup te now loaded st = snd (reload_from_disk te now loaded st)"

fun wait_for_end :: "(relay_config \<Rightarrow> nat \<Rightarrow> str option) \<Rightarrow> bool \<Rightarrow> wake list \<Rightarrow> app_state \<Rightarrow> nat option \<times> app_state" where
  "wait_for_end te admin_enabled [] st = (None, st)"
| "wait_for_end te admin_enabled (SmtpEnds r # ws) st = (Some (report_listener_exit r), st)"
| "wait_for_end te admin_enabled (AdminEnds r # ws) st =
     (if admin_enabled then (Some (report_listener_exit r), st) else wait_for_end te admin_enabled ws st)"
| "wait_for_end te admin_enabled (Terminated # ws) st = (Some 0, st)"
| "wait_for_end te admin_enabled (HangUp now loaded # ws) st =
     wait_for_end te admin_enabled ws (reload_on_hangup te now loaded st)"

text \<open>The end: the task looks at the deliveries in flight and the open sessions, gives up at the deadline, and sleeps
  250 ms between two looks. A look is what it sees and when; the answer is the number of looks and whether the
  work had settled.\<close>

record look =
  lk_sending :: nat
  lk_sessions :: nat
  lk_now :: nat

fun settle :: "nat \<Rightarrow> look list \<Rightarrow> nat \<times> bool option" where
  "settle deadline [] = (0, None)"
| "settle deadline (l # ls) =
     (if lk_sending l = 0 \<and> lk_sessions l = 0 then (1, Some True)
      else if deadline \<le> lk_now l then (1, Some False)
      else let (n, r) = settle deadline ls in (Suc n, r))"

definition finish_in_flight :: "config \<Rightarrow> nat \<Rightarrow> look list \<Rightarrow> nat \<times> bool option" where
  "finish_in_flight c start ls = settle (start + shutdown_grace c) ls"

text \<open>The whole run: \<open>ws\<close> is what wakes the main task, \<open>looks\<close> what it sees at the end; no exit code means it still runs.\<close>

definition serve ::
  "(relay_config \<Rightarrow> nat \<Rightarrow> str option) \<Rightarrow> bool \<Rightarrow> bool \<Rightarrow> spool \<Rightarrow> str list \<Rightarrow> config \<Rightarrow> wake list \<Rightarrow> int \<Rightarrow> nat \<Rightarrow> look list
     \<Rightarrow> nat option \<times> app_state option" where
  "serve te log_dir_ok have_dir fs names c ws now start looks =
     (case serve_start te log_dir_ok have_dir fs names c of
        Inl m \<Rightarrow> (Some 1, None)
      | Inr st \<Rightarrow>
          (case wait_for_end te (a_enabled (config.admin c)) ws st of
             (None, st) \<Rightarrow> (None, Some st)
           | (Some code, st) \<Rightarrow>
               (if snd (finish_in_flight c start looks) = None then None else Some code, Some (begin_shutdown now st))))"

section \<open>The report of --probe\<close>

definition pad_right :: "nat \<Rightarrow> str \<Rightarrow> str" where
  "pad_right n s = s @ replicate (n - length (chars s)) CHR '' ''"

definition pad_left :: "nat \<Rightarrow> str \<Rightarrow> str" where
  "pad_left n s = replicate (n - length (chars s)) CHR '' '' @ s"

definition probe_line :: "config \<Rightarrow> nat \<Rightarrow> probe_result \<Rightarrow> str" where
  "probe_line c width p =
     (let endpoint = (case relay (pr_relay_id p) c of Some r \<Rightarrow> host r @ '':'' @ dec (port r) | None \<Rightarrow> [])
      in if pr_ok p
         then pad_right width (pr_relay_id p) @ ''  ok      '' @ pad_left 5 (dec (case pr_latency_ms p of Some m \<Rightarrow> m | None \<Rightarrow> 0))
           @ '' ms  '' @ endpoint
         else pad_right width (pr_relay_id p) @ ''  FAILED            '' @ endpoint @ ''  ''
           @ (case pr_error p of Some e \<Rightarrow> e | None \<Rightarrow> ''unknown error''))"

definition probe_report :: "config \<Rightarrow> probe_result list \<Rightarrow> str list \<times> nat" where
  "probe_report c ps =
     (let results = sort_key pr_relay_id ps;
          width = max (fold (\<lambda>p m. max (length (pr_relay_id p)) m) results 0) 5;
          failed = length (filter (\<lambda>p. \<not> pr_ok p) results)
      in (map (probe_line c width) results
            @ [[], dec (length results - failed) @ '' of '' @ dec (length results) @ '' relay(s) reachable''],
          if failed = 0 then 0 else 1))"

definition probe_and_report ::
  "(relay_config \<Rightarrow> nat \<Rightarrow> str option) \<Rightarrow> bool \<Rightarrow> bool \<Rightarrow> spool \<Rightarrow> (nat \<times> probe_world) list \<Rightarrow> config \<Rightarrow> printed list \<times> nat" where
  "probe_and_report te log_dir_ok have_dir fs ps c =
     (case new_state te log_dir_ok have_dir fs c of
        Inl m \<Rightarrow> ([Err (say m)], 1)
      | Inr st \<Rightarrow> (let (results, st) = probe_all ps st; (ls, code) = probe_report (app_config st) results in (map Out ls, code)))"

section \<open>Transports that are not downgraded\<close>

lemma transport_not_downgraded:
  "build_transport init c t = Inr tr \<Longrightarrow>
     (tls c = tls_mode.StartTls \<longrightarrow> (\<exists>p. tr_tls tr = RequiredTls p)) \<and> (tls c = tls_mode.Tls \<longrightarrow> (\<exists>p. tr_tls tr = WrapperTls p))"
  by (auto simp: build_transport_def build_tls_def split: if_splits sum.splits)

lemma transport_built:
  assumes "trim (host c) \<noteq> []" "\<And>x. \<exists>p. init x = Inr p"
  shows "transport_error init c t = None"
  using assms(1) assms(2)[of "\<lparr>tp_domain = trim (host c), tp_accept_invalid = allow_invalid_certs c\<rparr>"]
  by (auto simp: transport_error_def build_transport_def build_tls_def)

lemma build_relays_ok: "(\<And>c. c \<in> set cs \<Longrightarrow> te c t = None) \<Longrightarrow> build_relays te t cs = Inr (map new_relay cs)"
  by (induction cs) auto

section \<open>Options one at a time\<close>

lemma parse_flags:
  "parse_options o1 (''--help'' # as) = parse_options (o1\<lparr>op_help := True\<rparr>) as"
  "parse_options o1 (''--version'' # as) = parse_options (o1\<lparr>op_version := True\<rparr>) as"
  "parse_options o1 (''--check'' # as) = parse_options (o1\<lparr>op_check := True\<rparr>) as"
  "parse_options o1 (''--print-config'' # as) = parse_options (o1\<lparr>op_print_config := True\<rparr>) as"
  "parse_options o1 (''--probe'' # as) = parse_options (o1\<lparr>op_probe := True\<rparr>) as"
  "parse_options o1 (''--force'' # as) = parse_options (o1\<lparr>op_force := True\<rparr>) as"
  "parse_options o1 ((''--config='' @ v) # as) = parse_options (o1\<lparr>op_config := Some v\<rparr>) as"
  "parse_options o1 ((''--generate-config='' @ v) # as) = parse_options (o1\<lparr>op_generate := Some v\<rparr>) as"
  by (simp_all add: parse_options.simps(2) starts_with_def)

lemma parse_pieces:
  "parse_options o1 ((if b then [''--help''] else []) @ as) = parse_options (o1\<lparr>op_help := b \<or> op_help o1\<rparr>) as"
  "parse_options o1 ((if b then [''--version''] else []) @ as) = parse_options (o1\<lparr>op_version := b \<or> op_version o1\<rparr>) as"
  "parse_options o1 ((if b then [''--check''] else []) @ as) = parse_options (o1\<lparr>op_check := b \<or> op_check o1\<rparr>) as"
  "parse_options o1 ((if b then [''--print-config''] else []) @ as) = parse_options (o1\<lparr>op_print_config := b \<or> op_print_config o1\<rparr>) as"
  "parse_options o1 ((if b then [''--probe''] else []) @ as) = parse_options (o1\<lparr>op_probe := b \<or> op_probe o1\<rparr>) as"
  "parse_options o1 ((if b then [''--force''] else []) @ as) = parse_options (o1\<lparr>op_force := b \<or> op_force o1\<rparr>) as"
  "parse_options o1 ((case p of Some v \<Rightarrow> [''--config='' @ v] | None \<Rightarrow> []) @ as) =
     parse_options (o1\<lparr>op_config := (case p of Some v \<Rightarrow> Some v | None \<Rightarrow> op_config o1)\<rparr>) as"
  "parse_options o1 ((case p of Some v \<Rightarrow> [''--generate-config='' @ v] | None \<Rightarrow> []) @ as) =
     parse_options (o1\<lparr>op_generate := (case p of Some v \<Rightarrow> Some v | None \<Rightarrow> op_generate o1)\<rparr>) as"
  using parse_flags by (auto split: option.split)

definition option_arguments :: "options \<Rightarrow> str list" where
  "option_arguments o1 =
     (if op_help o1 then [''--help''] else []) @ (if op_version o1 then [''--version''] else [])
     @ (if op_check o1 then [''--check''] else []) @ (if op_print_config o1 then [''--print-config''] else [])
     @ (if op_probe o1 then [''--probe''] else []) @ (if op_force o1 then [''--force''] else [])
     @ (case op_config o1 of Some v \<Rightarrow> [''--config='' @ v] | None \<Rightarrow> [])
     @ (case op_generate o1 of Some v \<Rightarrow> [''--generate-config='' @ v] | None \<Rightarrow> [])"

lemma validate_relays: "validate c = None \<Longrightarrow> check_relays [] 0 (config.relays c) = None"
  by (auto simp: validate_def)

section \<open>Properties\<close>

text \<open>Every combination of options can be said on the command line, with any paths, and is understood.\<close>

theorem options_roundtrip: "parse_options no_options (option_arguments o1) = Inr o1"
proof -
  have "parse_options no_options (option_arguments o1 @ []) = Inr o1"
    unfolding option_arguments_def append_assoc parse_pieces parse_options.simps(1) by (cases o1) (simp add: no_options_def split: option.split)
  then show ?thesis by simp
qed

text \<open>The daemon, or the probe of all relays, starts only with a configuration that was read from its file and
  accepted by validation, and by then nothing on the disk has changed.\<close>

theorem starts_only_valid:
  assumes "main w arguments d = (out, next_phase, d')" "next_phase \<in> {Serve c path, ProbeAll c path}"
  shows "load_config (st_parse w) (st_unreadable w) d path = Inr c \<and> validate c = None \<and> d' = d"
proof -
  have l: "load_config (st_parse w) (st_unreadable w) d path = Inr c \<and> d' = d" using assms
    by (auto simp: main_def split: sum.splits if_splits option.splits prod.splits)
  then have "validate c = None" by (auto simp: load_config_def split: option.splits sum.splits if_splits)
  with l show ?thesis by simp
qed

definition plain_world :: start_world where
  "plain_world = \<lparr>st_env = None, st_unreadable = None, st_parse = \<lambda>_ _. Inr sample_config, st_print = \<lambda>_ _. Inr ''server:'',
     st_mkdir = None, st_write = Succeeds, st_example = ''relays:'', st_runtime = None\<rparr>"

theorem starts_only_valid_witness:
  "case main plain_world [] [''config.yaml'' \<mapsto> ''x''] of (out, next_phase, d') \<Rightarrow>
     next_phase = Serve sample_config ''config.yaml'' \<and> validate sample_config = None \<and> d' = [''config.yaml'' \<mapsto> ''x'']"
proof -
  have f: "format_of ''config.yaml'' = Some FormatYaml" "utf8_valid ''x''" by code_simp+
  have m: "main plain_world [] [''config.yaml'' \<mapsto> ''x''] = ([], Serve sample_config ''config.yaml'', [''config.yaml'' \<mapsto> ''x''])"
    by (simp add: main_def plain_world_def no_options_def resolve_config_path_def CONFIG_CANDIDATES_def load_config_def f
        sample_config_accepted(1))
  show ?thesis using starts_only_valid[OF m, of sample_config "''config.yaml''"] m by simp
qed

text \<open>Whatever the arguments, no file that exists is changed unless --force is given.\<close>

theorem existing_files_kept:
  assumes "main w arguments d = (out, next_phase, d')" "d p = Some content" "d' p \<noteq> Some content"
  shows "\<exists>o1. parse_options no_options arguments = Inr o1 \<and> op_force o1 \<and> op_generate o1 = Some p"
proof -
  have g: "p = target \<and> force" if gen: "generate_config ex mk wr target force d = (r, d')" for ex mk wr target force r
  proof -
    have "p = target" using gen assms(2,3) write_elsewhere[of wr target ex d _ _ p]
      by (auto simp: generate_config_def split: if_splits prod.splits option.splits)
    then show ?thesis using gen assms(2,3) by (auto simp: generate_config_def split: if_splits)
  qed
  show ?thesis using assms g
    by (fastforce simp: main_def split: sum.splits if_splits option.splits prod.splits)
qed

theorem existing_files_kept_witness:
  "case main plain_world [''--generate-config'', ''--force''] [''config.yaml'' \<mapsto> ''x''] of (out, next_phase, d') \<Rightarrow>
     d' ''config.yaml'' = Some ''relays:'' \<and> (\<exists>o1. parse_options no_options [''--generate-config'', ''--force''] = Inr o1 \<and> op_force o1)"
proof -
  have p: "parse_options no_options [''--generate-config'', ''--force''] = Inr (no_options\<lparr>op_generate := Some ''config.yaml'', op_force := True\<rparr>)"
    by (simp add: parse_options.simps(2) starts_with_def no_options_def)
  have n: "parent_of ''config.yaml'' = []" by code_simp
  obtain out where m: "main plain_world [''--generate-config'', ''--force''] [''config.yaml'' \<mapsto> ''x''] = (out, ExitWith 0, [''config.yaml'' \<mapsto> ''relays:''])"
    using n p by (simp add: main_def plain_world_def generate_config_def no_options_def)
  show ?thesis using existing_files_kept[OF m, of "''config.yaml''" "''x''"] m by auto
qed

text \<open>C28. A configuration that validation accepts can be started: if the TLS library initialises, the state is
  built, with a relay for every configured one, in their order.\<close>

theorem accepted_config_starts:
  assumes "validate c = None" "\<And>x. \<exists>p. init x = Inr p"
  shows "\<exists>st. serve_start (transport_error init) log_dir_ok have_dir fs names c = Inr st
     \<and> app_config st = c \<and> map rcfg (relays (app_pool st)) = config.relays c"
proof -
  have "trim (host r) \<noteq> []" if "r \<in> set (config.relays c)" for r
    using assms(1) that check_relays_None[of "[]" 0 "config.relays c"] check_relay_None(2)
    by (metis validate_relays)
  then have b: "build_relays (transport_error init) t (config.relays c) = Inr (map new_relay (config.relays c))" for t
    using transport_built assms(2) by (intro build_relays_ok) blast
  have "rcfg (new_relay r) = r" for r by (simp add: new_relay_def)
  then show ?thesis by (simp add: serve_start_def new_state_def build_def b comp_def)
qed

theorem accepted_config_starts_witness:
  "\<exists>st. serve_start (transport_error (\<lambda>x. Inr x)) True True empty_spool [] sample_config = Inr st \<and> length (relays (app_pool st)) = 2"
proof -
  have "length (config.relays sample_config) = 2" by (simp add: sample_config_def)
  then show ?thesis using accepted_config_starts[OF sample_config_accepted(1), of Inr True True empty_spool "[]"]
    by (metis length_map)
qed

text \<open>The shutdown ends: with two looks at least 250 ms apart there are at most 481 of them, whatever the
  configured timeout and whatever still runs.\<close>

lemma settle_bound:
  assumes "\<forall>i<length ls. n \<le> i \<longrightarrow> deadline \<le> lk_now (ls ! i)"
  shows "fst (settle deadline ls) \<le> Suc n \<and> (n < length ls \<longrightarrow> snd (settle deadline ls) \<noteq> None)"
  using assms
proof (induction ls arbitrary: n)
  case (Cons l ls)
  show ?case
  proof (cases n)
    case 0
    then show ?thesis using Cons.prems by (auto split: if_splits)
  next
    case (Suc m)
    then have "\<forall>i<length ls. m \<le> i \<longrightarrow> deadline \<le> lk_now (ls ! i)" using Cons.prems by force
    from Cons.IH[OF this] show ?thesis using Suc by (auto simp: split_beta)
  qed
qed simp

theorem shutdown_ends:
  assumes "\<forall>i<length ls. start + i * 250000000 \<le> lk_now (ls ! i)"
  shows "fst (finish_in_flight c start ls) \<le> 481 \<and> (480 < length ls \<longrightarrow> snd (finish_in_flight c start ls) \<noteq> None)"
proof -
  have "shutdown_grace c \<le> 480 * 250000000" by (simp add: shutdown_grace_def secs_def)
  then have "start + shutdown_grace c \<le> lk_now (ls ! i)" if "i < length ls" "480 \<le> i" for i
    using assms that mult_le_mono1[of 480 i 250000000] by (meson add_left_mono le_trans)
  then show ?thesis using settle_bound[of ls 480 "start + shutdown_grace c"] by (simp add: finish_in_flight_def)
qed

theorem shutdown_ends_witness:
  "fst (finish_in_flight default_config 0 [\<lparr>lk_sending = 1, lk_sessions = 0, lk_now = 0\<rparr>, \<lparr>lk_sending = 0, lk_sessions = 0, lk_now = 250000000\<rparr>]) \<le> 481"
proof -
  have "\<forall>i<length [\<lparr>lk_sending = 1, lk_sessions = 0, lk_now = 0\<rparr>, \<lparr>lk_sending = 0, lk_sessions = 0, lk_now = 250000000\<rparr>].
      0 + i * 250000000 \<le> lk_now ([\<lparr>lk_sending = 1, lk_sessions = 0, lk_now = 0\<rparr>, \<lparr>lk_sending = 0, lk_sessions = 0, lk_now = 250000000\<rparr>] ! i)"
    by (auto simp: less_Suc_eq)
  from shutdown_ends[OF this] show ?thesis by blast
qed

text \<open>Hang-ups never put an invalid configuration in force.\<close>

lemma running_config_valid:
  "validate (app_config st) = None \<Longrightarrow> validate (app_config (snd (wait_for_end te admin_enabled ws st))) = None"
proof (induction te admin_enabled ws st rule: wait_for_end.induct)
  case (5 te admin_enabled now loaded ws st)
  have "validate (app_config (reload_on_hangup te now loaded st)) = None"
    using 5(2) by (auto simp: reload_on_hangup_def reload_from_disk_def apply_config_def Let_def split: sum.split option.split)
  then show ?case using 5(1) by simp
qed auto

lemma clean_exit_is_asked_for: "wait_for_end te admin_enabled ws st = (Some 0, st') \<Longrightarrow> Terminated \<in> set ws"
proof (induction te admin_enabled ws st rule: wait_for_end.induct)
  case (2 te admin_enabled r ws st)
  then show ?case by (cases r) auto
next
  case (3 te admin_enabled r ws st)
  then show ?case by (cases r) (auto split: if_splits)
qed auto

text \<open>The daemon reports success only after it was asked to stop, and then it is shutting down with a
  configuration that is valid - the one it started with, or the last one a hang-up brought.\<close>

theorem success_means_asked:
  assumes "serve te log_dir_ok have_dir fs names c ws now start looks = (Some 0, st)" "validate c = None"
  shows "Terminated \<in> set ws \<and> (\<exists>s. st = Some s \<and> shutting_down s \<and> validate (app_config s) = None)"
proof -
  obtain s0 where s0: "serve_start te log_dir_ok have_dir fs names c = Inr s0" "app_config s0 = c"
    using assms(1) by (auto simp: serve_def serve_start_def new_state_def split: sum.splits if_splits)
  obtain x s where x: "wait_for_end te (a_enabled (config.admin c)) ws s0 = (x, s)" by (rule prod.exhaust)
  have e: "x = Some 0" "st = Some (begin_shutdown now s)" using assms(1) s0 x
    by (auto simp: serve_def split: option.splits if_splits)
  have "validate (app_config s) = None" using running_config_valid[of s0] s0(2) assms(2) x by (metis snd_conv)
  then show ?thesis using e clean_exit_is_asked_for x by (auto simp: begin_shutdown_def)
qed

theorem success_means_asked_witness:
  "case serve (\<lambda>_ _. None) True True empty_spool [] sample_config [HangUp 0 (Inl ''no file''), Terminated] 0 0 [\<lparr>lk_sending = 0, lk_sessions = 0, lk_now = 0\<rparr>] of
     (code, st) \<Rightarrow> code = Some 0 \<and> (\<exists>s. st = Some s \<and> shutting_down s \<and> validate (app_config s) = None)"
proof -
  let ?r = "serve (\<lambda>_ _. None) True True empty_spool [] sample_config [HangUp 0 (Inl ''no file''), Terminated] 0 0 [\<lparr>lk_sending = 0, lk_sessions = 0, lk_now = 0\<rparr>]"
  have b: "build_relays (\<lambda>_ _. None) t cs = Inr (map new_relay cs)" for t cs by (rule build_relays_ok) simp
  obtain s0 where s0: "serve_start (\<lambda>_ _. None) True True empty_spool [] sample_config = Inr s0"
    by (simp add: serve_start_def new_state_def build_def b split del: if_split)
  have w: "wait_for_end te a [HangUp 0 (Inl ''no file''), Terminated] s0 = (Some 0, s0)" for te a
    by (simp add: reload_on_hangup_def reload_from_disk_def)
  have f: "snd (finish_in_flight c 0 [\<lparr>lk_sending = 0, lk_sessions = 0, lk_now = 0\<rparr>]) = Some True" for c
    by (simp add: finish_in_flight_def)
  have r: "?r = (Some 0, Some (begin_shutdown 0 s0))"
    unfolding serve_def s0 sum.case w prod.case option.case f by simp
  have "\<exists>s. Some (begin_shutdown 0 s0) = Some s \<and> shutting_down s \<and> validate (app_config s) = None"
    using success_means_asked[OF r sample_config_accepted(1)] by (rule conjunct2)
  then show ?thesis unfolding r prod.case by (rule conjI[OF refl])
qed

end
