(* ===== verification/Http.thy ===== *)
theory Http
  imports Lines Command Dispatch
begin

text \<open>The HTTP server of the dashboard (src/admin/http.rs): percent-decoding, query strings, cookies, reading
  a request from the bounded line reader, writing a response, and the loop of a keep-alive connection. A
  hash map of strings is an association list with one entry for a key. A JSON body is kept as its value and
  printed by \<open>js\<close> when it is written. \<^const>\<open>None\<close> is a panic of the connection's task: a slice of a
  string that cuts a character in two.\<close>

section \<open>URLs\<close>

text \<open>\<^verbatim>\<open>u8::from_str_radix(_, 16)\<close> on two bytes: a plus sign may stand before one digit.\<close>

definition hex_byte :: "char \<Rightarrow> char \<Rightarrow> char option" where
  "hex_byte a b =
     (case hex_val b of
        None \<Rightarrow> None
      | Some y \<Rightarrow> if a = CHR ''+'' then Some (char_of y) else map_option (\<lambda>x. char_of (16 * x + y)) (hex_val a))"

text \<open>The slice of the two bytes after a percent sign panics unless both its ends are boundaries of characters;
  a boundary is the end of the text or a byte that continues no character.\<close>

definition boundary :: "str \<Rightarrow> bool" where
  "boundary rest = (case rest of [] \<Rightarrow> True | c # _ \<Rightarrow> \<not> cont c)"

fun decode_loop :: "str \<Rightarrow> bytes option" where
  "decode_loop [] = Some []"
| "decode_loop (c # cs) =
     (if c = CHR ''%'' \<and> 2 \<le> length cs
      then if \<not> boundary cs \<or> \<not> boundary (drop 2 cs) then None
           else case hex_byte (cs ! 0) (cs ! 1) of
             Some b \<Rightarrow> map_option ((#) b) (decode_loop (drop 2 cs))
           | None \<Rightarrow> map_option ((#) c) (decode_loop cs)
      else map_option ((#) (if c = CHR ''+'' then CHR '' '' else c)) (decode_loop cs))"

definition percent_decode :: "str \<Rightarrow> str option" where
  "percent_decode s = map_option utf8_lossy (decode_loop s)"

type_synonym str_map = "(str \<times> str) list"

fun query_pairs :: "str list \<Rightarrow> str_map \<Rightarrow> str_map option" where
  "query_pairs [] m = Some m"
| "query_pairs (p # ps) m =
     (if p = [] then query_pairs ps m
      else case split_once CHR ''='' p of
        Some (k, v) \<Rightarrow>
          (case percent_decode k of
             None \<Rightarrow> None
           | Some k \<Rightarrow> (case percent_decode v of None \<Rightarrow> None | Some v \<Rightarrow> query_pairs ps (AList.update k v m)))
      | None \<Rightarrow> (case percent_decode p of None \<Rightarrow> None | Some k \<Rightarrow> query_pairs ps (AList.update k [] m)))"

definition parse_query :: "str \<Rightarrow> str_map option" where
  "parse_query q = query_pairs (split_all CHR ''&'' q) []"

section \<open>Requests\<close>

definition MAX_LINE :: nat where "MAX_LINE = 8 * 1024"
definition MAX_BODY :: nat where "MAX_BODY = 4 * 1024 * 1024"
definition MAX_HEADERS :: nat where "MAX_HEADERS = 100"

record request =
  rq_method :: str
  rq_path :: str
  rq_segments :: "str list"
  rq_query :: str_map
  rq_headers :: str_map
  rq_body :: bytes
  rq_peer :: ip_addr

definition header_of :: "str \<Rightarrow> request \<Rightarrow> str option" where
  "header_of name rq = map_of (rq_headers rq) name"

definition query_param :: "str \<Rightarrow> request \<Rightarrow> str option" where
  "query_param name rq = map_of (rq_query rq) name"

text \<open>\<^verbatim>\<open>query_as::<usize>\<close>.\<close>

definition query_usize :: "str \<Rightarrow> request \<Rightarrow> nat option" where
  "query_usize name rq = Option.bind (query_param name rq) (parse_uint (Suc usize_max))"

fun find_cookie :: "str \<Rightarrow> str list \<Rightarrow> str option" where
  "find_cookie name [] = None"
| "find_cookie name (p # ps) =
     (case split_once CHR ''='' (trim p) of
        Some (k, v) \<Rightarrow> if trim k = name then Some (trim v) else find_cookie name ps
      | None \<Rightarrow> find_cookie name ps)"

definition cookie :: "str \<Rightarrow> request \<Rightarrow> str option" where
  "cookie name rq = Option.bind (header_of ''cookie'' rq) (\<lambda>h. find_cookie name (split_all CHR '';'' h))"

definition body_json :: "(bytes \<Rightarrow> str + 'a) \<Rightarrow> request \<Rightarrow> str + 'a" where
  "body_json decode rq =
     (if rq_body rq = [] then Inl ''a JSON request body is required''
      else map_sum (\<lambda>error. ''invalid JSON body: '' @ error) id (decode (rq_body rq)))"

text \<open>The fields up to the empty line.\<close>

function read_headers :: "str_map \<Rightarrow> line_reader \<Rightarrow> (str + str_map) io \<times> line_reader" where
  "read_headers m r =
     (case read_line MAX_LINE r of
        (Done (Line line), r') \<Rightarrow>
          if line = [] then (Done (Inr m), r')
          else if MAX_HEADERS \<le> length m then (Done (Inl ''too many headers''), r')
          else (case split_once CHR '':'' (utf8_lossy line) of
                  Some (name, v) \<Rightarrow> read_headers (AList.update (to_lower (trim name)) (trim v) m) r'
                | None \<Rightarrow> read_headers m r')
      | (Done TooLong, r') \<Rightarrow> (Done (Inl ''header line too long''), r')
      | (Done Eof, r') \<Rightarrow> (Done (Inl ''connection closed mid-request''), r')
      | (Lines.Failed, r') \<Rightarrow> (Lines.Failed, r')
      | (Elapsed, r') \<Rightarrow> (Elapsed, r'))"
  by pat_completeness auto
termination
  by (relation "measure (\<lambda>(m, r). to_come r)") (auto dest: read_line_more[OF sym])

declare read_headers.simps [simp del]

text \<open>The body that the headers announce.\<close>

definition read_request_body :: "str_map \<Rightarrow> line_reader \<Rightarrow> (str + bytes) io \<times> line_reader" where
  "read_request_body m r =
     (case map_of m ''content-length'' of
        Some v \<Rightarrow>
          (case parse_uint (Suc usize_max) v of
             None \<Rightarrow> (Done (Inl ''invalid Content-Length''), r)
           | Some n \<Rightarrow>
               if MAX_BODY < n
               then (Done (Inl (''request body of '' @ dec n @ '' bytes exceeds the '' @ dec MAX_BODY @ '' byte limit'')), r)
               else if n = 0 then (Done (Inr []), r)
               else (case read_exact_bytes n r of
                       (Done (Some bs), r') \<Rightarrow> (Done (Inr bs), r')
                     | (Done None, r') \<Rightarrow> (Done (Inl ''request body was truncated''), r')
                     | (Lines.Failed, r') \<Rightarrow> (Lines.Failed, r')
                     | (Elapsed, r') \<Rightarrow> (Elapsed, r')))
      | None \<Rightarrow>
          if map_of m ''transfer-encoding'' \<noteq> None
          then (Done (Inl ''chunked request bodies are not supported; send Content-Length''), r)
          else (Done (Inr []), r))"

text \<open>The request put together from its target; \<^const>\<open>None\<close> is a panic.\<close>

definition assemble :: "str \<Rightarrow> str \<Rightarrow> str_map \<Rightarrow> bytes \<Rightarrow> ip_addr \<Rightarrow> request option" where
  "assemble meth target m content peer =
     (let (raw_path, raw_query) = (case split_once CHR ''?'' target of
            Some (p, q) \<Rightarrow> (p, Some q) | None \<Rightarrow> (target, None))
      in case percent_decode raw_path of
           None \<Rightarrow> None
         | Some p \<Rightarrow>
             (case (case raw_query of Some q \<Rightarrow> parse_query q | None \<Rightarrow> Some []) of
                None \<Rightarrow> None
              | Some q \<Rightarrow> Some \<lparr>rq_method = meth, rq_path = p,
                  rq_segments = filter (\<lambda>s. s \<noteq> []) (split_all CHR ''/'' p), rq_query = q, rq_headers = m,
                  rq_body = content, rq_peer = peer\<rparr>))"

definition read_request :: "ip_addr \<Rightarrow> line_reader \<Rightarrow> ((str + request option) io \<times> line_reader) option" where
  "read_request peer r =
     (case read_line MAX_LINE r of
        (Done Eof, r) \<Rightarrow> Some (Done (Inr None), r)
      | (Done TooLong, r) \<Rightarrow> Some (Done (Inl ''request line too long''), r)
      | (Lines.Failed, r) \<Rightarrow> Some (Lines.Failed, r)
      | (Elapsed, r) \<Rightarrow> Some (Elapsed, r)
      | (Done (Line first), r) \<Rightarrow>
          if first = [] then Some (Done (Inl ''empty request line''), r)
          else
            let parts = split_whitespace (utf8_lossy first);
                meth = (case parts of p # _ \<Rightarrow> to_upper p | [] \<Rightarrow> []);
                target = (case parts of _ # t # _ \<Rightarrow> t | _ \<Rightarrow> ''/'')
            in if meth = [] then Some (Done (Inl ''malformed request line''), r)
               else (case read_headers [] r of
                       (Lines.Failed, r) \<Rightarrow> Some (Lines.Failed, r)
                     | (Elapsed, r) \<Rightarrow> Some (Elapsed, r)
                     | (Done (Inl e), r) \<Rightarrow> Some (Done (Inl e), r)
                     | (Done (Inr m), r) \<Rightarrow>
                         (case read_request_body m r of
                            (Lines.Failed, r) \<Rightarrow> Some (Lines.Failed, r)
                          | (Elapsed, r) \<Rightarrow> Some (Elapsed, r)
                          | (Done (Inl e), r) \<Rightarrow> Some (Done (Inl e), r)
                          | (Done (Inr content), r) \<Rightarrow>
                              map_option (\<lambda>rq. (Done (Inr (Some rq)), r)) (assemble meth target m content peer))))"

definition wants_keep_alive :: "request \<Rightarrow> bool" where
  "wants_keep_alive rq = (case header_of ''connection'' rq of Some v \<Rightarrow> \<not> eq_ignore_case v ''close'' | None \<Rightarrow> True)"

section \<open>Responses\<close>

datatype content = Json json | Plain bytes

record response =
  rs_status :: nat
  rs_content_type :: str
  rs_headers :: "(str \<times> str) list"
  rs_content :: content

definition respond :: "nat \<Rightarrow> str \<Rightarrow> content \<Rightarrow> response" where
  "respond status ty c = \<lparr>rs_status = status, rs_content_type = ty, rs_headers = [], rs_content = c\<rparr>"

definition with_header :: "str \<Rightarrow> str \<Rightarrow> response \<Rightarrow> response" where
  "with_header name v rs = rs\<lparr>rs_headers := rs_headers rs @ [(name, v)]\<rparr>"

definition json_value :: "nat \<Rightarrow> json \<Rightarrow> response" where
  "json_value status v =
     with_header ''Pragma'' ''no-cache'' (with_header ''Cache-Control'' ''no-cache, no-store, must-revalidate''
       (respond status ''application/json; charset=utf-8'' (Json v)))"

definition error_response :: "nat \<Rightarrow> str \<Rightarrow> response" where
  "error_response status text = json_value status (JObj [(''error'', JStr text), (''status'', JInt (int status))])"

definition ok_message :: "str \<Rightarrow> response" where
  "ok_message text = json_value 200 (JObj [(''ok'', JBool True), (''message'', JStr text)])"

definition text_response :: "nat \<Rightarrow> str \<Rightarrow> response" where
  "text_response status t = respond status ''text/plain; charset=utf-8'' (Plain t)"

definition html_response :: "str \<Rightarrow> response" where
  "html_response t =
     with_header ''Pragma'' ''no-cache'' (with_header ''Cache-Control'' ''no-store, no-cache, must-revalidate, max-age=0''
       (respond 200 ''text/html; charset=utf-8'' (Plain t)))"

definition status_text :: "nat \<Rightarrow> str" where
  "status_text n =
     (if n = 200 then ''OK'' else if n = 201 then ''Created'' else if n = 204 then ''No Content''
      else if n = 400 then ''Bad Request'' else if n = 401 then ''Unauthorized'' else if n = 403 then ''Forbidden''
      else if n = 404 then ''Not Found'' else if n = 405 then ''Method Not Allowed'' else if n = 409 then ''Conflict''
      else if n = 413 then ''Payload Too Large'' else if n = 422 then ''Unprocessable Entity''
      else if n = 429 then ''Too Many Requests'' else if n = 500 then ''Internal Server Error''
      else if n = 502 then ''Bad Gateway'' else if n = 503 then ''Service Unavailable'' else ''OK'')"

definition content_bytes :: "(json \<Rightarrow> bytes) \<Rightarrow> response \<Rightarrow> bytes" where
  "content_bytes js rs = (case rs_content rs of Json v \<Rightarrow> js v | Plain bs \<Rightarrow> bs)"

definition head_lines :: "(json \<Rightarrow> bytes) \<Rightarrow> response \<Rightarrow> bool \<Rightarrow> bytes list" where
  "head_lines js rs keep_alive =
     [''HTTP/1.1 '' @ dec (rs_status rs) @ '' '' @ status_text (rs_status rs),
      ''Content-Type: '' @ rs_content_type rs,
      ''Content-Length: '' @ dec (length (content_bytes js rs)),
      (if keep_alive then ''Connection: keep-alive'' else ''Connection: close''),
      ''X-Content-Type-Options: nosniff'']
     @ map (\<lambda>(name, v). name @ '': '' @ v) (rs_headers rs)"

definition serialize_parts :: "(json \<Rightarrow> bytes) \<Rightarrow> response \<Rightarrow> bool \<Rightarrow> bool \<Rightarrow> bytes" where
  "serialize_parts js rs keep_alive head_only =
     concat (map (\<lambda>l. l @ CRLF) (head_lines js rs keep_alive)) @ CRLF @ (if head_only then [] else content_bytes js rs)"

datatype reply = Complete response | EventStream

section \<open>A connection\<close>

lemma read_headers_to_come: "read_headers m r = (x, r') \<Longrightarrow> to_come r' \<le> to_come r"
proof (induction "to_come r" arbitrary: m r rule: less_induct)
  case less
  obtain y r1 where l: "read_line MAX_LINE r = (y, r1)" by (rule prod.exhaust)
  note le = read_line_to_come[OF l]
  show ?case
  proof (cases "\<exists>k. y = Done (Line k)")
    case True
    then have lt: "to_come r1 < to_come r" using le(2) by auto
    have "r' = r1 \<or> (\<exists>m. read_headers m r1 = (x, r'))"
      using less.prems l True by (subst (asm) read_headers.simps) (auto split: if_splits option.splits)
    then show ?thesis using less.hyps[OF lt] lt by fastforce
  next
    case False
    then have "r' = r1" using less.prems l by (subst (asm) read_headers.simps) (auto split: io.splits line_result.splits)
    then show ?thesis using le by simp
  qed
qed

lemma read_request_body_to_come: "read_request_body m r = (x, r') \<Longrightarrow> to_come r' \<le> to_come r"
  by (auto simp: read_request_body_def read_exact_bytes_def split: option.splits if_splits prod.splits io.splits
      dest!: read_exact_loop_to_come)

lemma read_request_to_come:
  assumes "read_request peer r = Some (Done (Inr (Some rq)), r')"
  shows "to_come r' < to_come r"
proof -
  obtain y r1 where l: "read_line MAX_LINE r = (y, r1)" by (rule prod.exhaust)
  obtain first where y: "y = Done (Line first)" "first \<noteq> []"
    using assms by (auto simp: read_request_def l split: io.splits line_result.splits if_splits)
  obtain z r2 where h: "read_headers [] r1 = (z, r2)" by (rule prod.exhaust)
  obtain m where z: "z = Done (Inr m)"
    using assms by (auto simp: read_request_def l y h Let_def split: io.splits sum.splits if_splits)
  obtain c r3 where b: "read_request_body m r2 = (c, r3)" by (rule prod.exhaust)
  have "r' = r3"
    using assms by (auto simp: read_request_def l y h z b Let_def split: io.splits sum.splits if_splits)
  moreover have "to_come r1 < to_come r" using read_line_to_come(2)[OF l] y(1) by simp
  ultimately show ?thesis using read_headers_to_come[OF h] read_request_body_to_come[OF b] by simp
qed

definition sse_head :: bytes where
  "sse_head = concat (map (\<lambda>l. l @ CRLF) [''HTTP/1.1 200 OK'', ''Content-Type: text/event-stream; charset=utf-8'',
     ''Cache-Control: no-cache, no-store'', ''Connection: keep-alive'', ''X-Accel-Buffering: no'', []])
   @ '': connected'' @ [LF, LF]"

definition event_frame :: "str \<Rightarrow> bytes \<Rightarrow> bytes" where
  "event_frame name payload = ''event: '' @ name @ [LF] @ ''data: '' @ payload @ [LF, LF]"

definition lagged_frame :: "nat \<Rightarrow> bytes" where
  "lagged_frame skipped = event_frame ''lagged'' ([CHR ''{'', DQ] @ ''skipped'' @ [DQ, CHR '':''] @ dec skipped @ [CHR ''}''])"

text \<open>How a connection ends: closed, failed while writing, or handed to the stream of events.\<close>

datatype conn_end = ConnClosed | ConnFailed | ConnStream

text \<open>The loop of \<^verbatim>\<open>serve_connection\<close>; the timeout is around the whole request, so a stalled read ends the
  connection. The state of the application is threaded through the handler.\<close>

function serve_loop ::
  "(json \<Rightarrow> bytes) \<Rightarrow> (request \<Rightarrow> 's \<Rightarrow> (reply \<times> 's) option) \<Rightarrow> ip_addr \<Rightarrow> bool list \<Rightarrow> bytes \<Rightarrow> line_reader \<Rightarrow> 's
     \<Rightarrow> (conn_end \<times> bytes \<times> 's) option" where
  "serve_loop js handler peer ws out r st =
     (let ok = (ws = [] \<or> hd ws) in
      case read_request peer r of
        None \<Rightarrow> None
      | Some (Done (Inr (Some rq)), r') \<Rightarrow>
          let keep_alive = wants_keep_alive rq;
              head_only = (rq_method rq = ''HEAD'');
              rq = (if head_only then rq\<lparr>rq_method := ''GET''\<rparr> else rq)
          in (case handler rq st of
                None \<Rightarrow> None
              | Some (Complete rs, st') \<Rightarrow>
                  if \<not> ok then Some (ConnFailed, out, st')
                  else let out = out @ serialize_parts js rs keep_alive head_only
                       in if keep_alive then serve_loop js handler peer (tl ws) out r' st' else Some (ConnClosed, out, st')
              | Some (EventStream, st') \<Rightarrow> Some (ConnStream, if ok then out @ sse_head else out, st'))
      | Some (Done (Inl e), r') \<Rightarrow>
          Some (ConnClosed, if ok then out @ serialize_parts js (error_response 400 e) False False else out, st)
      | Some (_, r') \<Rightarrow> Some (ConnClosed, out, st))"
  by pat_completeness auto
termination
  by (relation "measure (\<lambda>(js, h, peer, ws, out, r, st). to_come r)") (auto dest: read_request_to_come)

declare serve_loop.simps [simp del]

text \<open>A browser that speaks TLS to this port sends a byte 0x16 first.\<close>

definition serve_connection ::
  "(json \<Rightarrow> bytes) \<Rightarrow> (request \<Rightarrow> 's \<Rightarrow> (reply \<times> 's) option) \<Rightarrow> ip_addr \<Rightarrow> bool list \<Rightarrow> read_event list \<Rightarrow> 's
     \<Rightarrow> (conn_end \<times> bytes \<times> 's) option" where
  "serve_connection js handler peer ws src st =
     (case src of
        Data (c # _) # _ \<Rightarrow> if c = CHR 0x16 then Some (ConnClosed, [], st) else serve_loop js handler peer ws [] (new_reader src) st
      | _ \<Rightarrow> serve_loop js handler peer ws [] (new_reader src) st)"

section \<open>What a connection needs of its handler\<close>

text \<open>A request that reaches the handler carries the address of the peer and the segments of its path.\<close>

definition segments_of :: "str \<Rightarrow> str list" where
  "segments_of p = filter (\<lambda>s. s \<noteq> []) (split_all CHR ''/'' p)"

lemma assemble_shape: "assemble meth target m content peer = Some rq \<Longrightarrow> rq_peer rq = peer \<and> rq_segments rq = segments_of (rq_path rq)"
proof -
  assume a: "assemble meth target m content peer = Some rq"
  obtain p q where pq: "(case split_once CHR ''?'' target of Some (p, q) \<Rightarrow> (p, Some q) | None \<Rightarrow> (target, None)) = (p, q)"
    by (rule prod.exhaust)
  show ?thesis
    using a unfolding assemble_def pq Let_def prod.case
    by (cases "percent_decode p"; cases "case q of Some q \<Rightarrow> parse_query q | None \<Rightarrow> Some []") (auto simp: segments_of_def)
qed

lemma read_request_shape:
  assumes "read_request peer r = Some (Done (Inr (Some rq)), r')"
  shows "rq_peer rq = peer \<and> rq_segments rq = segments_of (rq_path rq)"
proof -
  have "\<exists>meth target m content. assemble meth target m content peer = Some rq"
    using assms by (auto simp: read_request_def Let_def split: io.splits line_result.splits sum.splits if_splits prod.splits option.splits)
  then show ?thesis using assemble_shape by blast
qed

text \<open>The interface between a connection and its handler: every request of the peer keeps \<open>P\<close>, and every reply
  satisfies \<open>Q\<close>. A whole connection then keeps \<open>P\<close>.\<close>

locale request_handler =
  fixes handler :: "request \<Rightarrow> 's \<Rightarrow> (reply \<times> 's) option"
    and peer :: ip_addr
    and P :: "'s \<Rightarrow> bool"
    and Q :: "reply \<Rightarrow> bool"
  assumes handles: "rq_peer rq = peer \<Longrightarrow> rq_segments rq = segments_of (rq_path rq) \<Longrightarrow> P st \<Longrightarrow>
      handler rq st = Some (rep, st') \<Longrightarrow> P st' \<and> Q rep"
begin

lemma loop_keeps:
  "serve_loop js handler peer ws out r st = Some (e, out', st') \<Longrightarrow> P st \<Longrightarrow> P st' \<and> (e = ConnStream \<longrightarrow> Q EventStream)"
proof (induction "to_come r" arbitrary: ws out r st rule: less_induct)
  case less
  obtain x r1 where q: "read_request peer r = None \<or> read_request peer r = Some (x, r1)" by (cases "read_request peer r") auto
  show ?case
  proof (cases "\<exists>rq. read_request peer r = Some (Done (Inr (Some rq)), r1)")
    case False
    then show ?thesis using q less.prems
      by (subst (asm) serve_loop.simps) (auto simp: Let_def split: io.splits sum.splits option.splits)
  next
    case True
    then obtain rq where rq: "read_request peer r = Some (Done (Inr (Some rq)), r1)" by blast
    let ?rq = "if rq_method rq = ''HEAD'' then rq\<lparr>rq_method := ''GET''\<rparr> else rq"
    have shape: "rq_peer ?rq = peer" "rq_segments ?rq = segments_of (rq_path ?rq)" using read_request_shape[OF rq] by simp_all
    note lt = read_request_to_come[OF rq]
    show ?thesis
    proof (cases "handler ?rq st")
      case None
      then show ?thesis using less.prems rq by (subst (asm) serve_loop.simps) (simp add: Let_def)
    next
      case (Some a)
      obtain rep st1 where a: "a = (rep, st1)" by (rule prod.exhaust)
      have P1: "P st1" "Q rep" using handles[OF shape less.prems(2)] Some a by auto
      show ?thesis
      proof (cases rep)
        case EventStream
        then show ?thesis using less.prems(1) rq Some a P1 by (subst (asm) serve_loop.simps) (auto simp: Let_def)
      next
        case (Complete rs)
        have "e = ConnFailed \<and> st' = st1 \<or> e = ConnClosed \<and> st' = st1
            \<or> (\<exists>out1. serve_loop js handler peer (tl ws) out1 r1 st1 = Some (e, out', st'))"
          using less.prems(1) rq Some a Complete by (subst (asm) serve_loop.simps) (auto simp: Let_def split: if_splits)
        then show ?thesis using P1 less.hyps[OF lt] by auto
      qed
    qed
  qed
qed

lemma connection_keeps:
  assumes "serve_connection js handler peer ws src st = Some (e, out, st')" "P st"
  shows "P st' \<and> (e = ConnStream \<longrightarrow> Q EventStream)"
proof -
  have "serve_connection js handler peer ws src st = serve_loop js handler peer ws [] (new_reader src) st
      \<or> serve_connection js handler peer ws src st = Some (ConnClosed, [], st)"
    by (simp add: serve_connection_def split: list.split read_event.split)
  then show ?thesis
  proof (elim disjE)
    assume "serve_connection js handler peer ws src st = serve_loop js handler peer ws [] (new_reader src) st"
    then show ?thesis using loop_keeps[of js ws "[]" "new_reader src" st e out st'] assms by simp
  next
    assume "serve_connection js handler peer ws src st = Some (ConnClosed, [], st)"
    then show ?thesis using assms by simp
  qed
qed

end

section \<open>Percent-decoding\<close>

lemma hex_upper_val:
  assumes "n < 16"
  shows "hex_val (hex_upper n) = Some n" "hex_upper n \<noteq> CHR ''+''" "\<not> cont (hex_upper n)"
proof -
  have b: "byte (hex_upper n) = (if n < 10 then 48 + n else 55 + n)" using assms by (simp add: hex_upper_def)
  have "byte CHR ''+'' = 43" by (simp add: byte_def)
  then show "hex_val (hex_upper n) = Some n" "hex_upper n \<noteq> CHR ''+''" "\<not> cont (hex_upper n)"
    using b assms by (auto simp: hex_val_def cont_def split: if_splits)
qed

lemma hex_byte_upper: "hex_byte (hex_upper (byte c div 16)) (hex_upper (byte c mod 16)) = Some c"
proof -
  have d: "byte c div 16 < 16" "byte c mod 16 < 16" using byte_less[of c] by simp_all
  have "char_of (16 * (byte c div 16) + byte c mod 16) = c" by (simp add: byte_def)
  then show ?thesis using hex_upper_val[OF d(1)] hex_upper_val[OF d(2)] by (simp add: hex_byte_def)
qed

lemma encode_byte_cases:
  obtains "encode_byte c = [c]" "c \<noteq> CHR ''%''" "c \<noteq> CHR ''+''" "\<not> cont c"
  | "encode_byte c = [CHR ''%'', hex_upper (byte c div 16), hex_upper (byte c mod 16)]"
proof (cases "is_alnum_byte c \<or> c \<in> {CHR ''-'', CHR ''.'', CHR ''_'', CHR ''~''}")
  case True
  have "\<not> is_alnum_byte CHR ''%''" "\<not> is_alnum_byte CHR ''+''" by (simp_all add: is_alnum_byte_def is_digit_byte_def byte_def)
  then have n: "c \<noteq> CHR ''%''" "c \<noteq> CHR ''+''" using True by auto
  have "byte c < 128" using True by (auto simp: is_alnum_byte_def is_digit_byte_def byte_def)
  then have "\<not> cont c" by (simp add: cont_def)
  moreover have "encode_byte c = [c]" using True by (auto simp: encode_byte_def)
  ultimately show thesis using that(1) n by blast
next
  case False
  then show thesis using that(2) by (simp add: encode_byte_def)
qed

lemma encode_boundary: "boundary (encode_path s)"
proof (cases s)
  case (Cons c cs)
  have "byte CHR ''%'' = 37" by (simp add: byte_def)
  then show ?thesis
    by (cases rule: encode_byte_cases[of c]) (simp_all add: Cons encode_path_def boundary_def cont_def)
qed (simp add: encode_path_def boundary_def)

lemma decode_encode: "decode_loop (encode_path s) = Some s"
proof (induction s)
  case (Cons c cs)
  let ?h = "hex_upper (byte c div 16)" and ?l = "hex_upper (byte c mod 16)"
  have d: "byte c div 16 < 16" using byte_less[of c] by simp
  have e: "encode_path (c # cs) = encode_byte c @ encode_path cs" by (simp add: encode_path_def)
  show ?case
  proof (cases rule: encode_byte_cases[of c])
    case 1
    then show ?thesis using Cons by (simp add: e)
  next
    case 2
    have "boundary (?h # ?l # encode_path cs)" using hex_upper_val[OF d] by (simp add: boundary_def)
    then show ?thesis using Cons encode_boundary[of cs] 2 by (simp add: e hex_byte_upper)
  qed
qed (simp add: encode_path_def)

section \<open>A request on the wire\<close>

definition visible :: "str \<Rightarrow> bool" where
  "visible s = (s \<noteq> [] \<and> list_all (\<lambda>c. 33 \<le> byte c \<and> byte c \<le> 126) s)"

lemma visibleD:
  assumes "visible s"
  shows "s \<noteq> []" "is_ascii s" "\<forall>c\<in>set s. \<not> is_ws [c]" "LF \<notin> set s"
proof -
  have "byte LF = 10" by (simp add: byte_def)
  then show "s \<noteq> []" "is_ascii s" "\<forall>c\<in>set s. \<not> is_ws [c]" "LF \<notin> set s"
    using assms by (force simp: visible_def list_all_iff is_ascii_def is_ws_byte_iff)+
qed

lemma ws_tokens_run: "\<forall>c\<in>set w. \<not> is_ws [c] \<Longrightarrow> ws_tokens (map (\<lambda>c. [c]) w @ xs) acc = ws_tokens xs (acc @ w)"
  by (induction w arbitrary: acc) auto

lemma words_of_request_line:
  assumes "visible a" "visible b" "visible c"
  shows "split_whitespace (a @ '' '' @ b @ '' '' @ c) = [a, b, c]"
proof -
  have sp: "is_ws '' ''" "is_ascii '' ''" by (simp_all add: is_ws_def byte_def is_ascii_def)
  have "is_ascii (a @ '' '' @ b @ '' '' @ c)" using visibleD(2) assms sp(2) by (simp add: is_ascii_def)
  then show ?thesis
    using visibleD(1,3)[OF assms(1)] visibleD(1,3)[OF assms(2)] visibleD(1,3)[OF assms(3)] sp(1)
      ws_tokens_run[of c "[]" "[]"]
    by (simp add: split_whitespace_def chars_ascii ws_tokens_run)
qed

lemma dec_length: "n < 10 ^ Suc k \<Longrightarrow> length (dec n) \<le> Suc k"
proof (induction k arbitrary: n)
  case (Suc k)
  show ?case
  proof (cases "n < 10")
    case False
    have "n div 10 < 10 ^ Suc k" using Suc.prems by (simp add: div_less_iff_less_mult)
    then show ?thesis using Suc.IH[of "n div 10"] False by (simp add: dec_large)
  qed (simp add: dec_small)
qed (simp add: dec_small)

lemma dec_plain: "is_ascii (dec n)" "LF \<notin> set (dec n)" "CHR '':'' \<notin> set (dec n)" "trim (CHR '' '' # dec n) = dec n"
proof -
  have d: "\<forall>c\<in>set (dec n). is_digit_byte c" using dec_digits[of n] by (simp add: list_all_iff)
  have "\<not> is_digit_byte LF" "\<not> is_digit_byte CHR '':''" by (simp_all add: is_digit_byte_def byte_def)
  then show "LF \<notin> set (dec n)" "CHR '':'' \<notin> set (dec n)" using d by blast+
  have p: "is_digit_byte c \<Longrightarrow> byte c < 128 \<and> \<not> is_ws [c]" for c by (auto simp: is_digit_byte_def is_ws_byte_iff)
  then show a: "is_ascii (dec n)" using d by (auto simp: is_ascii_def list_all_iff)
  have "trim (dec n) = dec n"
    using d p dec_nonempty[of n] by (intro trim_ascii_id a) auto
  then show "trim (CHR '' '' # dec n) = dec n" by (simp add: trim_def trim_start_blank)
qed

definition request_bytes :: "str \<Rightarrow> str \<Rightarrow> bytes \<Rightarrow> bytes" where
  "request_bytes meth target content =
     meth @ '' '' @ target @ '' HTTP/1.1'' @ CRLF @ ''Content-Length: '' @ dec (length content) @ CRLF @ CRLF @ content"

lemma read_headers_end:
  assumes "reader_ok r" "pending r = CR # LF # rest"
  obtains r' where "read_headers m r = (Done (Inr m), r')" "reader_ok r'" "pending r' = rest"
proof -
  have l: "MAX_LINE + 2 \<le> usize_max" by (simp add: MAX_LINE_def usize_max_def)
  obtain r' where r': "read_line MAX_LINE r = (Done (finish_line MAX_LINE []), r')" "reader_ok r'" "pending r' = rest"
    by (rule read_line_crlf[OF assms(1) l, of "[]" rest]) (use assms(2) in simp_all)
  moreover have "read_headers m r = (Done (Inr m), r')"
    using r'(1) by (subst read_headers.simps) (simp add: finish_line_def)
  ultimately show thesis using that by blast
qed

lemma content_length_field:
  "split_once CHR '':'' (''Content-Length: '' @ dec n) = Some (''Content-Length'', CHR '' '' # dec n)"
  by (subst split_once_Some) simp

lemma read_headers_length:
  assumes "reader_ok r" "pending r = (''Content-Length: '' @ dec n) @ CR # LF # CR # LF # rest" "length (dec n) \<le> 7"
  obtains r' where "read_headers [] r = (Done (Inr [(''content-length'', dec n)]), r')" "reader_ok r'" "pending r' = rest"
proof -
  let ?l = "''Content-Length: '' @ dec n"
  have m: "MAX_LINE + 2 \<le> usize_max" by (simp add: MAX_LINE_def usize_max_def)
  have nl: "LF \<notin> set ?l" using dec_plain(2)[of n] by simp
  obtain r1 where r1: "read_line MAX_LINE r = (Done (finish_line MAX_LINE ?l), r1)" "reader_ok r1" "pending r1 = CR # LF # rest"
    by (rule read_line_crlf[OF assms(1) m assms(2) nl])
  obtain r' where r': "read_headers [(''content-length'', dec n)] r1 = (Done (Inr [(''content-length'', dec n)]), r')"
      "reader_ok r'" "pending r' = rest"
    by (rule read_headers_end[OF r1(2,3)])
  have "is_ascii ?l" using dec_plain(1)[of n] by (simp add: is_ascii_def byte_def)
  then have u: "utf8_lossy ?l = ?l" by (rule utf8_lossy_ascii)
  have k: "to_lower (trim ''Content-Length'') = ''content-length''" by code_simp
  have "read_headers [] r = read_headers [(''content-length'', dec n)] r1"
    using r1(1) assms(3) u k dec_plain(4)[of n] content_length_field[of n]
    by (subst read_headers.simps) (simp add: finish_line_def MAX_LINE_def MAX_HEADERS_def)
  then show thesis using that r' by simp
qed

lemma read_body_exact:
  assumes "reader_ok r" "pending r = content @ rest" "length content \<le> MAX_BODY"
  obtains r' where "read_request_body [(''content-length'', dec (length content))] r = (Done (Inr content), r')"
    "reader_ok r'" "pending r' = rest"
proof (cases "content = []")
  case True
  have "parse_uint (Suc usize_max) (dec 0) = Some 0" by (simp add: parse_uint_dec)
  then show thesis using that[of r] assms True by (simp add: read_request_body_def)
next
  case False
  have "length content < Suc usize_max" using assms(3) by (simp add: MAX_BODY_def usize_max_def)
  then have p: "parse_uint (Suc usize_max) (dec (length content)) = Some (length content)" by (rule parse_uint_dec)
  obtain r' where "read_exact_loop (length content) [] r = (Done (Some content), r')" "reader_ok r'" "pending r' = rest"
    using read_exact_loop_refines[OF assms(1), of "[]" "length content"] assms(2) by auto
  then show thesis
    using that[of r'] p assms(3) False by (simp add: read_request_body_def read_exact_bytes_def)
qed

section \<open>Properties\<close>



text \<open>Percent-encoding an address for a verifier is undone by the percent-decoding of the admin server, for
  every text.\<close>

theorem percent_roundtrip:
  assumes "utf8_valid s"
  shows "percent_decode (encode_path s) = Some s"
  using assms by (simp add: percent_decode_def decode_encode utf8_lossy_valid)

theorem percent_roundtrip_witness: "percent_decode (encode_path [CHR ''a'', CHR ''%'', CHR 0xC3, CHR 0xA9]) = Some [CHR ''a'', CHR ''%'', CHR 0xC3, CHR 0xA9]"
  by (rule percent_roundtrip) code_simp



end
