(* ===== verification/Access.thy ===== *)
theory Access
  imports Http Health
begin

text \<open>Access control of the administration API (the first part of src/admin/routes.rs): networks, tokens,
  dashboard sessions, login and logout. What a request finds outside - the clocks, a random token, the decoders
  of JSON bodies - is one record. A denied request is the response to send.\<close>

section \<open>The outside of a request\<close>

record login_request =
  lr_username :: str
  lr_password :: str

record site =
  si_clock :: clock
  si_later :: nat
  si_token :: str
  si_login :: "bytes \<Rightarrow> str + login_request"

definition PUBLIC_PATHS :: "str list" where
  "PUBLIC_PATHS = [''/healthz'', ''/readyz'', ''/metrics'', ''/'', ''/index.html'', ''/favicon.ico'',
     ''/api/session'', ''/api/login'', ''/api/logout'']"

definition SESSION_COOKIE :: str where "SESSION_COOKIE = ''smtp_relay_session''"
definition SESSION_MAX_AGE :: nat where "SESSION_MAX_AGE = 12 * 60 * 60"

section \<open>Who may ask\<close>

definition network_allowed :: "cidr list \<Rightarrow> request \<Rightarrow> bool" where
  "network_allowed networks rq = (networks = [] \<or> list_ex (\<lambda>n. cidr_contains n (rq_peer rq)) networks)"

definition presented_token :: "request \<Rightarrow> str option" where
  "presented_token rq =
     (case Option.bind (header_of ''authorization'' rq)
             (\<lambda>v. or_else (strip_prefix ''Bearer '' v) (strip_prefix ''bearer '' v)) of
        Some t \<Rightarrow> Some (trim t)
      | None \<Rightarrow> query_param ''token'' rq)"

text \<open>Looking for a session drops the expired ones and prolongs the one that is found.\<close>

definition session_user :: "'a site_scheme \<Rightarrow> str \<Rightarrow> app_state \<Rightarrow> str option \<times> app_state" where
  "session_user w t st =
     (let (u, s) = session_username (mono (si_clock w)) t (sessions st) in (u, st\<lparr>sessions := s\<rparr>))"

definition BEARER :: "str \<times> str" where
  "BEARER = (''WWW-Authenticate'', ''Bearer realm='' @ [DQ] @ ''smtp-relay'' @ [DQ])"

text \<open>The verdict on a request without a session and without the right token.\<close>

definition verdict_without :: "admin_config \<Rightarrow> request \<Rightarrow> response option" where
  "verdict_without a rq =
     (if login_required a then Some (with_header (fst BEARER) (snd BEARER) (error_response 401 ''sign in required''))
      else if trim (api_token a) = []
      then if is_loopback (rq_peer rq) then None
           else Some (error_response 401 ''set admin.password or admin.api_token to use the API from a remote address'')
      else Some (with_header (fst BEARER) (snd BEARER) (error_response 401 ''missing API token'')))"

definition authorize :: "'a site_scheme \<Rightarrow> request \<Rightarrow> app_state \<Rightarrow> response option \<times> app_state" where
  "authorize w rq st =
     (let a = config.admin (app_config st);
          expected = trim (api_token a);
          (user, st) = (case cookie SESSION_COOKIE rq of Some c \<Rightarrow> session_user w c st | None \<Rightarrow> (None, st))
      in if user \<noteq> None then (None, st)
         else case presented_token rq of
           Some t \<Rightarrow>
             if expected \<noteq> [] \<and> secret_eq t expected then (None, st)
             else let (user, st) = session_user w t st
                  in if user \<noteq> None then (None, st)
                     else if expected \<noteq> [] then (Some (error_response 403 ''invalid API token''), st)
                     else (verdict_without a rq, st)
         | None \<Rightarrow> (verdict_without a rq, st))"

section \<open>Dashboard login\<close>

definition session_cookie_header :: "str \<Rightarrow> str" where
  "session_cookie_header t = SESSION_COOKIE @ ''='' @ t @ ''; Path=/; HttpOnly; SameSite=Lax; Max-Age='' @ dec SESSION_MAX_AGE"

definition clear_session_cookie :: str where
  "clear_session_cookie = SESSION_COOKIE @ ''=; Path=/; HttpOnly; SameSite=Lax; Max-Age=0''"

definition session_status :: "'a site_scheme \<Rightarrow> request \<Rightarrow> app_state \<Rightarrow> response \<times> app_state" where
  "session_status w rq st =
     (let a = config.admin (app_config st);
          (user, st) = (case cookie SESSION_COOKIE rq of Some t \<Rightarrow> session_user w t st | None \<Rightarrow> (None, st))
      in (json_value 200 (JObj [(''authenticated'', JBool (user \<noteq> None)), (''login_required'', JBool (login_required a)),
            (''username'', opt_json user), (''display_username'', JStr (a_username a))]), st))"

definition lockout_message :: "nat \<Rightarrow> str" where
  "lockout_message remaining =
     (let seconds = max (remaining div secs 1) 1
      in ''too many failed logins from this IP; try again in '' @ dec ((seconds + 59) div 60) @ '' minute(s)'')"

definition credentials_ok :: "admin_config \<Rightarrow> login_request \<Rightarrow> bool" where
  "credentials_ok a p =
     (eq_ignore_case (trim (lr_username p)) (trim (a_username a)) \<and> secret_eq (trim (lr_password p)) (trim (a_password a)))"

definition login :: "'a site_scheme \<Rightarrow> request \<Rightarrow> app_state \<Rightarrow> response \<times> app_state" where
  "login w rq st =
     (let a = config.admin (app_config st); now = mono (si_clock w)
      in if \<not> login_required a
         then (error_response 400 ''dashboard login is not configured; set admin.password in the config file'', st)
         else case body_json (si_login w) rq of
           Inl e \<Rightarrow> (error_response 400 e, st)
         | Inr p \<Rightarrow>
             (case check_login now (si_later w) (rq_peer rq) (lockout st) of
                (Inl remaining, g) \<Rightarrow> (error_response 429 (lockout_message remaining), st\<lparr>lockout := g\<rparr>)
              | (Inr _, g) \<Rightarrow>
                  if \<not> credentials_ok a p
                  then (case fail_login now (si_later w) (rq_peer rq) (login_max_failures a)
                               (secs (max (login_block_seconds a) 60)) g of
                          (Some remaining, g) \<Rightarrow> (error_response 429 (lockout_message remaining), st\<lparr>lockout := g\<rparr>)
                        | (None, g) \<Rightarrow> (error_response 401 ''wrong username or password'', st\<lparr>lockout := g\<rparr>))
                  else let (t, s) = create_session now (si_token w) (a_username a) (sessions st)
                       in (with_header ''Set-Cookie'' (session_cookie_header t)
                             (json_value 200 (JObj [(''ok'', JBool True), (''username'', JStr (a_username a))])),
                           st\<lparr>lockout := login_success (rq_peer rq) g, sessions := s\<rparr>)))"

definition logout :: "request \<Rightarrow> app_state \<Rightarrow> response \<times> app_state" where
  "logout rq st =
     (with_header ''Set-Cookie'' clear_session_cookie (ok_message ''signed out''),
      (case cookie SESSION_COOKIE rq of Some t \<Rightarrow> st\<lparr>sessions := revoke_session t (sessions st)\<rparr> | None \<Rightarrow> st))"

definition should_persist :: "request \<Rightarrow> app_state \<Rightarrow> bool" where
  "should_persist rq st =
     (allow_config_write (config.admin (app_config st))
      \<and> (case query_param ''persist'' rq of Some v \<Rightarrow> v \<notin> {''0'', ''false'', ''no''} | None \<Rightarrow> True))"

section \<open>Sessions that are alive\<close>

definition alive :: "nat \<Rightarrow> str \<Rightarrow> session_store \<Rightarrow> bool" where
  "alive now t s = (case s t of Some x \<Rightarrow> now < ss_expires x | None \<Rightarrow> False)"

lemma session_username_alive: "fst (session_username now t s) \<noteq> None \<longleftrightarrow> alive now t s"
  by (simp add: session_username_def drop_expired_def alive_def Let_def split: option.splits)

lemma alive_after: "alive now t' (snd (session_username now t s)) \<longleftrightarrow> alive now t' s"
proof -
  have "0 < SESSION_TTL" by (simp add: SESSION_TTL_def secs_def)
  then show ?thesis by (auto simp: session_username_def drop_expired_def alive_def Let_def split: option.splits)
qed

lemma session_user_alive: "fst (session_user w t st) \<noteq> None \<longleftrightarrow> alive (mono (si_clock w)) t (sessions st)"
  by (simp add: session_user_def split_beta session_username_alive[symmetric])

lemma session_user_keeps:
  "alive (mono (si_clock w)) t' (sessions (snd (session_user w t st))) \<longleftrightarrow> alive (mono (si_clock w)) t' (sessions st)"
  "app_config (snd (session_user w t st)) = app_config st"
  "(snd (session_user w t st))\<lparr>sessions := s\<rparr> = st\<lparr>sessions := s\<rparr>"
  by (simp_all add: session_user_def split_beta alive_after)

text \<open>\<open>st'\<close> is \<open>st\<close> but for the dashboard sessions and the login brake.\<close>

definition same_but_logins :: "app_state \<Rightarrow> app_state \<Rightarrow> bool" where
  "same_but_logins st st' = (st' = st\<lparr>sessions := sessions st', lockout := lockout st'\<rparr>)"

lemma same_but_logins_simps [simp]:
  "same_but_logins st st" "same_but_logins st (st\<lparr>sessions := s\<rparr>)" "same_but_logins st (st\<lparr>lockout := g\<rparr>)"
  "same_but_logins st (st\<lparr>lockout := g, sessions := s\<rparr>)"
  by (simp_all add: same_but_logins_def)

lemma session_user_same [simp]: "same_but_logins st (snd (session_user w t st))"
  by (simp add: session_user_def split_beta)

lemma same_but_logins_trans: "same_but_logins a b \<Longrightarrow> same_but_logins b c \<Longrightarrow> same_but_logins a c"
  by (cases a; cases b; cases c) (simp add: same_but_logins_def)

definition granted :: "'a site_scheme \<Rightarrow> request \<Rightarrow> app_state \<Rightarrow> bool" where
  "granted w rq st =
     (let now = mono (si_clock w); a = config.admin (app_config st); expected = trim (api_token a) in
        (case cookie SESSION_COOKIE rq of Some c \<Rightarrow> alive now c (sessions st) | None \<Rightarrow> False)
      \<or> (case presented_token rq of Some t \<Rightarrow> expected \<noteq> [] \<and> t = expected \<or> alive now t (sessions st) | None \<Rightarrow> False)
      \<or> (\<not> login_required a \<and> expected = [] \<and> is_loopback (rq_peer rq)))"

lemma verdict_without_None:
  "verdict_without a rq = None \<longleftrightarrow> \<not> login_required a \<and> trim (api_token a) = [] \<and> is_loopback (rq_peer rq)"
  by (simp add: verdict_without_def)

lemma authorize_granted: "fst (authorize w rq st) = None \<longleftrightarrow> granted w rq st"
proof -
  let ?a = "config.admin (app_config st)" and ?now = "mono (si_clock w)"
  define u where "u = (case cookie SESSION_COOKIE rq of Some c \<Rightarrow> session_user w c st | None \<Rightarrow> (None, st))"
  obtain user st1 where st1: "u = (user, st1)" by (rule prod.exhaust)
  have user: "user \<noteq> None \<longleftrightarrow> (case cookie SESSION_COOKIE rq of Some c \<Rightarrow> alive ?now c (sessions st) | None \<Rightarrow> False)"
    using st1 session_user_alive[of w _ st] by (auto simp: u_def split: option.splits) (metis fst_conv option.distinct(1))+
  have al: "alive ?now t (sessions st1) \<longleftrightarrow> alive ?now t (sessions st)" for t
    using st1 session_user_keeps(1)[of w t _ st] by (auto simp: u_def split: option.splits) (metis snd_conv)+
  have t: "fst (session_user w t st1) \<noteq> None \<longleftrightarrow> alive ?now t (sessions st)" for t
    using session_user_alive[of w t st1] al by simp
  show ?thesis
    using user t st1
    by (auto simp: authorize_def granted_def Let_def u_def[symmetric] verdict_without_None secret_eq_iff split_beta split: option.splits)
qed

lemma authorize_same: "same_but_logins st (snd (authorize w rq st))"
proof -
  have 1: "same_but_logins st (snd (case cookie SESSION_COOKIE rq of Some c \<Rightarrow> session_user w c st | None \<Rightarrow> (None, st)))"
    by (simp split: option.split)
  obtain user st1 where st1: "(case cookie SESSION_COOKIE rq of Some c \<Rightarrow> session_user w c st | None \<Rightarrow> (None, st)) = (user, st1)"
    by (rule prod.exhaust)
  then have s: "same_but_logins st st1" using 1 by simp
  have "same_but_logins st (snd (session_user w t st1))" for t
    using same_but_logins_trans[OF s session_user_same] .
  then show ?thesis using s by (auto simp: authorize_def Let_def st1 split_beta split: option.splits)
qed

lemma login_same: "same_but_logins st (snd (login w rq st))"
  by (auto simp: login_def Let_def split: sum.splits prod.splits option.splits)

lemma session_status_same: "same_but_logins st (snd (session_status w rq st))"
  by (auto simp: session_status_def Let_def split_beta split: option.splits)

lemma logout_same: "same_but_logins st (snd (logout rq st))"
  by (auto simp: logout_def split: option.splits)

section \<open>Properties\<close>


text \<open>C20. A login answers 200 exactly when a password is configured, the body is a login, the address is not
  blocked, and the trimmed name and password are the configured ones; only then is a session created, alive for
  twelve hours, and a failed login leaves every session as it was.\<close>

theorem login_exactly:
  "(let a = config.admin (app_config st); now = mono (si_clock w);
        right = (login_required a \<and> (case body_json (si_login w) rq of
            Inr p \<Rightarrow> eq_ignore_case (trim (lr_username p)) (trim (a_username a)) \<and> trim (lr_password p) = trim (a_password a)
              \<and> fst (check_login now (si_later w) (rq_peer rq) (lockout st)) = Inr ()
          | Inl e \<Rightarrow> False));
        (rs, st') = login w rq st
    in (rs_status rs = 200) = right
     \<and> sessions st' = (if right then (sessions st)(si_token w \<mapsto> \<lparr>ss_username = a_username a, ss_expires = now + SESSION_TTL\<rparr>)
                       else sessions st))"
  by (auto simp: login_def Let_def error_response_def json_value_def with_header_def respond_def credentials_ok_def secret_eq_iff
      create_session_def split: sum.splits prod.splits option.splits)

end
