(* ===== verification/Import.thy ===== *)
theory Import
  imports Headers Config
begin

text \<open>Names and bulk import of providers in the administration API (src/admin/routes.rs): the slug of an id, the
  search for a free id, and the one-line form of a provider, \<^verbatim>\<open>host:port:user:pass:ssl\<close> with an optional sender
  address, or the same with vertical bars. The counters behind an id are natural numbers: the code's
  \<^verbatim>\<open>u32\<close> would need as many providers to wrap.\<close>

section \<open>Free ids\<close>

definition slug_char :: "str \<Rightarrow> str" where
  "slug_char c = (case c of [b] \<Rightarrow> if is_alnum_byte b then [ascii_lower b] else ''_'' | _ \<Rightarrow> ''_'')"

definition trim_underscores :: "str \<Rightarrow> str" where
  "trim_underscores s = rev (dropWhile (\<lambda>c. c = CHR ''_'') (rev (dropWhile (\<lambda>c. c = CHR ''_'') s)))"

definition slug_clean :: "str \<Rightarrow> str" where
  "slug_clean s = (let cleaned = trim_underscores (concat (map slug_char (chars s))) in if cleaned = [] then ''smtp'' else cleaned)"

definition numbered :: "str \<Rightarrow> nat \<Rightarrow> str" where
  "numbered stem n = stem @ ''_'' @ dec n"

lemma dec_inj: "dec m = dec n \<Longrightarrow> m = n"
  by (drule arg_cong[of _ _ "foldl (\<lambda>a c. 10 * a + digit_val c) 0"]) (simp only: dec_value)

lemma numbered_inj [simp]: "numbered stem m = numbered stem n \<longleftrightarrow> m = n"
  unfolding numbered_def same_append_eq by (rule iffI, erule dec_inj, rule arg_cong)

text \<open>The numbered names from \<open>n\<close> on that are taken.\<close>

definition taken_from :: "str list \<Rightarrow> str \<Rightarrow> nat \<Rightarrow> str set" where
  "taken_from taken stem n = {t \<in> set taken. \<exists>m\<ge>n. t = numbered stem m}"

lemma taken_from_step:
  "taken_from taken stem n = (if numbered stem n \<in> set taken then insert (numbered stem n) (taken_from taken stem (Suc n))
     else taken_from taken stem (Suc n))"
  using Suc_le_eq le_eq_less_or_eq by (auto simp: taken_from_def)

lemma card_taken_from:
  "card (taken_from taken stem n) = card (taken_from taken stem (Suc n)) + (if numbered stem n \<in> set taken then 1 else 0)"
proof -
  have "finite (taken_from taken stem (Suc n))" "numbered stem n \<notin> taken_from taken stem (Suc n)"
    by (auto simp: taken_from_def)
  then show ?thesis by (subst taken_from_step) auto
qed

function free_id :: "str list \<Rightarrow> str \<Rightarrow> nat \<Rightarrow> str \<Rightarrow> str" where
  "free_id taken stem n i = (if i \<in> set taken then free_id taken stem (Suc n) (numbered stem n) else i)"
  by pat_completeness auto
termination
proof (relation "measure (\<lambda>(taken, stem, n, i). 2 * card (taken_from taken stem n) + (if i \<in> set taken then 1 else 0))")
  fix taken stem n i
  assume "i \<in> set (taken :: str list)"
  then show "((taken, stem, Suc n, numbered stem n), taken, stem, n, i)
      \<in> measure (\<lambda>(taken, stem, n, i). 2 * card (taken_from taken stem n) + (if i \<in> set taken then 1 else 0))"
    using card_taken_from[of taken stem n] by (simp del: dec.simps)
qed simp

declare free_id.simps [simp del]

definition unique_relay_id :: "str list \<Rightarrow> str \<Rightarrow> str \<Rightarrow> str \<times> str list" where
  "unique_relay_id taken user hst =
     (let stem = slug_clean (if trim user \<noteq> [] then user else hst); i = free_id taken stem 2 stem in (i, i # taken))"

text \<open>The search of \<^verbatim>\<open>add_smtp_detail\<close> hangs every number behind the last try.\<close>

function free_detail_id :: "str list \<Rightarrow> nat \<Rightarrow> str \<Rightarrow> str" where
  "free_detail_id ids n i = (if i \<in> set ids then free_detail_id ids (Suc n) (numbered i n) else i)"
  by pat_completeness auto
termination
proof (relation "measure (\<lambda>(ids, n, i). card {t \<in> set ids. length i \<le> length t})")
  fix ids n i
  assume i: "i \<in> set (ids :: str list)"
  let ?long = "{t \<in> set ids. length (numbered i n) \<le> length t}" and ?all = "{t \<in> set ids. length i \<le> length t}"
  have "i \<in> ?all" "i \<notin> ?long" "?long \<subseteq> ?all" using i by (auto simp: numbered_def)
  then have "?long \<subset> ?all" by blast
  then show "((ids, Suc n, numbered i n), ids, n, i) \<in> measure (\<lambda>(ids, n, i). card {t \<in> set ids. length i \<le> length t})"
    by (simp add: psubset_card_mono)
qed simp

declare free_detail_id.simps [simp del]

section \<open>A provider in a line\<close>

definition parse_tls_token :: "str \<Rightarrow> tls_mode option" where
  "parse_tls_token s =
     (let t = to_lower (trim s)
      in if t \<in> {''ssl'', ''tls'', ''smtps'', ''implicit'', ''wrapper''} then Some Tls
         else if t \<in> {''starttls'', ''start_tls'', ''587''} then Some StartTls
         else if t \<in> {''none'', ''plain'', ''false''} then Some TlsNone
         else if t \<in> {''opportunistic'', ''auto''} then Some Opportunistic
         else None)"

definition split_import_fields :: "str \<Rightarrow> str list" where
  "split_import_fields line =
     (if CHR ''|'' \<in> set line \<and> 4 \<le> length (filter (\<lambda>c. c = CHR ''|'') line)
      then map trim (split_all CHR ''|'' line) else map trim (split_all CHR '':'' line))"

definition tls_index :: "str list \<Rightarrow> nat option" where
  "tls_index parts = map_option fst (List.find (\<lambda>(i, p). parse_tls_token p \<noteq> None) (rev (enumerate 0 parts)))"

definition parse_smtp_import_line :: "str \<Rightarrow> str + relay_config" where
  "parse_smtp_import_line line =
     (let s = trim line; parts = split_import_fields s
      in if s = [] \<or> starts_with ''#'' s then Inl ''empty line''
         else if length parts < 5 then Inl ''expected host:port:user:pass:ssl  (or host|port|user|pass|ssl)''
         else case tls_index parts of
           None \<Rightarrow> Inl ''last fields must include ssl, tls, starttls or none''
         | Some t \<Rightarrow>
             if t < 4 then Inl ''need host, port, user, password and a TLS mode''
             else if parts ! 0 = [] then Inl ''host is empty''
             else case parse_uint (2 ^ 16) (parts ! 1) of
               None \<Rightarrow> Inl (''invalid port '' @ bq (parts ! 1))
             | Some p \<Rightarrow>
                 if parts ! 2 = [] then Inl ''username is empty''
                 else
                   let pw = join '':'' (take (t - 3) (drop 3 parts));
                       from = (let v = join '':'' (drop (t + 1) parts) in if v = [] then None else Some v)
                   in if pw = [] then Inl ''password is empty''
                      else Inr (sync_from_identity (default_relay\<lparr>host := parts ! 0, port := p, tls := the (parse_tls_token (parts ! t)),
                        from_address := (case from of Some f \<Rightarrow> f | None \<Rightarrow> []), from_same_as_username := (from = None),
                        r_auth := Some \<lparr>username = parts ! 2, password = pw, mechanism = None\<rparr>\<rparr>)))"

section \<open>Free ids are free\<close>

lemma free_id_fresh: "free_id taken stem n i \<notin> set taken"
proof (induction taken stem n i rule: free_id.induct)
  case (1 taken stem n i)
  then show ?case by (subst free_id.simps) auto
qed

lemma free_detail_id_fresh: "free_detail_id ids n i \<notin> set ids"
proof (induction ids n i rule: free_detail_id.induct)
  case (1 ids n i)
  then show ?case by (subst free_detail_id.simps) auto
qed

lemma unique_relay_id_fresh: "unique_relay_id taken user hst = (i, taken') \<Longrightarrow> i \<notin> set taken \<and> taken' = i # taken"
  by (auto simp: unique_relay_id_def Let_def free_id_fresh)

section \<open>Lines that parse\<close>

lemma split_all_nonempty: "split_all c s \<noteq> []"
  by (induction s) (auto split: list.split)

lemma split_all_front: "c \<notin> set a \<Longrightarrow> split_all c (a @ s) = (case split_all c s of p # ps \<Rightarrow> (a @ p) # ps | [] \<Rightarrow> [a])"
  using split_all_nonempty[of c s] by (induction a) (auto split: list.splits)

lemma split_all_field: "c \<notin> set a \<Longrightarrow> split_all c (a @ c # s) = a # split_all c s"
  by (simp add: split_all_front)

lemma split_all_last: "c \<notin> set a \<Longrightarrow> split_all c a = [a]"
  using split_all_front[of c a "[]"] by simp

lemma split_all_append: "c \<notin> set t \<Longrightarrow> split_all c (s @ c # t) = split_all c s @ [t]"
proof (induction s)
  case Nil
  then show ?case by (simp add: split_all_last)
next
  case (Cons x s)
  then show ?case using split_all_nonempty[of c s] by (auto split: list.splits)
qed

lemma join_split_all: "join [c] (split_all c s) = s"
proof (induction s)
  case (Cons x s)
  obtain p ps where p: "split_all c s = p # ps" using split_all_nonempty[of c s] by (cases "split_all c s") auto
  show ?case using Cons.IH by (auto simp: p join_Cons)
qed simp

lemma split_all_parts: "p \<in> set (split_all c s) \<Longrightarrow> set p \<subseteq> set s"
proof (induction s arbitrary: p)
  case (Cons x s)
  obtain q qs where q: "split_all c s = q # qs" using split_all_nonempty[of c s] by (cases "split_all c s") auto
  then have "set r \<subseteq> set s" if "r = q \<or> r \<in> set qs" for r using Cons.IH[of r] that by auto
  then show ?case using Cons.prems q by (auto split: if_splits) (metis in_mono)+
qed simp

text \<open>Printable ASCII without blanks.\<close>

definition graphic :: "str \<Rightarrow> bool" where
  "graphic s = list_all (\<lambda>c. 33 \<le> byte c \<and> byte c \<le> 126) s"

lemma trim_graphic: "graphic s \<Longrightarrow> trim s = s"
proof (cases "s = []")
  case True
  have "trim [] = []" by code_simp
  then show ?thesis using True by simp
next
  case False
  assume g: "graphic s"
  then have "is_ascii s" by (auto simp: graphic_def is_ascii_def list_all_iff)
  moreover have "33 \<le> byte (hd s)" "33 \<le> byte (last s)"
    using g hd_in_set[OF False] last_in_set[OF False] by (simp_all add: graphic_def list_all_iff)
  then have "\<not> is_ws [hd s]" "\<not> is_ws [last s]" by (auto simp: is_ws_byte_iff)
  ultimately show ?thesis using False by (intro trim_ascii_id) auto
qed

definition import_line :: "str \<Rightarrow> nat \<Rightarrow> str \<Rightarrow> str \<Rightarrow> str \<Rightarrow> str" where
  "import_line h p u pw t = h @ '':'' @ dec p @ '':'' @ u @ '':'' @ pw @ '':'' @ t"

lemma graphic_dec: "graphic (dec p)" "CHR '':'' \<notin> set (dec p)" "CHR ''|'' \<notin> set (dec p)"
proof -
  have d: "\<forall>c\<in>set (dec p). is_digit_byte c" using dec_digits[of p] by (simp add: list_all_iff)
  have "\<not> is_digit_byte CHR '':''" "\<not> is_digit_byte CHR ''|''" by (simp_all add: is_digit_byte_def byte_def)
  then show "CHR '':'' \<notin> set (dec p)" "CHR ''|'' \<notin> set (dec p)" using d by metis+
  have "is_digit_byte c \<Longrightarrow> 33 \<le> byte c \<and> byte c \<le> 126" for c by (simp add: is_digit_byte_def)
  then show "graphic (dec p)" using d by (simp add: graphic_def list_all_iff)
qed

lemma tls_token_field:
  assumes "parse_tls_token t \<noteq> None" "graphic t"
  shows "CHR '':'' \<notin> set t" "CHR ''|'' \<notin> set t" "t \<noteq> []"
proof -
  have "to_lower t \<in> {''ssl'', ''tls'', ''smtps'', ''implicit'', ''wrapper'', ''starttls'', ''start_tls'', ''587'', ''none'', ''plain'',
      ''false'', ''opportunistic'', ''auto''}"
    using assms by (auto simp: parse_tls_token_def trim_graphic Let_def split: if_splits)
  then have n: "CHR '':'' \<notin> set (to_lower t)" "CHR ''|'' \<notin> set (to_lower t)" "to_lower t \<noteq> []" by (elim insertE emptyE; simp)+
  have "ascii_lower CHR '':'' = CHR '':''" "ascii_lower CHR ''|'' = CHR ''|''" by code_simp+
  then show "CHR '':'' \<notin> set t" "CHR ''|'' \<notin> set t" "t \<noteq> []" using n by (force simp: to_lower_def image_iff, force simp: to_lower_def image_iff, auto simp: to_lower_def)
qed

lemma tls_index_last: "parse_tls_token t \<noteq> None \<Longrightarrow> tls_index (ps @ [t]) = Some (length ps)"
  by (auto simp: tls_index_def enumerate_append_eq)

section \<open>Properties\<close>

text \<open>A provider written in a line is read back: host, port, user, password - colons in it included - and
  the TLS mode, in any of its spellings; the sender address is then the user name.\<close>

theorem import_line_roundtrip:
  assumes "graphic h" "h \<noteq> []" "\<not> starts_with ''#'' h" "CHR '':'' \<notin> set h" "CHR ''|'' \<notin> set h" "p < 2 ^ 16"
    and "graphic u" "u \<noteq> []" "CHR '':'' \<notin> set u" "CHR ''|'' \<notin> set u"
    and "graphic pw" "pw \<noteq> []" "CHR ''|'' \<notin> set pw" "graphic t" "parse_tls_token t = Some m"
  shows "parse_smtp_import_line (import_line h p u pw t) = Inr (sync_from_identity (default_relay\<lparr>host := h, port := p, tls := m,
     from_address := [], from_same_as_username := True,
     r_auth := Some \<lparr>username = u, password = pw, mechanism = None\<rparr>\<rparr>))"
proof -
  let ?l = "import_line h p u pw t" and ?pws = "split_all CHR '':'' pw"
  have t: "CHR '':'' \<notin> set t" "CHR ''|'' \<notin> set t" using tls_token_field[of t] assms(14,15) by simp_all
  have g: "graphic ?l" using assms(1,7,11,14) graphic_dec(1)[of p] by (simp add: import_line_def graphic_def byte_def)
  have bar: "CHR ''|'' \<notin> set ?l" using assms(5,10,13) t(2) graphic_dec(3)[of p] by (simp add: import_line_def)
  have "split_all CHR '':'' ?l = h # dec p # u # ?pws @ [t]"
    using assms(4,9) t(1) graphic_dec(2)[of p] by (simp add: import_line_def split_all_field split_all_append)
  moreover have "map trim ?pws = ?pws"
    using split_all_parts[of _ "CHR '':''" pw] assms(11) by (intro map_idI trim_graphic) (auto simp: graphic_def list_all_iff)
  ultimately have parts: "split_import_fields ?l = h # dec p # u # ?pws @ [t]"
    using bar assms(1,7,14) graphic_dec(1)[of p] by (simp add: split_import_fields_def trim_graphic)
  obtain n where n: "length ?pws = Suc n" using split_all_nonempty[of "CHR '':''" pw] by (cases ?pws) auto
  have i: "tls_index (h # dec p # u # ?pws @ [t]) = Some (Suc n + 3)"
    using tls_index_last[of t "h # dec p # u # ?pws"] assms(15) n by simp
  have ne: "?l \<noteq> []" "\<not> starts_with ''#'' ?l"
    using assms(2,3) by (cases h; simp add: import_line_def starts_with_def)+
  have at: "(h # dec p # u # ?pws @ [t]) ! (Suc n + 3) = t" "take (Suc n) (?pws @ [t]) = ?pws"
    using n by (simp_all add: nth_append)
  show ?thesis
    using ne i at n assms(2,8,12,15) join_split_all[of "CHR '':''" pw] parse_uint_dec[OF assms(6)]
    by (simp add: parse_smtp_import_line_def trim_graphic[OF g] parts Let_def)
qed

theorem import_line_roundtrip_witness:
  "parse_smtp_import_line (import_line ''mx.io'' 465 ''bot'' ''p:w'' ''SSL'') = Inr (sync_from_identity (default_relay\<lparr>host := ''mx.io'',
     port := 465, tls := Tls, from_address := [], from_same_as_username := True,
     r_auth := Some \<lparr>username = ''bot'', password = ''p:w'', mechanism = None\<rparr>\<rparr>))"
proof -
  have g: "graphic ''mx.io''" "graphic ''bot''" "graphic ''p:w''" "graphic ''SSL''" by (simp_all add: graphic_def byte_def)
  have t: "parse_tls_token ''SSL'' = Some Tls" by code_simp
  show ?thesis using g t by (intro import_line_roundtrip) (simp_all add: starts_with_def)
qed

end
