(* ===== verification/RelayApi.thy ===== *)
theory RelayApi
  imports Access Import
begin

text \<open>The provider endpoints of the administration API (src/admin/routes.rs): listing, switching on and off,
  resetting, testing, adding, importing, changing and removing relays. A handler returns its response and the
  state after it; the answers of connection tests and the upstream are arguments, as are the decoders of the
  bodies. One clock serves a whole request.\<close>

section \<open>The outside of a relay request\<close>

record bulk_request =
  br_action :: str
  br_ids :: "str list"

record test_request =
  tq_to :: str
  tq_subject :: "str option"
  tq_body :: "str option"

record add_relay_body =
  ab_relay :: relay_config
  ab_clone_from :: "str option"
  ab_skip_test :: bool

record import_relays_body =
  ib_text :: str
  ib_skip_test :: bool

record update_relay_body =
  ub_relay :: relay_config
  ub_skip_test :: bool

text \<open>\<open>si_connect\<close> is the answer of a connection test of a provider and \<open>si_took\<close> its milliseconds; \<open>si_save\<close> is the
  error of writing a configuration file, if any.\<close>

record ('addr, 'env) relay_site = site +
  si_wall :: int
  si_transport :: "relay_config \<Rightarrow> nat \<Rightarrow> str option"
  si_save :: "config \<Rightarrow> str option"
  si_connect :: "relay_config \<Rightarrow> smtp_error + bool"
  si_took :: nat
  si_probe :: probe_world
  si_parse :: "str \<Rightarrow> str + 'addr"
  si_envelope :: "'addr option \<Rightarrow> 'addr list \<Rightarrow> str + 'env"
  si_upstream :: "str \<Rightarrow> 'env \<Rightarrow> bytes \<Rightarrow> smtp_error + nat \<times> str list"
  si_queue_id :: str
  si_date :: str
  si_b64e :: "bytes \<Rightarrow> str"
  si_snapshot :: "relay_snapshot \<Rightarrow> json"
  si_bulk :: "bytes \<Rightarrow> str + bulk_request"
  si_test :: "bytes \<Rightarrow> str + test_request"
  si_add :: "bytes \<Rightarrow> str + add_relay_body"
  si_import :: "bytes \<Rightarrow> str + import_relays_body"
  si_update :: "bytes \<Rightarrow> str + update_relay_body"

definition VERSION :: str where "VERSION = ''1.0.0''"

definition no_relay :: "str \<Rightarrow> response" where
  "no_relay i = error_response 404 (''no relay with id '' @ bq i)"

definition strs_json :: "str list \<Rightarrow> json" where
  "strs_json ss = JArr (map JStr ss)"

definition int_json :: "nat \<Rightarrow> json" where
  "int_json n = JInt (int n)"

section \<open>Looking\<close>

definition list_relays :: "('a, 'e, 'x) relay_site_scheme \<Rightarrow> app_state \<Rightarrow> response \<times> app_state" where
  "list_relays w st =
     (let p = app_pool st; (n, p) = eligible_count (si_clock w) p; (ss, p) = pool_snapshot (si_clock w) p
      in (json_value 200 (JObj [(''strategy'', JStr (strategy_str (strategy (pool.routing p)))),
            (''total'', int_json (length (relays p))), (''active'', int_json (active_count p)), (''eligible'', int_json n),
            (''relays'', JArr (map (si_snapshot w) ss))]), st\<lparr>app_pool := p\<rparr>))"

definition show_relay :: "('a, 'e, 'x) relay_site_scheme \<Rightarrow> f64 \<Rightarrow> nat \<Rightarrow> app_state \<Rightarrow> relay_snapshot \<times> app_state" where
  "show_relay w percent n st =
     (let (s, r) = snapshot (si_clock w) percent (relays (app_pool st) ! n) in (s, st\<lparr>app_pool := update_at n r (app_pool st)\<rparr>))"

definition relay_at :: "str \<Rightarrow> app_state \<Rightarrow> nat option" where
  "relay_at i st = (case Pool.position_of (app_pool st) i of
     Some n \<Rightarrow> if n < length (relays (app_pool st)) then Some n else None | None \<Rightarrow> None)"

definition get_relay :: "('a, 'e, 'x) relay_site_scheme \<Rightarrow> str \<Rightarrow> app_state \<Rightarrow> response \<times> app_state" where
  "get_relay w i st =
     (case relay_at i st of
        None \<Rightarrow> (no_relay i, st)
      | Some n \<Rightarrow>
          let percent = (case map_of (rev (weight_percentages (app_pool st))) i of Some p \<Rightarrow> p | None \<Rightarrow> Fin 0);
              (s, st) = show_relay w percent n st
          in (json_value 200 (si_snapshot w s), st))"

section \<open>Switching\<close>

definition publish_activation :: "('a, 'e, 'x) relay_site_scheme \<Rightarrow> str list \<Rightarrow> bool \<Rightarrow> app_state \<Rightarrow> app_state" where
  "publish_activation w changed on st =
     (if changed = [] then st
      else announce (si_wall w) EvRelay
        [(''action'', JStr (if on then ''activated'' else ''deactivated'')), (''ids'', strs_json changed)] st)"

definition activation_response ::
  "('a, 'e, 'x) relay_site_scheme \<Rightarrow> str list \<Rightarrow> bool \<Rightarrow> app_state \<Rightarrow> response \<times> app_state" where
  "activation_response w changed persisted st =
     (let p = app_pool st; (n, p) = eligible_count (si_clock w) p; (ss, p) = pool_snapshot (si_clock w) p
      in (json_value 200 (JObj [(''ok'', JBool True), (''changed'', strs_json changed), (''persisted'', JBool persisted),
            (''active'', int_json (active_count p)), (''eligible'', int_json n), (''total'', int_json (length (relays p))),
            (''relays'', JArr (map (si_snapshot w) ss))]), st\<lparr>app_pool := p\<rparr>))"

definition finish_activation ::
  "('a, 'e, 'x) relay_site_scheme \<Rightarrow> request \<Rightarrow> str list \<Rightarrow> bool \<Rightarrow> app_state \<Rightarrow> response \<times> app_state" where
  "finish_activation w rq changed on st =
     (let (persisted, st) =
            (if changed \<noteq> [] \<and> should_persist rq st
             then let (err, st) = persist_activation (si_save w) (map (\<lambda>i. (i, on)) changed) st in (err = None, st)
             else (False, st))
      in activation_response w changed persisted (publish_activation w changed on st))"

definition bulk_activation :: "('a, 'e, 'x) relay_site_scheme \<Rightarrow> request \<Rightarrow> bool \<Rightarrow> app_state \<Rightarrow> response \<times> app_state" where
  "bulk_activation w rq on st =
     (let (changed, p) = set_all on (app_pool st) in finish_activation w rq changed on (st\<lparr>app_pool := p\<rparr>))"

text \<open>The bulk request changes the relays before it looks at the unknown ids.\<close>

definition bulk :: "('a, 'e, 'x) relay_site_scheme \<Rightarrow> request \<Rightarrow> app_state \<Rightarrow> response \<times> app_state" where
  "bulk w rq st =
     (case body_json (si_bulk w) rq of
        Inl e \<Rightarrow> (error_response 400 e, st)
      | Inr b \<Rightarrow>
          let action = to_lower (br_action b); only = (action = ''exclusive'' \<or> action = ''only'')
          in if action \<noteq> ''activate'' \<and> action \<noteq> ''deactivate'' \<and> \<not> only
             then (error_response 400 (''unknown action '' @ bq action @ '' (use activate, deactivate or exclusive)''), st)
             else
               let ((changed, unknown), p) =
                     (if only then set_exclusive (br_ids b) (app_pool st)
                      else set_many (br_ids b) (action = ''activate'') (app_pool st));
                   st = st\<lparr>app_pool := p\<rparr>
               in if unknown \<noteq> [] then (error_response 404 (''unknown relay id(s): '' @ join '', '' unknown), st)
                  else if only
                  then let (persisted, st) =
                             (if should_persist rq st
                              then let (err, st) = persist_activation (si_save w) (map (\<lambda>r. (id_of r, active r)) (relays p)) st
                                   in (err = None, st)
                              else (False, st))
                       in activation_response w changed persisted (publish_activation w changed True st)
                  else finish_activation w rq changed (action = ''activate'') st)"

definition set_activation ::
  "('a, 'e, 'x) relay_site_scheme \<Rightarrow> request \<Rightarrow> str \<Rightarrow> bool option \<Rightarrow> app_state \<Rightarrow> response \<times> app_state" where
  "set_activation w rq i wanted st =
     (case relay_at i st of
        None \<Rightarrow> (no_relay i, st)
      | Some n \<Rightarrow>
          let r = relays (app_pool st) ! n;
              target = (case wanted of Some a \<Rightarrow> a | None \<Rightarrow> \<not> active r);
              (changed, r) = set_active target r
          in finish_activation w rq (if changed then [i] else []) target (st\<lparr>app_pool := update_at n r (app_pool st)\<rparr>))"

section \<open>Resetting and testing\<close>

definition reset_relay_stats :: "str \<Rightarrow> app_state \<Rightarrow> response \<times> app_state" where
  "reset_relay_stats i st =
     (case relay_at i st of
        None \<Rightarrow> (no_relay i, st)
      | Some n \<Rightarrow> (ok_message (''statistics for '' @ bq i @ '' were reset''), on_relay n reset_stats st))"

definition reset_all_stats :: "app_state \<Rightarrow> response \<times> app_state" where
  "reset_all_stats st =
     (let p = app_pool st
      in (ok_message (''statistics for '' @ dec (length (relays p)) @ '' relay(s) were reset''),
          st\<lparr>app_pool := p\<lparr>relays := map reset_stats (relays p)\<rparr>\<rparr>))"

definition reset_breaker :: "('a, 'e, 'x) relay_site_scheme \<Rightarrow> str \<Rightarrow> app_state \<Rightarrow> response \<times> app_state" where
  "reset_breaker w i st =
     (case relay_at i st of
        None \<Rightarrow> (no_relay i, st)
      | Some n \<Rightarrow>
          let st = announce (si_wall w) EvRelay [(''id'', JStr i), (''action'', JStr ''circuit_reset'')] (on_relay n reset_circuit st);
              (s, st) = show_relay w (Fin 0) n st
          in (json_value 200 (si_snapshot w s), st))"

definition nat_opt_json :: "nat option \<Rightarrow> json" where
  "nat_opt_json x = (case x of Some n \<Rightarrow> int_json n | None \<Rightarrow> JNull)"

definition probe_relay :: "('a, 'e, 'x) relay_site_scheme \<Rightarrow> str \<Rightarrow> app_state \<Rightarrow> response \<times> app_state" where
  "probe_relay w i st =
     (case relay_at i st of
        None \<Rightarrow> (no_relay i, st)
      | Some n \<Rightarrow>
          let (result, st) = probe (si_probe w) n st; (s, st) = show_relay w (Fin 0) n st
          in (json_value 200 (JObj [(''ok'', JBool (pr_ok result)), (''relay'', JStr (pr_relay_id result)),
                (''latency_ms'', nat_opt_json (pr_latency_ms result)), (''error'', opt_json (pr_error result)),
                (''state'', si_snapshot w s)]), st))"

definition test_body :: "('a, 'e, 'x) relay_site_scheme \<Rightarrow> str \<Rightarrow> str \<Rightarrow> relay_config \<Rightarrow> str" where
  "test_body w i hn cfg =
     ''This is a test message sent through the '' @ bq i @ '' relay by smtp-relay '' @ VERSION @ '' on '' @ hn @ ''.'' @ CRLF
     @ CRLF @ ''Envelope sender: '' @ test_from_address cfg @ CRLF @ ''Relay endpoint:  '' @ endpoint cfg @ CRLF"

text \<open>The delivery slot is held while the test message is on its way; no quota is reserved for it.\<close>

definition send_test :: "('a, 'e, 'x) relay_site_scheme \<Rightarrow> request \<Rightarrow> str \<Rightarrow> app_state \<Rightarrow> response \<times> app_state" where
  "send_test w rq i st =
     (case body_json (si_test w) rq of
        Inl e \<Rightarrow> (error_response 400 e, st)
      | Inr q \<Rightarrow>
          if \<not> looks_like_email (tq_to q) then (error_response 400 (bq (tq_to q) @ '' is not a valid address''), st)
          else (case relay_at i st of
            None \<Rightarrow> (no_relay i, st)
          | Some n \<Rightarrow>
              let r = relays (app_pool st) ! n; cfg = rcfg r; hn = hostname (config.server (app_config st));
                  h = config.health (app_config st);
                  subject = (case tq_subject q of Some s \<Rightarrow> s | None \<Rightarrow> ''smtp-relay test via '' @ i);
                  text = (case tq_body q of Some b \<Rightarrow> b | None \<Rightarrow> test_body w i hn cfg);
                  bs = build_test_message (si_b64e w) (si_date w) cfg hn (tq_to q) subject text (si_queue_id w);
                  r = begin_delivery r
              in (case deliver (si_parse w) (si_envelope w) (si_upstream w i) (test_from_address cfg) [tq_to q] bs of
                   Inr answer \<Rightarrow>
                     (json_value 200 (JObj [(''ok'', JBool True), (''relay'', JStr i), (''to'', JStr (tq_to q)),
                        (''id'', JStr (si_queue_id w)), (''latency_ms'', int_json (si_took w)), (''response'', JStr answer)]),
                      st\<lparr>app_pool := update_at n (drop_guard (record_delivery (si_clock w) (length bs) (si_took w) h r)) (app_pool st)\<rparr>)
                 | Inl e \<Rightarrow>
                     let r = (if should_retry e then snd (record_deferral (si_clock w) (Delivery.message e) h r)
                              else record_permanent_failure (si_clock w) (Delivery.message e) r)
                     in (json_value 502 (JObj [(''ok'', JBool False), (''relay'', JStr i), (''to'', JStr (tq_to q)),
                           (''error'', JStr (Delivery.message e)), (''status_code'', nat_opt_json (status_code e)),
                           (''kind'', JStr (failure_kind_str (kind e))), (''retryable'', JBool (should_retry e))]),
                         st\<lparr>app_pool := update_at n (drop_guard r) (app_pool st)\<rparr>))))"

section \<open>Adding, changing, removing\<close>

definition verify_smtp :: "('a, 'e, 'x) relay_site_scheme \<Rightarrow> app_state \<Rightarrow> relay_config \<Rightarrow> response + nat" where
  "verify_smtp w st cfg =
     (case (case si_transport w cfg (sc_timeout_seconds (config.server (app_config st))) of
              Some e \<Rightarrow> Some (permanent e) | None \<Rightarrow> probe_transport (si_connect w cfg)) of
        None \<Rightarrow> Inr (si_took w)
      | Some e \<Rightarrow> Inl (error_response 422 (''SMTP test failed for '' @ host cfg @ '':'' @ dec (port cfg) @ '' ('' @ tls_mode_str (tls cfg)
          @ '') '' @ [CHR 0xE2, CHR 0x80, CHR 0x94] @ '' '' @ error_str e @ ''. Provider was not saved.'')))"

definition apply_clone_password :: "config \<Rightarrow> str \<Rightarrow> relay_config \<Rightarrow> relay_config" where
  "apply_clone_password c source_id r =
     (let blank = (case r_auth r of Some a \<Rightarrow> password a = [] \<or> password a = REDACTED | None \<Rightarrow> True)
      in if \<not> blank then r
         else case Option.bind (relay source_id c) r_auth of
           None \<Rightarrow> r
         | Some sa \<Rightarrow>
             (case r_auth r of
                Some a \<Rightarrow> r\<lparr>r_auth := Some (a\<lparr>username := (if username a = [] then username sa else username a), password := password sa\<rparr>)\<rparr>
              | None \<Rightarrow> r\<lparr>r_auth := Some sa\<rparr>))"

definition drop_blank_detail :: "relay_config \<Rightarrow> relay_config" where
  "drop_blank_detail r =
     (case smtp_detail_id r of Some d \<Rightarrow> if trim d = [] then r\<lparr>smtp_detail_id := None\<rparr> else r | None \<Rightarrow> r)"

definition edited ::
  "('a, 'e, 'x) relay_site_scheme \<Rightarrow> request \<Rightarrow> (config \<Rightarrow> config) \<Rightarrow> app_state \<Rightarrow> (str + config_change) \<times> app_state" where
  "edited w rq change st = edit_config (si_transport w) (si_wall w) (si_save w) (should_persist rq st) change st"

definition add_relay :: "('a, 'e, 'x) relay_site_scheme \<Rightarrow> request \<Rightarrow> app_state \<Rightarrow> response \<times> app_state" where
  "add_relay w rq st =
     (case body_json (si_add w) rq of
        Inl e \<Rightarrow> (error_response 400 e, st)
      | Inr b \<Rightarrow>
          let r = (case ab_clone_from b of Some s \<Rightarrow> apply_clone_password (app_config st) s (ab_relay b) | None \<Rightarrow> ab_relay b);
              r = sync_from_identity (drop_blank_detail r)
          in if index (app_pool st) (r_id r) \<noteq> None
             then (error_response 409 (''a relay with id '' @ bq (r_id r) @ '' already exists''), st)
             else case (if ab_skip_test b then Inr 0 else verify_smtp w st r) of
               Inl rs \<Rightarrow> (rs, st)
             | Inr ms \<Rightarrow>
                 (case edited w rq (\<lambda>c. c\<lparr>config.relays := config.relays c @ [r]\<rparr>) st of
                    (Inl e, st) \<Rightarrow> (error_response 422 e, st)
                  | (Inr _, st) \<Rightarrow> list_relays w (announce (si_wall w) EvRelay
                      [(''action'', JStr ''added''), (''id'', JStr (r_id r)), (''probe_ms'', int_json ms)] st)))"

text \<open>The import: the accepted providers, and for every refused line its number, its text and the reason.\<close>

definition error_of :: "response \<Rightarrow> str" where
  "error_of rs =
     (case rs_content rs of
        Json (JObj fs) \<Rightarrow> (case map_of fs ''error'' of Some (JStr s) \<Rightarrow> s | _ \<Rightarrow> ''SMTP test failed'')
      | _ \<Rightarrow> ''SMTP test failed'')"

definition failed_line :: "nat \<Rightarrow> str \<Rightarrow> str \<Rightarrow> json" where
  "failed_line n line e = JObj [(''line'', int_json n), (''text'', JStr line), (''error'', JStr e)]"

fun import_lines ::
  "(relay_config \<Rightarrow> response + nat) \<Rightarrow> (nat \<times> str) list \<Rightarrow> str list \<Rightarrow> relay_config list \<times> json list" where
  "import_lines verify [] taken = ([], [])"
| "import_lines verify ((n, txt) # ls) taken =
     (let line = trim txt
      in if line = [] \<or> starts_with ''#'' line then import_lines verify ls taken
         else case parse_smtp_import_line line of
           Inl e \<Rightarrow> (let (acc, bad) = import_lines verify ls taken in (acc, failed_line (n + 1) line e # bad))
         | Inr r \<Rightarrow>
             let (i, taken) = unique_relay_id taken (case r_auth r of Some a \<Rightarrow> username a | None \<Rightarrow> []) (host r);
                 r = r\<lparr>r_id := i\<rparr>; (acc, bad) = import_lines verify ls taken
             in (case verify r of
                   Inr _ \<Rightarrow> (r # acc, bad)
                 | Inl rs \<Rightarrow> (acc, failed_line (n + 1) line (error_of rs) # bad)))"

definition announce_added :: "('a, 'e, 'x) relay_site_scheme \<Rightarrow> str list \<Rightarrow> app_state \<Rightarrow> app_state" where
  "announce_added w is st = fold (\<lambda>i. announce (si_wall w) EvRelay [(''action'', JStr ''added''), (''id'', JStr i)]) is st"

definition import_response :: "str list \<Rightarrow> json list \<Rightarrow> response" where
  "import_response added bad = json_value 200 (JObj [(''ok'', JBool (bad = [])), (''added'', strs_json added), (''failed'', JArr bad),
     (''added_count'', int_json (length added)), (''failed_count'', int_json (length bad))])"

definition import_relays :: "('a, 'e, 'x) relay_site_scheme \<Rightarrow> request \<Rightarrow> app_state \<Rightarrow> response \<times> app_state" where
  "import_relays w rq st =
     (case body_json (si_import w) rq of
        Inl e \<Rightarrow> (error_response 400 e, st)
      | Inr b \<Rightarrow>
          let (acc, bad) = import_lines (\<lambda>r. if ib_skip_test b then Inr 0 else verify_smtp w st r)
                (enumerate 0 (split_lines (ib_text b))) (map r_id (config.relays (app_config st)));
              added = map r_id acc
          in if acc = [] \<and> bad = [] then (error_response 400 ''no SMTP lines to import'', st)
             else if acc = [] then (import_response added bad, st)
             else case edited w rq (\<lambda>c. c\<lparr>config.relays := config.relays c @ acc\<rparr>) st of
               (Inl e, st) \<Rightarrow> (error_response 422 e, st)
             | (Inr _, st) \<Rightarrow> (import_response added bad, announce_added w added st))"

definition keep_stored_password :: "config \<Rightarrow> str \<Rightarrow> relay_config \<Rightarrow> relay_config" where
  "keep_stored_password c i r =
     (case r_auth r of
        Some a \<Rightarrow>
          if password a = REDACTED
          then case Option.bind (relay i c) r_auth of
                 Some old \<Rightarrow> r\<lparr>r_auth := Some (a\<lparr>password := password old\<rparr>)\<rparr> | None \<Rightarrow> r
          else r
      | None \<Rightarrow> r)"

definition keep_hidden_fields :: "config \<Rightarrow> str \<Rightarrow> relay_config \<Rightarrow> relay_config" where
  "keep_hidden_fields c i r =
     (case relay i c of
        None \<Rightarrow> r
      | Some old \<Rightarrow> r\<lparr>priority := priority old, max_concurrent := max_concurrent old, r_timeout_seconds := r_timeout_seconds old,
          helo_name := helo_name old, tags := tags old, r_auth := (if r_auth r = None then r_auth old else r_auth r)\<rparr>)"

definition update_relay :: "('a, 'e, 'x) relay_site_scheme \<Rightarrow> request \<Rightarrow> str \<Rightarrow> app_state \<Rightarrow> response \<times> app_state" where
  "update_relay w rq i st =
     (case body_json (si_update w) rq of
        Inl e \<Rightarrow> (error_response 400 e, st)
      | Inr b \<Rightarrow>
          if index (app_pool st) i = None then (no_relay i, st)
          else
            let c = app_config st;
                r = keep_hidden_fields c i (keep_stored_password c i ((ub_relay b)\<lparr>r_id := i\<rparr>));
                r = sync_from_identity (drop_blank_detail r)
            in case (if ub_skip_test b then Inr 0 else verify_smtp w st r) of
                 Inl rs \<Rightarrow> (rs, st)
               | Inr _ \<Rightarrow>
                   (case edited w rq (\<lambda>c. c\<lparr>config.relays := update_first (\<lambda>x. r_id x = i) (\<lambda>_. r) (config.relays c)\<rparr>) st of
                      (Inl e, st) \<Rightarrow> (error_response 422 e, st)
                    | (Inr _, st) \<Rightarrow>
                        get_relay w i (announce (si_wall w) EvRelay [(''action'', JStr ''updated''), (''id'', JStr i)] st)))"

definition delete_relay :: "('a, 'e, 'x) relay_site_scheme \<Rightarrow> request \<Rightarrow> str \<Rightarrow> app_state \<Rightarrow> response \<times> app_state" where
  "delete_relay w rq i st =
     (if index (app_pool st) i = None then (no_relay i, st)
      else case edited w rq (\<lambda>c. c\<lparr>config.relays := filter (\<lambda>r. r_id r \<noteq> i) (config.relays c)\<rparr>) st of
        (Inl e, st) \<Rightarrow> (error_response 422 e, st)
      | (Inr _, st) \<Rightarrow> list_relays w (announce (si_wall w) EvRelay [(''action'', JStr ''removed''), (''id'', JStr i)] st))"

end
