(* ===== verification/SettingsApi.thy ===== *)
theory SettingsApi
  imports RelayApi
begin

text \<open>The settings endpoints of the administration API (src/admin/routes.rs): inbound accounts, routing, the
  configuration document, content rotation, recipient validation and the inbound dump. Every change goes
  through \<open>edit_config\<close> or \<open>apply_config\<close>. The JSON forms that the serialisation library derives for whole
  structures are arguments.\<close>

section \<open>The outside of a settings request\<close>

record detail_payload =
  dp_id :: "str option"
  dp_label :: str
  dp_hostname :: str
  dp_username :: str
  dp_password :: str

record routing_update =
  ru_strategy :: "str option"
  ru_sticky :: "str option"
  ru_fallback_on_failure :: "bool option"
  ru_max_attempts :: "nat option"

record yahoo_test_body =
  yt_email :: str
  yt_id :: str
  yt_url :: str
  yt_method :: str
  yt_api_key :: str

record ('addr, 'env) settings_site = "('addr, 'env) relay_site" +
  si_path :: str
  si_loaded :: "str + config"
  si_f64 :: "f64 \<Rightarrow> json"
  si_config_json :: "config \<Rightarrow> json"
  si_yaml :: "config \<Rightarrow> str + str"
  si_overrides :: "domain_override list \<Rightarrow> json"
  si_templates :: "content_template list \<Rightarrow> json"
  si_servers :: "validation_server list \<Rightarrow> json"
  si_yahoo_json :: "yahoo_config \<Rightarrow> json"
  si_value :: "bytes \<Rightarrow> str + json"
  si_config_of :: "json \<Rightarrow> str + config"
  si_detail :: "bytes \<Rightarrow> str + detail_payload"
  si_routing :: "bytes \<Rightarrow> str + routing_update"
  si_rotation :: "bytes \<Rightarrow> str + rotation_config"
  si_server :: "bytes \<Rightarrow> str + validation_server"
  si_yahoo :: "bytes \<Rightarrow> str + yahoo_test_body"
  si_validation :: "bytes \<Rightarrow> str + validation_config"
  si_code_text :: "nat \<Rightarrow> str"
  si_http :: http
  si_parse_json :: "str \<Rightarrow> json option"
  si_json_text :: "json \<Rightarrow> str"

fun sticky_str :: "sticky_mode \<Rightarrow> str" where
  "sticky_str StickyNone = ''none''"
| "sticky_str StickySender = ''sender''"
| "sticky_str StickyRecipientDomain = ''recipient_domain''"

fun policy_str :: "probe_error_policy \<Rightarrow> str" where
  "policy_str ProbeAllow = ''allow''"
| "policy_str ProbeSkip = ''skip''"

definition no_write :: response where
  "no_write = error_response 403 ''admin.allow_config_write is disabled''"

definition may_write :: "app_state \<Rightarrow> bool" where
  "may_write st = allow_config_write (config.admin (app_config st))"

section \<open>Inbound accounts\<close>

text \<open>A socket address ends in its port, so one reading of the last field covers both ways of the code.\<close>

definition parse_bind_port :: "str \<Rightarrow> nat" where
  "parse_bind_port b = (case parse_uint (2 ^ 16) (last (split_all CHR '':'' b)) of Some p \<Rightarrow> p | None \<Rightarrow> 1025)"

definition detail_json :: "server_config \<Rightarrow> smtp_detail \<Rightarrow> json" where
  "detail_json s d = JObj [(''id'', JStr (sd_id d)), (''label'', JStr (sd_label d)),
     (''hostname'', JStr (if trim (sd_hostname d) = [] then hostname s else sd_hostname d)), (''username'', JStr (sd_username d)),
     (''password'', JStr REDACTED), (''has_password'', JBool (sd_password d \<noteq> [])),
     (''port'', int_json (parse_bind_port (sc_bind_address s)))]"

definition list_smtp_details :: "app_state \<Rightarrow> response" where
  "list_smtp_details st =
     (let c = app_config st; s = config.server c
      in json_value 200 (JObj [(''smtp_port'', int_json (parse_bind_port (sc_bind_address s))),
           (''bind_address'', JStr (sc_bind_address s)), (''server_hostname'', JStr (hostname s)),
           (''details'', JArr (map (detail_json s) (config.smtp_details c)))]))"

definition announce_config :: "('a, 'e, 'x) settings_site_scheme \<Rightarrow> str \<Rightarrow> str \<Rightarrow> app_state \<Rightarrow> app_state" where
  "announce_config w action i st = announce (si_wall w) EvConfig [(''action'', JStr action), (''id'', JStr i)] st"

definition new_detail_id :: "config \<Rightarrow> detail_payload \<Rightarrow> str" where
  "new_detail_id c p =
     (let stem = (case dp_id p of
            Some i \<Rightarrow> if trim i \<noteq> [] then slug_clean i
                      else if trim (dp_label p) \<noteq> [] then slug_clean (dp_label p) else slug_clean (dp_username p)
          | None \<Rightarrow> if trim (dp_label p) \<noteq> [] then slug_clean (dp_label p) else slug_clean (dp_username p));
          stem = (if stem = [] then ''smtp'' else stem)
      in free_detail_id (map sd_id (config.smtp_details c)) 2 stem)"

definition add_smtp_detail :: "('a, 'e, 'x) settings_site_scheme \<Rightarrow> request \<Rightarrow> app_state \<Rightarrow> response \<times> app_state" where
  "add_smtp_detail w rq st =
     (case body_json (si_detail w) rq of
        Inl e \<Rightarrow> (error_response 400 e, st)
      | Inr p \<Rightarrow>
          if trim (dp_username p) = [] then (error_response 400 ''username must not be empty'', st)
          else if trim (dp_password p) = [] \<or> dp_password p = REDACTED then (error_response 400 ''password must not be empty'', st)
          else
            let c = app_config st; i = new_detail_id c p;
                d = \<lparr>sd_id = i, sd_label = trim (dp_label p),
                     sd_hostname = (if trim (dp_hostname p) = [] then hostname (config.server c) else trim (dp_hostname p)),
                     sd_username = trim (dp_username p), sd_password = trim (dp_password p)\<rparr>
            in (case edited w rq (\<lambda>c. c\<lparr>config.smtp_details := config.smtp_details c @ [d]\<rparr>) st of
                  (Inl e, st) \<Rightarrow> (error_response 422 e, st)
                | (Inr _, st) \<Rightarrow> let st = announce_config w ''smtp_detail_added'' i st in (list_smtp_details st, st)))"

definition no_detail :: "str \<Rightarrow> response" where
  "no_detail i = error_response 404 (''no SMTP details with id '' @ bq i)"

definition updated_detail :: "detail_payload \<Rightarrow> smtp_detail \<Rightarrow> str \<Rightarrow> smtp_detail" where
  "updated_detail p old i = \<lparr>sd_id = i, sd_label = trim (dp_label p),
     sd_hostname = (if trim (dp_hostname p) = [] then sd_hostname old else trim (dp_hostname p)), sd_username = trim (dp_username p),
     sd_password = (if trim (dp_password p) = [] \<or> dp_password p = REDACTED then sd_password old else trim (dp_password p))\<rparr>"

definition update_smtp_detail ::
  "('a, 'e, 'x) settings_site_scheme \<Rightarrow> request \<Rightarrow> str \<Rightarrow> app_state \<Rightarrow> response \<times> app_state" where
  "update_smtp_detail w rq i st =
     (case body_json (si_detail w) rq of
        Inl e \<Rightarrow> (error_response 400 e, st)
      | Inr p \<Rightarrow>
          if trim (dp_username p) = [] then (error_response 400 ''username must not be empty'', st)
          else (case smtp_detail_of i (app_config st) of
            None \<Rightarrow> (no_detail i, st)
          | Some old \<Rightarrow>
              (case edited w rq (\<lambda>c. c\<lparr>config.smtp_details :=
                      update_first (\<lambda>d. sd_id d = i) (\<lambda>_. updated_detail p old i) (config.smtp_details c)\<rparr>) st of
                 (Inl e, st) \<Rightarrow> (error_response 422 e, st)
               | (Inr _, st) \<Rightarrow> let st = announce_config w ''smtp_detail_updated'' i st in (list_smtp_details st, st))))"

definition without_detail :: "str \<Rightarrow> config \<Rightarrow> config" where
  "without_detail i c = c\<lparr>config.smtp_details := filter (\<lambda>d. sd_id d \<noteq> i) (config.smtp_details c),
     config.relays := map (\<lambda>r. if smtp_detail_id r = Some i then r\<lparr>smtp_detail_id := None\<rparr> else r) (config.relays c)\<rparr>"

definition delete_smtp_detail ::
  "('a, 'e, 'x) settings_site_scheme \<Rightarrow> request \<Rightarrow> str \<Rightarrow> app_state \<Rightarrow> response \<times> app_state" where
  "delete_smtp_detail w rq i st =
     (if smtp_detail_of i (app_config st) = None then (no_detail i, st)
      else case edited w rq (without_detail i) st of
        (Inl e, st) \<Rightarrow> (error_response 422 e, st)
      | (Inr _, st) \<Rightarrow> let st = announce_config w ''smtp_detail_deleted'' i st in (list_smtp_details st, st))"

section \<open>Routing\<close>

definition routing_view :: "('a, 'e, 'x) settings_site_scheme \<Rightarrow> app_state \<Rightarrow> response" where
  "routing_view w st =
     (let ro = config.routing (app_config st)
      in json_value 200 (JObj [(''strategy'', JStr (strategy_str (strategy ro))),
           (''available_strategies'', strs_json [''round_robin'', ''weighted'', ''least_used'', ''failover'']),
           (''sticky'', JStr (sticky_str (sticky ro))), (''fallback_on_failure'', JBool (fallback_on_failure ro)),
           (''max_attempts_per_message'', int_json (max_attempts_per_message ro)),
           (''domain_overrides'', si_overrides w (domain_overrides ro)),
           (''weights'', JObj (map (\<lambda>(i, f). (i, si_f64 w f)) (weight_percentages (app_pool st))))]))"

definition parse_strategy :: "str \<Rightarrow> strategy option" where
  "parse_strategy s =
     (let v = to_lower s
      in if v \<in> {''round_robin'', ''roundrobin'', ''rr''} then Some RoundRobin
         else if v \<in> {''weighted'', ''weighted_round_robin''} then Some Weighted
         else if v \<in> {''least_used'', ''least_conn''} then Some LeastUsed
         else if v \<in> {''failover'', ''priority''} then Some Failover
         else None)"

definition parse_sticky :: "str \<Rightarrow> sticky_mode option" where
  "parse_sticky s =
     (let v = to_lower s
      in if v \<in> {''none'', ''off''} then Some StickyNone
         else if v \<in> {''sender'', ''from''} then Some StickySender
         else if v \<in> {''recipient_domain'', ''domain''} then Some StickyRecipientDomain
         else None)"

definition reroute :: "strategy option \<Rightarrow> sticky_mode option \<Rightarrow> bool option \<Rightarrow> nat option \<Rightarrow> routing_config \<Rightarrow> routing_config" where
  "reroute s k f n ro = ro\<lparr>strategy := (case s of Some x \<Rightarrow> x | None \<Rightarrow> strategy ro),
     sticky := (case k of Some x \<Rightarrow> x | None \<Rightarrow> sticky ro),
     fallback_on_failure := (case f of Some x \<Rightarrow> x | None \<Rightarrow> fallback_on_failure ro),
     max_attempts_per_message := (case n of Some x \<Rightarrow> x | None \<Rightarrow> max_attempts_per_message ro)\<rparr>"

definition update_routing :: "('a, 'e, 'x) settings_site_scheme \<Rightarrow> request \<Rightarrow> app_state \<Rightarrow> response \<times> app_state" where
  "update_routing w rq st =
     (case body_json (si_routing w) rq of
        Inl e \<Rightarrow> (error_response 400 e, st)
      | Inr u \<Rightarrow>
          let s = Option.bind (ru_strategy u) parse_strategy; k = Option.bind (ru_sticky u) parse_sticky
          in if ru_strategy u \<noteq> None \<and> s = None
             then (error_response 400 (''unknown strategy '' @ bq (the (ru_strategy u))
                     @ '' (use round_robin, weighted, least_used or failover)''), st)
             else if ru_sticky u \<noteq> None \<and> k = None
             then (error_response 400 (''unknown sticky mode '' @ bq (the (ru_sticky u))
                     @ '' (use none, sender or recipient_domain)''), st)
             else (case edited w rq (\<lambda>c. c\<lparr>config.routing :=
                           reroute s k (ru_fallback_on_failure u) (ru_max_attempts u) (config.routing c)\<rparr>) st of
                     (Inl e, st) \<Rightarrow> (error_response 422 e, st)
                   | (Inr _, st) \<Rightarrow>
                       let st = announce (si_wall w) EvConfig [(''action'', JStr ''routing''),
                                  (''strategy'', JStr (strategy_str (strategy (config.routing (app_config st)))))] st
                       in (routing_view w st, st)))"

section \<open>The document\<close>

definition config_body :: "('a, 'e, 'x) settings_site_scheme \<Rightarrow> app_state \<Rightarrow> response" where
  "config_body w st =
     (let red = redacted (app_config st)
      in json_value 200 (JObj [(''path'', JStr (si_path w)), (''writable'', JBool (may_write st)), (''config'', si_config_json w red),
           (''yaml'', JStr (case si_yaml w red of Inr y \<Rightarrow> y | Inl e \<Rightarrow> ''# could not render YAML: '' @ e @ [LF]))]))"

definition applied_response :: "config_change \<Rightarrow> (str \<times> json) list" where
  "applied_response ch = [(''relays_added'', strs_json (cc_added ch)), (''relays_removed'', strs_json (cc_removed ch)),
     (''restart_required_for_queue_changes'', JBool (cc_queue_settings_changed ch))]"

definition replace_config :: "('a, 'e, 'x) settings_site_scheme \<Rightarrow> request \<Rightarrow> app_state \<Rightarrow> response \<times> app_state" where
  "replace_config w rq st =
     (if \<not> may_write st then (no_write, st)
      else case body_json (si_value w) rq of
        Inl e \<Rightarrow> (error_response 400 e, st)
      | Inr v \<Rightarrow>
          (case si_config_of w (case json_get ''config'' v of Some d \<Rightarrow> d | None \<Rightarrow> v) of
             Inl e \<Rightarrow> (error_response 422 (''invalid configuration: '' @ e), st)
           | Inr c \<Rightarrow>
               (case apply_config (si_transport w) (si_wall w) (restore_secrets_from c (app_config st)) st of
                  (Inl e, st) \<Rightarrow> (error_response 422 e, st)
                | (Inr ch, st) \<Rightarrow>
                    (case si_save w (app_config st) of
                       Some e \<Rightarrow> (error_response 500 (''configuration applied but could not be saved: '' @ e), st)
                     | None \<Rightarrow> (json_value 200 (JObj ((''ok'', JBool True) # applied_response ch)), st)))))"

definition reload_config :: "('a, 'e, 'x) settings_site_scheme \<Rightarrow> app_state \<Rightarrow> response \<times> app_state" where
  "reload_config w st =
     (case reload_from_disk (si_transport w) (si_wall w) (si_loaded w) st of
        (Inl e, st) \<Rightarrow> (error_response 422 e, st)
      | (Inr ch, st) \<Rightarrow> (json_value 200 (JObj ((''ok'', JBool True) # (''path'', JStr (si_path w)) # applied_response ch)), st))"

definition save_config :: "('a, 'e, 'x) settings_site_scheme \<Rightarrow> app_state \<Rightarrow> response" where
  "save_config w st =
     (if \<not> may_write st then no_write
      else case si_save w (app_config st) of
        None \<Rightarrow> ok_message (''configuration written to '' @ si_path w)
      | Some e \<Rightarrow> error_response 500 e)"

section \<open>Content rotation\<close>

definition rotation_get :: "('a, 'e, 'x) settings_site_scheme \<Rightarrow> app_state \<Rightarrow> response" where
  "rotation_get w st =
     (let ro = config.rotation (app_config st)
      in json_value 200 (JObj [(''enabled'', JBool (ro_enabled ro)), (''templates'', si_templates w (templates ro)),
           (''writable'', JBool (may_write st))]))"

definition named_templates :: "content_template list \<Rightarrow> content_template list" where
  "named_templates ts =
     map (\<lambda>(n, t). t\<lparr>ct_id := trim (if trim (ct_id t) = [] then ''t'' @ dec (n + 1) else ct_id t)\<rparr>) (enumerate 0 ts)"

definition rotation_put :: "('a, 'e, 'x) settings_site_scheme \<Rightarrow> request \<Rightarrow> app_state \<Rightarrow> response \<times> app_state" where
  "rotation_put w rq st =
     (if \<not> may_write st then (no_write, st)
      else case body_json (si_rotation w) rq of
        Inl e \<Rightarrow> (error_response 400 e, st)
      | Inr ro \<Rightarrow>
          let ro = ro\<lparr>templates := named_templates (templates ro)\<rparr>
          in (case edited w rq (\<lambda>c. c\<lparr>config.rotation := ro\<rparr>) st of
                (Inl e, st) \<Rightarrow> (error_response 422 e, st)
              | (Inr _, st) \<Rightarrow> (json_value 200 (JObj [(''ok'', JBool True), (''enabled'', JBool (ro_enabled ro)),
                  (''templates'', si_templates w (templates ro))]), st)))"

section \<open>Recipient validation\<close>

definition validation_fields :: "('a, 'e, 'x) settings_site_scheme \<Rightarrow> validation_config \<Rightarrow> (str \<times> json) list" where
  "validation_fields w v = [(''enabled'', JBool (va_enabled v)), (''timeout_seconds'', int_json (va_timeout_seconds v)),
     (''on_probe_error'', JStr (policy_str (on_probe_error v))), (''servers'', si_servers w (servers v)),
     (''yahoo'', si_yahoo_json w (yahoo v))]"

definition validation_get :: "('a, 'e, 'x) settings_site_scheme \<Rightarrow> app_state \<Rightarrow> response" where
  "validation_get w st =
     json_value 200 (JObj (validation_fields w (config.validation (redacted (app_config st))) @ [(''writable'', JBool (may_write st))]))"

definition trimmed_server :: "validation_server \<Rightarrow> validation_server" where
  "trimmed_server s = s\<lparr>base_url := trim_end_matches {CHR ''/''} (trim (base_url s)), vs_username := trim (vs_username s),
     token := trim (token s)\<rparr>"

definition tested :: "bool \<Rightarrow> validation_server \<Rightarrow> str \<Rightarrow> response" where
  "tested ok s detail = json_value 200 (JObj [(''ok'', JBool ok), (''id'', JStr (vs_id s)), (''base_url'', JStr (base_url s)),
     (''detail'', JStr detail)])"

definition NOT_STALWART :: str where
  "NOT_STALWART = ''this is a Yahoo/AOL verify API, not Stalwart '' @ [CHR 0xE2, CHR 0x80, CHR 0x94]
     @ '' use the Yahoo channel (POST JSON). Save moves it there.''"

definition validation_test :: "('a, 'e, 'x) settings_site_scheme \<Rightarrow> request \<Rightarrow> app_state \<Rightarrow> response" where
  "validation_test w rq st =
     (case body_json (si_server w) rq of
        Inl e \<Rightarrow> error_response 400 e
      | Inr s \<Rightarrow>
          let s = trimmed_server s;
              saved = List.find (\<lambda>e. vs_id s \<noteq> [] \<and> vs_id e = vs_id s) (servers (config.validation (app_config st)))
          in if saved = None \<and> (vs_password s = REDACTED \<or> token s = REDACTED)
             then error_response 400 ''enter the password again before testing a new server''
             else
               let s = (case saved of
                     Some old \<Rightarrow> s\<lparr>vs_password := restored (vs_password s) (Some (vs_password old)), token := restored (token s) (Some (token old))\<rparr>
                   | None \<Rightarrow> s)
               in if is_http_verifier s then tested True s NOT_STALWART
                  else (case verify_credentials (si_code_text w) (si_http w) s of
                          Inr detail \<Rightarrow> tested True s detail | Inl detail \<Rightarrow> tested False s detail))"

definition or_blank :: "str \<Rightarrow> str option \<Rightarrow> str" where
  "or_blank s other = (if trim s = [] then (case other of Some x \<Rightarrow> x | None \<Rightarrow> s) else s)"

definition yahoo_saved :: "yahoo_test_body \<Rightarrow> yahoo_endpoint list \<Rightarrow> yahoo_endpoint option" where
  "yahoo_saved b es =
     (case List.find (\<lambda>e. trim (yt_id b) \<noteq> [] \<and> ye_id e = trim (yt_id b)
                \<or> trim (yt_url b) \<noteq> [] \<and> eq_ignore_case (trim (ye_url e)) (trim (yt_url b))) es of
        Some e \<Rightarrow> Some e
      | None \<Rightarrow> (case es of e # _ \<Rightarrow> Some e | [] \<Rightarrow> None))"

definition yahoo_validation_test :: "('a, 'e, 'x) settings_site_scheme \<Rightarrow> request \<Rightarrow> app_state \<Rightarrow> response" where
  "yahoo_validation_test w rq st =
     (case body_json (si_yahoo w) rq of
        Inl e \<Rightarrow> error_response 400 e
      | Inr b \<Rightarrow>
          let v = config.validation (app_config st); saved = yahoo_saved b (yahoo_endpoints v);
              y = \<lparr>yc_enabled = True, yc_url = trim (or_blank (yt_url b) (map_option ye_url saved)),
                   yc_method = or_blank (yt_method b) (map_option ye_method saved),
                   yc_api_key = (if yt_api_key b = REDACTED then (case saved of Some e \<Rightarrow> ye_api_key e | None \<Rightarrow> yt_api_key b)
                                 else or_blank (yt_api_key b) (map_option ye_api_key saved)),
                   extra_domains = extra_domains (yahoo v), concurrency = concurrency (yahoo v), endpoints = []\<rparr>;
              email = trim (yt_email b);
              refuse = (\<lambda>detail. json_value 200 (JObj [(''ok'', JBool False), (''detail'', JStr detail)]))
          in if \<not> (starts_with ''http://'' (yc_url y) \<or> starts_with ''https://'' (yc_url y)) then refuse ''enter the Yahoo API URL''
             else if email = [] \<or> CHR ''@'' \<notin> set email then refuse ''enter an email to test''
             else (case call_yahoo_api (si_parse_json w) (si_json_text w) (si_code_text w) (si_http w) y email of
                     Inr (validated, detail) \<Rightarrow> json_value 200 (JObj [(''ok'', JBool True), (''validated'', JBool validated),
                       (''detail'', JStr detail)])
                   | Inl detail \<Rightarrow> refuse detail))"

definition tidy_validation :: "validation_config \<Rightarrow> validation_config" where
  "tidy_validation v = v\<lparr>servers := map (\<lambda>(n, s). trimmed_server (s\<lparr>vs_id := trim (if trim (vs_id s) = [] then ''sw'' @ dec (n + 1) else vs_id s)\<rparr>))
       (enumerate 0 (servers v)),
     yahoo := normalize ((yahoo v)\<lparr>yc_url := trim (yc_url (yahoo v)), yc_method := trim (yc_method (yahoo v)),
       extra_domains := filter (\<lambda>d. d \<noteq> []) (map (\<lambda>d. to_lower (trim d)) (extra_domains (yahoo v)))\<rparr>)\<rparr>"

definition with_validation :: "validation_config \<Rightarrow> config \<Rightarrow> config" where
  "with_validation v previous =
     (let c = restore_secrets_from (previous\<lparr>config.validation := v\<rparr>) previous
      in c\<lparr>config.validation := promote_http_verifier_cards (config.validation c)\<rparr>)"

definition validation_put :: "('a, 'e, 'x) settings_site_scheme \<Rightarrow> request \<Rightarrow> app_state \<Rightarrow> response \<times> app_state" where
  "validation_put w rq st =
     (if \<not> may_write st then (no_write, st)
      else case body_json (si_validation w) rq of
        Inl e \<Rightarrow> (error_response 400 e, st)
      | Inr v \<Rightarrow>
          (case edited w rq (with_validation (tidy_validation v)) st of
             (Inl e, st) \<Rightarrow> (error_response 422 e, st)
           | (Inr _, st) \<Rightarrow> (json_value 200 (JObj ((''ok'', JBool True)
               # validation_fields w (config.validation (redacted (app_config st))))), st)))"

section \<open>The inbound dump\<close>

definition inbound_debug_get :: "app_state \<Rightarrow> response" where
  "inbound_debug_get st =
     (let lo = config.logging (app_config st)
      in json_value 200 (JObj [(''enabled'', JBool (dump_inbound lo)),
           (''directory'', opt_json (map_option (\<lambda>d. d @ ''/inbound'') (l_directory lo))), (''writable'', JBool (may_write st))]))"

definition inbound_debug_put :: "('a, 'e, 'x) settings_site_scheme \<Rightarrow> request \<Rightarrow> app_state \<Rightarrow> response \<times> app_state" where
  "inbound_debug_put w rq st =
     (if \<not> may_write st then (no_write, st)
      else case body_json (si_value w) rq of
        Inl e \<Rightarrow> (error_response 400 e, st)
      | Inr v \<Rightarrow>
          let on = (json_get ''enabled'' v = Some (JBool True))
          in (case edited w rq (\<lambda>c. c\<lparr>config.logging := (config.logging c)\<lparr>dump_inbound := on\<rparr>\<rparr>) st of
                (Inl e, st) \<Rightarrow> (error_response 422 e, st)
              | (Inr _, st) \<Rightarrow> (inbound_debug_get st, st)))"

end
