(* ===== verification/Api.thy ===== *)
theory Api
  imports SettingsApi
begin

text \<open>The administration API as a whole (src/admin/routes.rs): the overview, the messages and the queue, and the
  router with its access check. \<^const>\<open>None\<close> is a panic of the task: the tracking extractor of the message
  view slices out of range.\<close>

section \<open>Overview\<close>

record ('addr, 'env) api_site = "('addr, 'env) settings_site" +
  si_uptime :: nat
  si_started :: json
  si_subscribers :: nat
  si_tls_backend :: str
  si_dashboard :: bytes
  si_maillog :: "str option"
  si_show_f64 :: "f64 \<Rightarrow> str"
  si_counters :: "counters \<Rightarrow> json"
  si_derived :: "counters \<Rightarrow> histogram \<Rightarrow> json"
  si_series :: "bucket list \<Rightarrow> json"
  si_record :: "message_record \<Rightarrow> (str \<times> json) list"
  si_entry :: "queue_entry_summary \<Rightarrow> json"
  si_time :: "int \<Rightarrow> json"
  si_b64d :: "str \<Rightarrow> bytes option"

definition ready :: "('a, 'e, 'x) api_site_scheme \<Rightarrow> app_state \<Rightarrow> response \<times> app_state" where
  "ready w st =
     (let (n, p) = eligible_count (si_clock w) (app_pool st)
      in (if 0 < n \<and> \<not> shutting_down st then text_response 200 (''ready: '' @ dec n @ '' relay(s) in rotation'')
          else text_response 503 ''not ready: no relay is currently eligible'', st\<lparr>app_pool := p\<rparr>))"

definition metrics_text :: "('a, 'e, 'x) api_site_scheme \<Rightarrow> app_state \<Rightarrow> response \<times> app_state" where
  "metrics_text w st =
     (let (ms, p) = metrics_rows (si_clock w) (app_pool st)
      in (respond 200 ''text/plain; version=0.0.4; charset=utf-8''
            (Plain (render_prometheus (si_show_f64 w) (si_uptime w) ms (app_metrics st))), st\<lparr>app_pool := p\<rparr>))"

definition dashboard :: "('a, 'e, 'x) api_site_scheme \<Rightarrow> app_state \<Rightarrow> response" where
  "dashboard w st =
     (if \<not> dashboard_enabled (config.admin (app_config st)) then error_response 404 ''the dashboard is disabled''
      else html_response (si_dashboard w))"

definition series_of :: "('a, 'e, 'x) api_site_scheme \<Rightarrow> request \<Rightarrow> app_state \<Rightarrow> json" where
  "series_of w rq st =
     si_series w (series_snapshot (si_wall w div 1000) (case query_usize ''minutes'' rq of Some n \<Rightarrow> n | None \<Rightarrow> 60)
       (me_series (app_metrics st)))"

definition server_json :: "config \<Rightarrow> json" where
  "server_json c =
     (let s = config.server c
      in JObj [(''bind_address'', JStr (sc_bind_address s)), (''port'', int_json (parse_bind_port (sc_bind_address s))),
           (''submission_mode'', JStr (submission_mode_str (submission_mode s))),
           (''max_message_size_mb'', u64_json (max_message_size_mb s)), (''timeout_seconds'', int_json (sc_timeout_seconds s)),
           (''max_connections'', int_json (max_connections s)), (''auth_required'', JBool (require_auth s)),
           (''auth_users'', int_json (length (auth_users s))), (''smtp_details'', int_json (length (config.smtp_details c))),
           (''allowed_networks'', strs_json (sc_allowed_networks s))])"

definition routing_json :: "routing_config \<Rightarrow> json" where
  "routing_json ro = JObj [(''strategy'', JStr (strategy_str (strategy ro))), (''sticky'', JStr (sticky_str (sticky ro))),
     (''fallback_on_failure'', JBool (fallback_on_failure ro)), (''max_attempts_per_message'', int_json (max_attempts_per_message ro)),
     (''domain_overrides'', int_json (length (domain_overrides ro)))]"

definition validation_json :: "validation_config \<Rightarrow> json" where
  "validation_json v = JObj [(''enabled'', JBool (va_enabled v)), (''servers'', int_json (length (validation_usable v))),
     (''timeout_seconds'', int_json (va_timeout_seconds v)), (''on_probe_error'', JStr (policy_str (on_probe_error v))),
     (''yahoo'', int_json (length (yahoo_endpoints v)))]"

definition queue_fields :: "int \<Rightarrow> queue \<Rightarrow> (str \<times> json) list" where
  "queue_fields now q = [(''enabled'', JBool (qu_enabled q)), (''persistent'', JBool (qu_persist q)), (''depth'', int_json (depth q)),
     (''due'', int_json (due_count now q)), (''in_flight'', int_json (flying q)), (''capacity'', int_json (qu_capacity q))]"

definition status :: "('a, 'e, 'x) api_site_scheme \<Rightarrow> request \<Rightarrow> app_state \<Rightarrow> response \<times> app_state" where
  "status w rq st =
     (let c = app_config st; me = app_metrics st; (n, p) = eligible_count (si_clock w) (app_pool st)
      in (json_value 200 (JObj [(''version'', JStr VERSION), (''hostname'', JStr (hostname (config.server c))),
            (''config_path'', JStr (si_path w)), (''started_at'', si_started w), (''uptime_seconds'', int_json (si_uptime w)),
            (''uptime_human'', JStr (human_duration (si_uptime w))), (''shutting_down'', JBool (shutting_down st)),
            (''tls_backend'', JStr (si_tls_backend w)), (''server'', server_json c), (''routing'', routing_json (config.routing c)),
            (''relays'', JObj [(''total'', int_json (length (relays p))), (''active'', int_json (active_count p)),
               (''eligible'', int_json n), (''healthy'', int_json (healthy_count p))]),
            (''rotation'', JObj [(''enabled'', JBool (ro_enabled (config.rotation c))),
               (''templates'', int_json (length (templates (config.rotation c))))]),
            (''validation'', validation_json (config.validation c)),
            (''logging'', JObj [(''dump_inbound'', JBool (dump_inbound (config.logging c))),
               (''directory'', opt_json (l_directory (config.logging c)))]),
            (''queue'', JObj (queue_fields (si_wall w) (app_queue st) @ [(''workers'', int_json (workers (config.queue c))),
               (''max_attempts'', int_json (max_attempts (config.queue c)))])),
            (''counters'', si_counters w (me_counters me)), (''derived'', si_derived w (me_counters me) (me_latency me)),
            (''series'', series_of w rq st), (''dashboard_clients'', int_json (si_subscribers w))]),
          st\<lparr>app_pool := p\<rparr>))"

definition series :: "('a, 'e, 'x) api_site_scheme \<Rightarrow> request \<Rightarrow> app_state \<Rightarrow> response" where
  "series w rq st = json_value 200 (series_of w rq st)"

section \<open>Messages\<close>

definition parse_status :: "str \<Rightarrow> message_status option" where
  "parse_status s =
     find_map (\<lambda>x. if status_str x = to_lower s then Some x else None)
       [StAccepted, StQueued, StSending, StDelivered, StDeferred, StFailed, StRejected]"

text \<open>The status asked for: nothing, one, or a word that is none.\<close>

definition status_wanted :: "request \<Rightarrow> str + message_status option" where
  "status_wanted rq =
     (case query_param ''status'' rq of
        None \<Rightarrow> Inr None
      | Some v \<Rightarrow> if v = [] \<or> v = ''all'' then Inr None
          else (case parse_status v of Some s \<Rightarrow> Inr (Some s) | None \<Rightarrow> Inl (''unknown status '' @ bq v)))"

definition clamped :: "nat \<Rightarrow> request \<Rightarrow> nat" where
  "clamped standard rq = (case query_usize ''limit'' rq of Some n \<Rightarrow> min (max n 1) 1000 | None \<Rightarrow> standard)"

definition messages :: "('a, 'e, 'x) api_site_scheme \<Rightarrow> request \<Rightarrow> app_state \<Rightarrow> response" where
  "messages w rq st =
     (case status_wanted rq of
        Inl e \<Rightarrow> error_response 400 e
      | Inr want \<Rightarrow>
          let limit = clamped 50 rq; page = max (case query_usize ''page'' rq of Some n \<Rightarrow> n | None \<Rightarrow> 1) 1;
              q = or_else (query_param ''q'' rq) (query_param ''search'' rq);
              (rs, all) = page_records limit page want (query_param ''relay'' rq) q (me_activity (app_metrics st))
          in json_value 200 (JObj [(''count'', int_json (length rs)), (''total'', int_json all), (''page'', int_json page),
               (''pages'', int_json (if all = 0 then 1 else (all + limit - 1) div limit)), (''limit'', int_json limit),
               (''q'', JStr (case q of Some s \<Rightarrow> s | None \<Rightarrow> [])), (''maillog'', opt_json (si_maillog w)),
               (''dump_inbound'', JBool (dump_inbound (config.logging (app_config st)))),
               (''messages'', JArr (map (\<lambda>r. JObj (AList.update ''has_inbound_dump'' (JBool (has_inbound_dump (mr_id r) st)) (si_record w r))) rs))]))"

definition inbound_fields :: "('a, 'e, 'x) api_site_scheme \<Rightarrow> bytes \<times> str option \<Rightarrow> (str \<times> json) list option" where
  "inbound_fields w dump =
     (let (bs, path) = dump; (html, txt) = decoded_bodies (si_b64d w) bs
      in map_option (\<lambda>t. [(''inbound_raw'', JStr (utf8_lossy bs)), (''inbound_raw_bytes'', int_json (length bs)),
           (''inbound_raw_path'', opt_json path), (''inbound_html'', opt_json html), (''inbound_text'', opt_json txt),
           (''inbound_links'', strs_json (tr_links t)), (''inbound_pixels'', strs_json (tr_pixels t)),
           (''inbound_unsubscribe'', opt_json (tr_unsubscribe t)), (''inbound_view'', opt_json (tr_view t))])
         (extract_tracking (si_b64d w) bs))"

definition message_view :: "('a, 'e, 'x) api_site_scheme \<Rightarrow> str \<Rightarrow> app_state \<Rightarrow> response option" where
  "message_view w i st =
     (case get_record i (me_activity (app_metrics st)) of
        None \<Rightarrow> Some (error_response 404 (''message '' @ bq i @ '' is not in the activity log (it may have aged out)''))
      | Some r \<Rightarrow>
          (case inbound_dump_of i st of
             None \<Rightarrow> Some (json_value 200 (JObj (si_record w r)))
           | Some dump \<Rightarrow> map_option (\<lambda>fs. json_value 200 (JObj (fold (\<lambda>(k, v). AList.update k v) fs (si_record w r)))) (inbound_fields w dump)))"

definition clear_messages :: "request \<Rightarrow> app_state \<Rightarrow> response \<times> app_state" where
  "clear_messages rq st =
     (case status_wanted rq of
        Inl e \<Rightarrow> (error_response 400 e, st)
      | Inr want \<Rightarrow>
          let me = app_metrics st; (n, a) = clear_status want (me_activity me)
          in (ok_message (''cleared '' @ dec n @ '' '' @ (case query_param ''status'' rq of Some s \<Rightarrow> s | None \<Rightarrow> ''all'') @ '' activity record(s)''),
              st\<lparr>app_metrics := me\<lparr>me_activity := a\<rparr>\<rparr>))"

section \<open>The queue\<close>

definition queue_view :: "('a, 'e, 'x) api_site_scheme \<Rightarrow> request \<Rightarrow> app_state \<Rightarrow> response" where
  "queue_view w rq st =
     json_value 200 (JObj (queue_fields (si_wall w) (app_queue st)
       @ [(''messages'', JArr (map (si_entry w) (list_entries (si_wall w) (clamped 100 rq) (app_queue st))))]))"

definition flush_queue :: "('a, 'e, 'x) api_site_scheme \<Rightarrow> app_state \<Rightarrow> response \<times> app_state" where
  "flush_queue w st =
     (let (n, q) = flush_now (si_wall w) (app_queue st);
          st = announce (si_wall w) EvQueue [(''action'', JStr ''flushed''), (''messages'', int_json n)] (st\<lparr>app_queue := q\<rparr>)
      in (json_value 200 (JObj [(''ok'', JBool True), (''message'', JStr (dec n @ '' message(s) are now due for immediate retry'')),
            (''depth'', int_json (depth q))]), st))"

definition purge_queue :: "('a, 'e, 'x) api_site_scheme \<Rightarrow> app_state \<Rightarrow> response \<times> app_state" where
  "purge_queue w st =
     (let (n, q) = purge (app_queue st);
          st = announce (si_wall w) EvQueue [(''action'', JStr ''purged''), (''messages'', int_json n)] (st\<lparr>app_queue := q\<rparr>)
      in (json_value 200 (JObj [(''ok'', JBool True), (''removed'', int_json n), (''depth'', int_json (depth q))]), st))"

definition not_queued :: "str \<Rightarrow> response" where
  "not_queued i = error_response 404 (''message '' @ bq i @ '' is not in the queue'')"

definition queued_view :: "('a, 'e, 'x) api_site_scheme \<Rightarrow> str \<Rightarrow> app_state \<Rightarrow> response" where
  "queued_view w i st =
     (case get_message i (app_queue st) of
        None \<Rightarrow> not_queued i
      | Some m \<Rightarrow>
          let limit = min (length (raw m)) (8 * 1024)
          in json_value 200 (JObj [(''id'', JStr (qm_id m)), (''sender'', JStr (qm_sender m)), (''recipients'', strs_json (qm_recipients m)),
               (''original_from'', JStr (original_from m)), (''subject'', opt_json (qm_subject m)), (''attempts'', int_json (qm_attempts m)),
               (''received_at'', si_time w (received_at m)), (''next_attempt_at'', si_time w (next_attempt_at m)),
               (''tried_relays'', strs_json (tried_relays m)), (''last_error'', opt_json (qm_last_error m)),
               (''size_bytes'', int_json (size_bytes m)), (''raw_preview'', JStr (utf8_lossy (take limit (raw m)))),
               (''raw_truncated'', JBool (limit < length (raw m)))]))"

definition drop_queued :: "str \<Rightarrow> app_state \<Rightarrow> response \<times> app_state" where
  "drop_queued i st =
     (let (yes, q) = remove i (app_queue st)
      in (if yes then ok_message (''message '' @ bq i @ '' was removed from the queue'') else not_queued i, st\<lparr>app_queue := q\<rparr>))"

section \<open>The router\<close>

datatype endpoint =
    Healthz | Readyz | MetricsText | Dashboard | Favicon | SessionStatus | LoginRoute | LogoutRoute
  | StatusRoute | SeriesRoute | EventsRoute
  | RelayList | RelayAdd | RelayImport | ActivateAll | DeactivateAll | BulkRoute | ResetAllStats
  | RelayGet str | RelayUpdate str | RelayDelete str | RelaySwitch str "bool option" | RelayResetStats str | RelayResetCircuit str
  | RelayProbe str | RelayTest str
  | DetailList | DetailAdd | DetailUpdate str | DetailDelete str
  | RoutingGet | RoutingPut | ConfigGet | ConfigPut | ConfigReload | ConfigSave | RotationGet | RotationPut
  | ValidationGet | ValidationPut | ValidationTest | YahooTest | InboundGet | InboundPut
  | MessageList | MessageClear | MessageGet str | QueueList | QueueFlush | QueuePurge | QueueGet str | QueueDrop str
  | NoRoute | Unsupported

definition fixed_routes :: "((str \<times> str list) \<times> endpoint) list" where
  "fixed_routes =
     [((''GET'', [''healthz'']), Healthz), ((''GET'', [''readyz'']), Readyz), ((''GET'', [''metrics'']), MetricsText),
      ((''GET'', []), Dashboard), ((''GET'', [''index.html'']), Dashboard), ((''GET'', [''favicon.ico'']), Favicon),
      ((''GET'', [''api'', ''session'']), SessionStatus), ((''POST'', [''api'', ''login'']), LoginRoute),
      ((''POST'', [''api'', ''logout'']), LogoutRoute), ((''GET'', [''api'', ''status'']), StatusRoute),
      ((''GET'', [''api'', ''series'']), SeriesRoute), ((''GET'', [''api'', ''events'']), EventsRoute),
      ((''GET'', [''api'', ''relays'']), RelayList), ((''POST'', [''api'', ''relays'']), RelayAdd),
      ((''POST'', [''api'', ''relays'', ''import'']), RelayImport), ((''POST'', [''api'', ''relays'', ''activate-all'']), ActivateAll),
      ((''POST'', [''api'', ''relays'', ''deactivate-all'']), DeactivateAll), ((''POST'', [''api'', ''relays'', ''bulk'']), BulkRoute),
      ((''POST'', [''api'', ''relays'', ''reset-stats'']), ResetAllStats),
      ((''GET'', [''api'', ''smtp-details'']), DetailList), ((''POST'', [''api'', ''smtp-details'']), DetailAdd),
      ((''GET'', [''api'', ''routing'']), RoutingGet), ((''PUT'', [''api'', ''routing'']), RoutingPut),
      ((''POST'', [''api'', ''routing'']), RoutingPut), ((''GET'', [''api'', ''config'']), ConfigGet),
      ((''PUT'', [''api'', ''config'']), ConfigPut), ((''POST'', [''api'', ''config'', ''reload'']), ConfigReload),
      ((''POST'', [''api'', ''config'', ''save'']), ConfigSave), ((''GET'', [''api'', ''rotation'']), RotationGet),
      ((''PUT'', [''api'', ''rotation'']), RotationPut), ((''GET'', [''api'', ''validation'']), ValidationGet),
      ((''PUT'', [''api'', ''validation'']), ValidationPut), ((''POST'', [''api'', ''validation'', ''test'']), ValidationTest),
      ((''POST'', [''api'', ''validation'', ''yahoo-test'']), YahooTest), ((''GET'', [''api'', ''debug'', ''inbound'']), InboundGet),
      ((''PUT'', [''api'', ''debug'', ''inbound'']), InboundPut), ((''GET'', [''api'', ''messages'']), MessageList),
      ((''DELETE'', [''api'', ''messages'']), MessageClear), ((''GET'', [''api'', ''queue'']), QueueList),
      ((''POST'', [''api'', ''queue'', ''flush'']), QueueFlush), ((''DELETE'', [''api'', ''queue'']), QueuePurge)]"

text \<open>The routes with an id: \<^verbatim>\<open>/api/<collection>/<id>\<close>, and \<^verbatim>\<open>/api/relays/<id>/<action>\<close> by POST.\<close>

definition item_routes :: "((str \<times> str) \<times> (str \<Rightarrow> endpoint)) list" where
  "item_routes =
     [((''GET'', ''relays''), RelayGet), ((''PUT'', ''relays''), RelayUpdate), ((''DELETE'', ''relays''), RelayDelete),
      ((''PUT'', ''smtp-details''), DetailUpdate), ((''DELETE'', ''smtp-details''), DetailDelete),
      ((''GET'', ''messages''), MessageGet), ((''GET'', ''queue''), QueueGet), ((''DELETE'', ''queue''), QueueDrop)]"

definition action_routes :: "(str \<times> (str \<Rightarrow> endpoint)) list" where
  "action_routes =
     [(''activate'', \<lambda>i. RelaySwitch i (Some True)), (''deactivate'', \<lambda>i. RelaySwitch i (Some False)),
      (''toggle'', \<lambda>i. RelaySwitch i None), (''reset-stats'', RelayResetStats), (''reset-circuit'', RelayResetCircuit),
      (''probe'', RelayProbe), (''test'', RelayTest)]"

definition endpoint_of :: "str \<Rightarrow> str list \<Rightarrow> endpoint" where
  "endpoint_of meth segs =
     (let fallback = (if meth \<in> {''GET'', ''POST'', ''PUT'', ''DELETE''} then NoRoute else Unsupported)
      in case map_of fixed_routes (meth, segs) of
           Some e \<Rightarrow> e
         | None \<Rightarrow>
             (case segs of
                [a, c, i] \<Rightarrow> (if a = ''api'' then case map_of item_routes (meth, c) of Some f \<Rightarrow> f i | None \<Rightarrow> fallback else fallback)
              | [a, c, i, x] \<Rightarrow> (if meth = ''POST'' \<and> a = ''api'' \<and> c = ''relays''
                  then case map_of action_routes x of Some f \<Rightarrow> f i | None \<Rightarrow> fallback else fallback)
              | _ \<Rightarrow> fallback))"

text \<open>\<open>reads rs st\<close> is a handler that changes nothing, \<open>does\<close> one that does.\<close>

definition reads :: "response \<Rightarrow> app_state \<Rightarrow> (reply \<times> app_state) option" where
  "reads rs st = Some (Complete rs, st)"

definition does :: "response \<times> app_state \<Rightarrow> (reply \<times> app_state) option" where
  "does x = Some (Complete (fst x), snd x)"

fun run :: "('a, 'e, 'x) api_site_scheme \<Rightarrow> request \<Rightarrow> endpoint \<Rightarrow> app_state \<Rightarrow> (reply \<times> app_state) option" where
  "run w rq Healthz st = reads (text_response 200 ''ok'') st"
| "run w rq Readyz st = does (ready w st)"
| "run w rq MetricsText st = does (metrics_text w st)"
| "run w rq Dashboard st = reads (dashboard w st) st"
| "run w rq Favicon st = reads (respond 204 ''image/x-icon'' (Plain [])) st"
| "run w rq SessionStatus st = does (session_status w rq st)"
| "run w rq LoginRoute st = does (login w rq st)"
| "run w rq LogoutRoute st = does (logout rq st)"
| "run w rq StatusRoute st = does (status w rq st)"
| "run w rq SeriesRoute st = reads (series w rq st) st"
| "run w rq EventsRoute st = Some (EventStream, st)"
| "run w rq RelayList st = does (list_relays w st)"
| "run w rq RelayAdd st = does (add_relay w rq st)"
| "run w rq RelayImport st = does (import_relays w rq st)"
| "run w rq ActivateAll st = does (bulk_activation w rq True st)"
| "run w rq DeactivateAll st = does (bulk_activation w rq False st)"
| "run w rq BulkRoute st = does (bulk w rq st)"
| "run w rq ResetAllStats st = does (reset_all_stats st)"
| "run w rq (RelayGet i) st = does (get_relay w i st)"
| "run w rq (RelayUpdate i) st = does (update_relay w rq i st)"
| "run w rq (RelayDelete i) st = does (delete_relay w rq i st)"
| "run w rq (RelaySwitch i on) st = does (set_activation w rq i on st)"
| "run w rq (RelayResetStats i) st = does (reset_relay_stats i st)"
| "run w rq (RelayResetCircuit i) st = does (reset_breaker w i st)"
| "run w rq (RelayProbe i) st = does (probe_relay w i st)"
| "run w rq (RelayTest i) st = does (send_test w rq i st)"
| "run w rq DetailList st = reads (list_smtp_details st) st"
| "run w rq DetailAdd st = does (add_smtp_detail w rq st)"
| "run w rq (DetailUpdate i) st = does (update_smtp_detail w rq i st)"
| "run w rq (DetailDelete i) st = does (delete_smtp_detail w rq i st)"
| "run w rq RoutingGet st = reads (routing_view w st) st"
| "run w rq RoutingPut st = does (update_routing w rq st)"
| "run w rq ConfigGet st = reads (config_body w st) st"
| "run w rq ConfigPut st = does (replace_config w rq st)"
| "run w rq ConfigReload st = does (reload_config w st)"
| "run w rq ConfigSave st = reads (save_config w st) st"
| "run w rq RotationGet st = reads (rotation_get w st) st"
| "run w rq RotationPut st = does (rotation_put w rq st)"
| "run w rq ValidationGet st = reads (validation_get w st) st"
| "run w rq ValidationPut st = does (validation_put w rq st)"
| "run w rq ValidationTest st = reads (validation_test w rq st) st"
| "run w rq YahooTest st = reads (yahoo_validation_test w rq st) st"
| "run w rq InboundGet st = reads (inbound_debug_get st) st"
| "run w rq InboundPut st = does (inbound_debug_put w rq st)"
| "run w rq MessageList st = reads (messages w rq st) st"
| "run w rq MessageClear st = does (clear_messages rq st)"
| "run w rq (MessageGet i) st = map_option (\<lambda>rs. (Complete rs, st)) (message_view w i st)"
| "run w rq QueueList st = reads (queue_view w rq st) st"
| "run w rq QueueFlush st = does (flush_queue w st)"
| "run w rq QueuePurge st = does (purge_queue w st)"
| "run w rq (QueueGet i) st = reads (queued_view w i st) st"
| "run w rq (QueueDrop i) st = does (drop_queued i st)"
| "run w rq NoRoute st = reads (error_response 404 (''no route for '' @ rq_method rq @ '' '' @ rq_path rq)) st"
| "run w rq Unsupported st = reads (error_response 405 ''unsupported method'') st"

definition preflight :: response where
  "preflight = fold (\<lambda>(k, v). with_header k v)
     [(''Access-Control-Allow-Origin'', ''*''), (''Access-Control-Allow-Methods'', ''GET, HEAD, POST, PUT, DELETE, OPTIONS''),
      (''Access-Control-Allow-Headers'', ''Authorization, Content-Type''), (''Access-Control-Max-Age'', ''600'')]
     (respond 204 ''text/plain'' (Plain []))"

definition with_cors :: "reply \<Rightarrow> reply" where
  "with_cors rep = (case rep of Complete rs \<Rightarrow> Complete (with_header ''Access-Control-Allow-Origin'' ''*'' rs) | EventStream \<Rightarrow> EventStream)"

definition route :: "('a, 'e, 'x) api_site_scheme \<Rightarrow> request \<Rightarrow> app_state \<Rightarrow> (reply \<times> app_state) option" where
  "route w rq st =
     (if rq_method rq = ''OPTIONS'' then Some (Complete preflight, st)
      else if \<not> network_allowed (admin_networks (app_config st)) rq
      then Some (Complete (error_response 403 ''your address is not permitted to use the admin API''), st)
      else
        let (denied, st) = (if rq_path rq \<in> set PUBLIC_PATHS then (None, st) else authorize w rq st)
        in case denied of
             Some rs \<Rightarrow> Some (Complete rs, st)
           | None \<Rightarrow> map_option (\<lambda>(rep, st). (with_cors rep, st)) (run w rq (endpoint_of (rq_method rq) (rq_segments rq)) st))"

end
