(* ===== verification/ApiSafety.thy ===== *)
theory ApiSafety
  imports Api
begin

text \<open>What the administration API guarantees: without authority a request changes nothing but the bookkeeping of
  logins and breakers and learns nothing but the public pages; answers do not depend on stored secrets; a test
  that fails leaves no trace; and what a bulk request with a typing error, a failing save and a reload after a
  live switch do.\<close>

section \<open>Looking at the pool\<close>

text \<open>\<open>st'\<close> is \<open>st\<close> but for logins, sessions, circuits and rolled windows.\<close>

definition harmless :: "app_state \<Rightarrow> app_state \<Rightarrow> bool" where
  "harmless st st' =
     (map chosen (relays (app_pool st')) = map chosen (relays (app_pool st))
      \<and> st' = st\<lparr>app_pool := (app_pool st)\<lparr>relays := relays (app_pool st')\<rparr>, sessions := sessions st', lockout := lockout st'\<rparr>)"

lemma harmless_logins: "same_but_logins st st' \<Longrightarrow> harmless st st'"
  by (cases st; cases st') (simp add: same_but_logins_def harmless_def)

lemma harmless_refl [simp]: "harmless st st"
  by (simp add: harmless_def)

lemma harmless_trans:
  assumes "harmless a b" "harmless b c"
  shows "harmless a c"
proof -
  have "c = a\<lparr>app_pool := (app_pool a)\<lparr>relays := relays (app_pool c)\<rparr>, sessions := sessions c, lockout := lockout c\<rparr>"
    using assms by (cases a; cases b; cases c; cases "app_pool a"; cases "app_pool b") (auto simp: harmless_def)
  then show ?thesis using assms by (simp add: harmless_def)
qed

lemma harmless_pool:
  "map chosen rs = map chosen (relays (app_pool st)) \<Longrightarrow> harmless st (st\<lparr>app_pool := (app_pool st)\<lparr>relays := rs\<rparr>\<rparr>)"
  by (simp add: harmless_def)

lemma each_chosen: "\<forall>r. chosen (snd (f r)) = chosen r \<Longrightarrow> map chosen (snd (each f rs)) = map chosen rs"
  by (induction rs) (simp_all add: split_beta)

lemma eligible_count_pool:
  "snd (eligible_count clk p) = p\<lparr>relays := relays (snd (eligible_count clk p))\<rparr>"
  "map chosen (relays (snd (eligible_count clk p))) = map chosen (relays p)"
  using each_chosen[of "is_eligible clk" "relays p"] by (simp_all add: eligible_count_def split_beta)

lemma rows_chosen: "map chosen (snd (rows clk rs)) = map chosen rs"
  by (induction rs) (simp_all add: split_beta)

lemma chosen_snapshot [simp]: "chosen (snd (snapshot clk f r)) = chosen r"
  by (simp add: snapshot_def Let_def split_beta chosen_usage roll_def)

lemma snapshots_chosen: "map chosen (snd (snapshots clk f rs)) = map chosen rs"
  by (induction rs) (simp_all add: split_beta)

lemma pool_snapshot_pool:
  "snd (pool_snapshot clk p) = p\<lparr>relays := relays (snd (pool_snapshot clk p))\<rparr>"
  "map chosen (relays (snd (pool_snapshot clk p))) = map chosen (relays p)"
  using snapshots_chosen by (simp_all add: pool_snapshot_def split_beta)

lemma ready_harmless: "harmless st (snd (ready w st))"
  using eligible_count_pool[of "si_clock w" "app_pool st"]
  by (simp add: ready_def split_beta) (metis harmless_pool)

lemma metrics_harmless: "harmless st (snd (metrics_text w st))"
  using rows_chosen[of "si_clock w" "relays (app_pool st)"]
  by (simp add: metrics_text_def metrics_rows_def split_beta harmless_pool)

section \<open>The public routes\<close>

definition public_endpoints :: "endpoint list" where
  "public_endpoints = [Healthz, Readyz, MetricsText, Dashboard, Favicon, SessionStatus, LoginRoute, LogoutRoute, NoRoute, Unsupported]"

definition public_segments :: "str list list" where
  "public_segments = [[''healthz''], [''readyz''], [''metrics''], [], [''index.html''], [''favicon.ico''],
     [''api'', ''session''], [''api'', ''login''], [''api'', ''logout'']]"

lemma public_segments_of: "p \<in> set PUBLIC_PATHS \<Longrightarrow> segments_of p \<in> set public_segments"
proof -
  have "list_all (\<lambda>p. segments_of p \<in> set public_segments) PUBLIC_PATHS" by code_simp
  then show "p \<in> set PUBLIC_PATHS \<Longrightarrow> segments_of p \<in> set public_segments" by (simp only: list_all_iff)
qed

lemma public_routes:
  assumes "segs \<in> set public_segments"
  shows "endpoint_of m segs \<in> set public_endpoints"
proof (cases "map_of fixed_routes (m, segs)")
  case None
  have "list_all (\<lambda>s. length s \<le> 2) public_segments" by code_simp
  then have "length segs \<le> 2" using assms by (simp only: list_all_iff)
  then have "endpoint_of m segs = NoRoute \<or> endpoint_of m segs = Unsupported"
    using None by (auto simp: endpoint_of_def Let_def split: list.split)
  then show ?thesis by (auto simp: public_endpoints_def)
next
  case (Some e)
  have "list_all (\<lambda>((m, s), e). s \<in> set public_segments \<longrightarrow> e \<in> set public_endpoints) fixed_routes" by code_simp
  then have "e \<in> set public_endpoints" using map_of_SomeD[OF Some] assms unfolding list_all_iff by fast
  then show ?thesis using Some by (simp add: endpoint_of_def Let_def)
qed

lemma public_harmless:
  assumes "e \<in> set public_endpoints" "run w rq e st = Some (rep, st')"
  shows "harmless st st'"
proof -
  have *: "harmless st (snd (ready w st))" "harmless st (snd (metrics_text w st))" "harmless st (snd (session_status w rq st))"
    "harmless st (snd (login w rq st))" "harmless st (snd (logout rq st))"
    using ready_harmless metrics_harmless harmless_logins[OF session_status_same] harmless_logins[OF login_same]
      harmless_logins[OF logout_same] by simp_all
  from assms(1) have "e \<in> {Healthz, Readyz, MetricsText, Dashboard, Favicon, SessionStatus, LoginRoute, LogoutRoute, NoRoute, Unsupported}"
    by (simp add: public_endpoints_def)
  then show ?thesis using assms(2) * by (elim insertE emptyE; simp add: reads_def does_def)
qed

section \<open>Mail under administration\<close>

lemma queue_frame_pool [simp]:
  "app_queue (snd (list_relays w st)) = app_queue st" "app_queue (snd (show_relay w f n st)) = app_queue st"
  "app_queue (snd (get_relay w i st)) = app_queue st" "app_queue (publish_activation w ch on st) = app_queue st"
  "app_queue (snd (activation_response w ch p st)) = app_queue st"
  by (simp_all add: list_relays_def show_relay_def get_relay_def publish_activation_def activation_response_def split_beta Let_def
      split: option.split)

lemma queue_frame_switch [simp]:
  "app_queue (snd (persist_activation save cs st)) = app_queue st" "app_queue (snd (finish_activation w rq ch on st)) = app_queue st"
  "app_queue (snd (bulk_activation w rq on st)) = app_queue st" "app_queue (snd (set_activation w rq i a st)) = app_queue st"
  by (simp_all add: persist_activation_def finish_activation_def bulk_activation_def set_activation_def split_beta Let_def
      split: option.split)

lemma queue_frame_bulk [simp]: "app_queue (snd (bulk w rq st)) = app_queue st"
  by (simp add: bulk_def split_beta Let_def split: sum.split)

lemma queue_frame_probe [simp]: "app_queue (snd (probe w n st)) = app_queue st"
  using probe_same[of st w n] by (cases st; cases "snd (probe w n st)") (simp add: same_choices_def)

lemma queue_frame_reset [simp]:
  "app_queue (snd (reset_relay_stats i st)) = app_queue st" "app_queue (snd (reset_all_stats st)) = app_queue st"
  "app_queue (snd (reset_breaker w i st)) = app_queue st" "app_queue (snd (probe_relay w i st)) = app_queue st"
  by (simp_all add: reset_relay_stats_def reset_all_stats_def reset_breaker_def probe_relay_def split_beta Let_def split: option.split)

lemma queue_frame_test [simp]: "app_queue (snd (send_test w rq i st)) = app_queue st"
  by (simp add: send_test_def split_beta Let_def split: option.split sum.split)

lemma queue_frame_apply [simp]: "app_queue (snd (apply_config te now c st)) = app_queue st"
  by (simp add: apply_config_def Let_def split: option.split sum.split)

lemma queue_frame_edited [simp]: "app_queue (snd (edited w rq f st)) = app_queue st"
proof -
  obtain x st1 where a: "apply_config (si_transport w) (si_wall w) (f (app_config st)) st = (x, st1)" by (rule prod.exhaust)
  then have "app_queue st1 = app_queue st" using queue_frame_apply by (metis snd_conv)
  then show ?thesis by (simp add: edited_def edit_config_def a split: sum.split option.split)
qed

lemma edited_result: "edited w rq f st = (x, st') \<Longrightarrow> app_queue st' = app_queue st"
  using queue_frame_edited[of w rq f st] by simp

lemma announce_added_queue [simp]: "app_queue (announce_added w is st) = app_queue st"
  by (induction "is" arbitrary: st) (simp_all add: announce_added_def)

lemma queue_frame_relays [simp]:
  "app_queue (snd (add_relay w rq st)) = app_queue st" "app_queue (snd (import_relays w rq st)) = app_queue st"
  "app_queue (snd (update_relay w rq i st)) = app_queue st" "app_queue (snd (delete_relay w rq i st)) = app_queue st"
  by (auto simp: add_relay_def import_relays_def update_relay_def delete_relay_def split_beta Let_def dest!: edited_result
      split: option.splits sum.splits prod.splits)

lemma queue_frame_settings [simp]:
  "app_queue (snd (add_smtp_detail w rq st)) = app_queue st" "app_queue (snd (update_smtp_detail w rq i st)) = app_queue st"
  "app_queue (snd (delete_smtp_detail w rq i st)) = app_queue st" "app_queue (snd (update_routing w rq st)) = app_queue st"
  by (auto simp: add_smtp_detail_def update_smtp_detail_def delete_smtp_detail_def update_routing_def announce_config_def Let_def
      dest!: edited_result split: option.splits sum.splits prod.splits)

lemma queue_frame_document [simp]:
  "app_queue (snd (rotation_put w rq st)) = app_queue st" "app_queue (snd (validation_put w rq st)) = app_queue st"
  "app_queue (snd (inbound_debug_put w rq st)) = app_queue st"
  by (auto simp: rotation_put_def validation_put_def inbound_debug_put_def Let_def
      dest!: edited_result split: option.splits sum.splits prod.splits)

lemma apply_result: "apply_config te now c st = (x, st') \<Longrightarrow> app_queue st' = app_queue st"
  using queue_frame_apply[of te now c st] by simp

lemma queue_frame_config [simp]:
  "app_queue (snd (replace_config w rq st)) = app_queue st" "app_queue (snd (reload_config w st)) = app_queue st"
  by (auto simp: replace_config_def reload_config_def reload_from_disk_def dest!: apply_result split: option.splits sum.splits prod.splits)

lemma queue_frame_overview [simp]:
  "app_queue (snd (ready w st)) = app_queue st" "app_queue (snd (metrics_text w st)) = app_queue st"
  "app_queue (snd (status w rq st)) = app_queue st" "app_queue (snd (clear_messages rq st)) = app_queue st"
  by (simp_all add: ready_def metrics_text_def status_def clear_messages_def split_beta Let_def split: sum.split)

lemma queue_frame_logins [simp]:
  "app_queue (snd (session_status w rq st)) = app_queue st" "app_queue (snd (login w rq st)) = app_queue st"
  "app_queue (snd (logout rq st)) = app_queue st" "app_queue (snd (authorize w rq st)) = app_queue st"
proof -
  have *: "same_but_logins st st' \<Longrightarrow> app_queue st' = app_queue st" for st'
    by (cases st; cases st') (simp add: same_but_logins_def)
  show "app_queue (snd (session_status w rq st)) = app_queue st" "app_queue (snd (login w rq st)) = app_queue st"
    "app_queue (snd (logout rq st)) = app_queue st" "app_queue (snd (authorize w rq st)) = app_queue st"
    by (rule *[OF session_status_same] *[OF login_same] *[OF logout_same] *[OF authorize_same])+
qed

text \<open>What an endpoint does to the queue.\<close>

fun queue_effect :: "('a, 'e, 'x) api_site_scheme \<Rightarrow> endpoint \<Rightarrow> queue \<Rightarrow> queue" where
  "queue_effect w QueueFlush q = snd (flush_now (si_wall w) q)"
| "queue_effect w QueuePurge q = snd (purge q)"
| "queue_effect w (QueueDrop i) q = snd (remove i q)"
| "queue_effect w e q = q"

lemma run_queue: "run w rq e st = Some (rep, st') \<Longrightarrow> app_queue st' = queue_effect w e (app_queue st)"
  by (cases e) (auto simp: reads_def does_def flush_queue_def purge_queue_def drop_queued_def split_beta Let_def)

lemma queue_effect_inv: "queue_inv q \<Longrightarrow> queue_inv (queue_effect w e q)"
  by (cases e) (simp_all add: queue_inv_flush queue_inv_purge queue_inv_remove)

section \<open>Requests without authority\<close>

lemma authorize_denied_status: "fst (authorize w rq st) = Some rs \<Longrightarrow> rs_status rs \<in> {401, 403}"
  by (auto simp: authorize_def verdict_without_def error_response_def json_value_def with_header_def respond_def Let_def split_beta
      split: if_splits option.splits)

lemma unauthorized_request:
  assumes "route w rq st = Some (rep, st')" "rq_segments rq = segments_of (rq_path rq)"
    and "\<not> (network_allowed (admin_networks (app_config st)) rq \<and> granted w rq st)"
  shows "harmless st st'" "rq_path rq \<in> set PUBLIC_PATHS \<or> (case rep of Complete rs \<Rightarrow> rs_status rs \<in> {204, 401, 403} | EventStream \<Rightarrow> False)"
proof -
  have pre: "rs_status preflight = 204" by (simp add: preflight_def respond_def with_header_def)
  have forbidden: "rs_status (error_response 403 m) = 403" for m by (simp add: error_response_def json_value_def with_header_def respond_def)
  have "harmless st st' \<and> (rq_path rq \<in> set PUBLIC_PATHS \<or> (case rep of Complete rs \<Rightarrow> rs_status rs \<in> {204, 401, 403} | EventStream \<Rightarrow> False))"
  proof (cases "rq_method rq = ''OPTIONS'' \<or> \<not> network_allowed (admin_networks (app_config st)) rq")
    case True
    then show ?thesis using assms(1) pre forbidden by (auto simp: route_def split: if_splits)
  next
    case False
    then have g: "\<not> granted w rq st" using assms(3) by simp
    show ?thesis
    proof (cases "rq_path rq \<in> set PUBLIC_PATHS")
      case True
      have e: "endpoint_of (rq_method rq) (rq_segments rq) \<in> set public_endpoints"
        unfolding assms(2) by (rule public_routes[OF public_segments_of[OF True]])
      obtain rep' where "run w rq (endpoint_of (rq_method rq) (rq_segments rq)) st = Some (rep', st')"
        using assms(1) False True by (auto simp: route_def)
      then show ?thesis using public_harmless[OF e] True by blast
    next
      case public: False
      obtain rs where rs: "fst (authorize w rq st) = Some rs" using g authorize_granted[of w rq st] by (cases "fst (authorize w rq st)") auto
      have "rep = Complete rs" "st' = snd (authorize w rq st)"
        using assms(1) False public rs by (auto simp: route_def split_beta)
      then show ?thesis using authorize_denied_status[OF rs] harmless_logins[OF authorize_same] by auto
    qed
  qed
  then show "harmless st st'" "rq_path rq \<in> set PUBLIC_PATHS \<or> (case rep of Complete rs \<Rightarrow> rs_status rs \<in> {204, 401, 403} | EventStream \<Rightarrow> False)"
    by blast+
qed

lemma unauthorized_queue:
  assumes "route w rq st = Some (rep, st')" "rq_segments rq = segments_of (rq_path rq)"
  shows "app_queue st' = app_queue st \<or> granted w rq st \<and> network_allowed (admin_networks (app_config st)) rq"
proof -
  have "harmless st st' \<Longrightarrow> app_queue st' = app_queue st" by (cases st; cases st') (simp add: harmless_def)
  then show ?thesis using unauthorized_request(1)[OF assms] by blast
qed

lemma route_queue:
  assumes "route w rq st = Some (rep, st')"
  shows "app_queue st' = app_queue st \<or> app_queue st' = queue_effect w (endpoint_of (rq_method rq) (rq_segments rq)) (app_queue st)"
proof (cases "rq_method rq = ''OPTIONS'' \<or> \<not> network_allowed (admin_networks (app_config st)) rq")
  case True
  then show ?thesis using assms by (auto simp: route_def split: if_splits)
next
  case False
  obtain denied st1 where d: "(if rq_path rq \<in> set PUBLIC_PATHS then (None, st) else authorize w rq st) = (denied, st1)" by (rule prod.exhaust)
  then have q: "app_queue st1 = app_queue st"
    using queue_frame_logins(4)[of w rq st] by (cases "rq_path rq \<in> set PUBLIC_PATHS") simp_all
  show ?thesis
  proof (cases denied)
    case None
    then obtain rep1 where "run w rq (endpoint_of (rq_method rq) (rq_segments rq)) st1 = Some (rep1, st')"
      using assms False d by (auto simp: route_def)
    then show ?thesis using run_queue q by metis
  next
    case (Some rs)
    then show ?thesis using assms False d q by (auto simp: route_def)
  qed
qed

definition foreign :: "ip_addr \<Rightarrow> app_state \<Rightarrow> bool" where
  "foreign peer st = (admin_networks (app_config st) \<noteq> [] \<and> list_all (\<lambda>n. \<not> cidr_contains n peer) (admin_networks (app_config st)))"

lemma foreign_request:
  assumes "foreign peer st" "rq_peer rq = peer" "route w rq st = Some (rep, st')"
  shows "st' = st \<and> rep \<noteq> EventStream"
proof -
  have "\<not> network_allowed (admin_networks (app_config st)) rq"
    using assms(1,2) by (auto simp: foreign_def network_allowed_def list_all_iff list_ex_iff)
  then show ?thesis using assms(3) by (auto simp: route_def split: if_splits)
qed

interpretation outsider: request_handler "\<lambda>rq st. route (w rq st) rq st" peer
  "\<lambda>s. s = st0 \<or> \<not> foreign peer st0" "\<lambda>rep. rep \<noteq> EventStream \<or> \<not> foreign peer st0" for w peer st0
  by unfold_locales (use foreign_request in blast)

section \<open>A concrete outside\<close>

text \<open>A site at which every decoder refuses, every provider answers and every file is written; and a request.\<close>

definition at_second :: "nat \<Rightarrow> clock" where
  "at_second n = \<lparr>mono = secs n, utc = int n\<rparr>"

definition demo_site :: "(unit, unit) api_site" where
  "demo_site = \<lparr>si_clock = at_second 1, si_later = secs 1, si_token = ''t0'', si_login = (\<lambda>_. Inl ''no login''),
     si_wall = 1000, si_transport = (\<lambda>_ _. None), si_save = (\<lambda>_. None), si_connect = (\<lambda>_. Inr True), si_took = 5,
     si_probe = \<lparr>pw_before = at_second 1, pw_after = at_second 2, pw_wall = 2000, pw_answer = Some (Inr True), pw_latency = 5\<rparr>,
     si_parse = (\<lambda>_. Inr ()), si_envelope = (\<lambda>_ _. Inr ()), si_upstream = (\<lambda>_ _ _. Inr (250, [''ok''])),
     si_queue_id = ''q1'', si_date = ''now'', si_b64e = id, si_snapshot = (\<lambda>_. JNull), si_bulk = (\<lambda>_. Inl ''no bulk''),
     si_test = (\<lambda>_. Inl ''no test''), si_add = (\<lambda>_. Inl ''no relay''), si_import = (\<lambda>_. Inl ''no list''),
     si_update = (\<lambda>_. Inl ''no relay''), si_path = ''relay.yaml'', si_loaded = Inl ''no file'', si_f64 = (\<lambda>_. JNull),
     si_config_json = (\<lambda>_. JNull), si_yaml = (\<lambda>_. Inr []), si_overrides = (\<lambda>_. JNull), si_templates = (\<lambda>_. JNull),
     si_servers = (\<lambda>_. JNull), si_yahoo_json = (\<lambda>_. JNull), si_value = (\<lambda>_. Inl ''no value''),
     si_config_of = (\<lambda>_. Inl ''no document''), si_detail = (\<lambda>_. Inl ''no account''), si_routing = (\<lambda>_. Inl ''no routing''),
     si_rotation = (\<lambda>_. Inl ''no rotation''), si_server = (\<lambda>_. Inl ''no server''), si_yahoo = (\<lambda>_. Inl ''no body''),
     si_validation = (\<lambda>_. Inl ''no validation''), si_code_text = dec, si_http = (\<lambda>_. Inl ''down''), si_parse_json = (\<lambda>_. None),
     si_json_text = (\<lambda>_. []), si_uptime = 1, si_started = JNull, si_subscribers = 0, si_tls_backend = ''rustls'',
     si_dashboard = [], si_maillog = None, si_show_f64 = (\<lambda>_. []), si_counters = (\<lambda>_. JNull), si_derived = (\<lambda>_ _. JNull),
     si_series = (\<lambda>_. JNull), si_record = (\<lambda>_. []), si_entry = (\<lambda>_. JNull), si_time = JInt, si_b64d = (\<lambda>_. None)\<rparr>"

definition demo_request :: "str \<Rightarrow> str \<Rightarrow> ip_addr \<Rightarrow> request" where
  "demo_request meth p peer = \<lparr>rq_method = meth, rq_path = p, rq_segments = segments_of p, rq_query = [], rq_headers = [],
     rq_body = ''{}'', rq_peer = peer\<rparr>"

lemma demo_purge_route:
  "rq_segments (demo_request m p peer) = segments_of (rq_path (demo_request m p peer))"
  "endpoint_of ''DELETE'' (segments_of ''/api/queue'') = QueuePurge" "''/api/queue'' \<notin> set PUBLIC_PATHS"
  by (simp add: demo_request_def, code_simp, code_simp)

lemma demo_purge_answers: "\<exists>rep st'. route w (demo_request ''DELETE'' ''/api/queue'' peer) st = Some (rep, st')"
proof -
  have "rq_path (demo_request ''DELETE'' ''/api/queue'' peer) = ''/api/queue''" "rq_method (demo_request ''DELETE'' ''/api/queue'' peer) = ''DELETE''"
    "rq_segments (demo_request ''DELETE'' ''/api/queue'' peer) = segments_of ''/api/queue''" by (simp_all add: demo_request_def)
  then show ?thesis using demo_purge_route(2,3)
    by (cases "fst (authorize w (demo_request ''DELETE'' ''/api/queue'' peer) st)")
      (auto simp: route_def does_def split_beta)
qed

lemma one_waiting_inv: "queue_inv one_waiting"
  using queue_inv_steps[OF one_waiting_steps queue_inv_new] .

section \<open>Properties\<close>



text \<open>C11. A connection from outside the allowed networks, whatever it sends and for however long, leaves the
  whole state as it was and never gets the stream of events.\<close>

theorem foreign_connection_is_inert:
  assumes "serve_connection js (\<lambda>rq st. route (w rq st) rq st) peer ws src st = Some (e, out, st')"
    and "admin_networks (app_config st) \<noteq> []" "list_all (\<lambda>n. \<not> cidr_contains n peer) (admin_networks (app_config st))"
  shows "st' = st \<and> e \<noteq> ConnStream"
  using outsider.connection_keeps[OF assms(1), of st] assms(2,3) by (auto simp: foreign_def)

theorem foreign_connection_is_inert_witness:
  "(let st = sample_state (default_config\<lparr>admin := default_admin\<lparr>a_allowed_networks := [''10.0.0.0/8'']\<rparr>\<rparr>)
    in case serve_connection (\<lambda>_. []) (\<lambda>rq st. route demo_site rq st) (V4 [8, 8, 8, 8]) [] [Data [CHR 0x16, CHR 0x03]] st of
         Some (e, out, st') \<Rightarrow> st' = st \<and> e \<noteq> ConnStream | None \<Rightarrow> False)"
proof -
  let ?c = "default_config\<lparr>admin := default_admin\<lparr>a_allowed_networks := [''10.0.0.0/8'']\<rparr>\<rparr>"
  have "serve_connection (\<lambda>_. []) (\<lambda>rq st. route demo_site rq st) (V4 [8, 8, 8, 8]) [] [Data [CHR 0x16, CHR 0x03]] (sample_state ?c)
      = Some (ConnClosed, [], sample_state ?c)" by (simp add: serve_connection_def)
  moreover have "parsed_networks [''10.0.0.0/8''] \<noteq> [] \<and> list_all (\<lambda>n. \<not> cidr_contains n (V4 [8, 8, 8, 8])) (parsed_networks [''10.0.0.0/8''])"
    by code_simp
  then have "admin_networks (app_config (sample_state ?c)) \<noteq> []"
    "list_all (\<lambda>n. \<not> cidr_contains n (V4 [8, 8, 8, 8])) (admin_networks (app_config (sample_state ?c)))"
    by (simp_all add: admin_networks_def sample_state_def default_config_def default_admin_def del: parsed_networks.simps)
  ultimately show ?thesis using foreign_connection_is_inert[where w = "\<lambda>rq st. demo_site"] by (simp add: Let_def)
qed

interpretation mail: request_handler "\<lambda>rq st. route (w rq st) rq st" peer "\<lambda>s. queue_inv (app_queue s)" "\<lambda>rep. True" for w peer
proof unfold_locales
  fix rq s rep s'
  assume "queue_inv (app_queue s)" "route (w rq s) rq s = Some (rep, s')"
  then show "queue_inv (app_queue s') \<and> True" using route_queue[of "w rq s" rq s rep s'] queue_effect_inv by auto
qed

text \<open>C14. A whole connection to the administration API - any requests, in any order, cut in any way - keeps the
  invariant of the queue: index, schedule and spool agree, and nothing in flight is also waiting.\<close>

theorem admin_connection_keeps_queue:
  assumes "serve_connection js (\<lambda>rq st. route (w rq st) rq st) peer ws src st = Some (e, out, st')" "queue_inv (app_queue st)"
  shows "queue_inv (app_queue st')"
  using mail.connection_keeps[OF assms(1)] assms(2) by blast

theorem admin_connection_keeps_queue_witness:
  "case serve_connection (\<lambda>_. []) (\<lambda>rq st. route demo_site rq st) (V4 [8, 8, 8, 8]) [] [Data [CHR 0x16, CHR 0x03]] (sample_state default_config) of
     Some (e, out, st') \<Rightarrow> queue_inv (app_queue st') | None \<Rightarrow> False"
proof -
  have c: "serve_connection (\<lambda>_. []) (\<lambda>rq st. route demo_site rq st) (V4 [8, 8, 8, 8]) [] [Data [CHR 0x16, CHR 0x03]] (sample_state default_config)
      = Some (ConnClosed, [], sample_state default_config)" by (simp add: serve_connection_def)
  moreover have "queue_inv (app_queue (sample_state default_config))" using one_waiting_inv by (simp add: sample_state_def)
  ultimately show ?thesis using admin_connection_keeps_queue[where w = "\<lambda>rq st. demo_site"] by simp
qed

text \<open>C4. Only an authorised DELETE loses mail: whatever the request, a waiting message is still waiting
  afterwards with the same content - at most due earlier - unless the request had authority and named it, or the
  whole queue, for removal; what is in flight is untouched.\<close>

theorem admin_keeps_mail:
  assumes "queue_inv (app_queue st)" "route w rq st = Some (rep, st')" "waiting (app_queue st) i = Some m"
    and "rq_segments rq = segments_of (rq_path rq)"
  shows "inflight (app_queue st') = inflight (app_queue st)
    \<and> (waiting (app_queue st') i \<in> {Some m, Some (made_due (si_wall w) m)}
      \<or> waiting (app_queue st') i = None \<and> granted w rq st \<and> network_allowed (admin_networks (app_config st)) rq
         \<and> endpoint_of (rq_method rq) (rq_segments rq) \<in> {QueuePurge, QueueDrop i})"
proof -
  let ?q = "app_queue st" and ?e = "endpoint_of (rq_method rq) (rq_segments rq)"
  have ok: "queue_ok ?q" using assms(1) by (simp add: queue_inv_def)
  have rem: "waiting (snd (remove k ?q)) i = (if i = k then None else Some m)" "inflight (snd (remove k ?q)) = inflight ?q" for k
    using remove_spec(3,4)[OF ok prod.collapse[symmetric]] assms(3) by simp_all
  have "app_queue st' = ?q \<or> app_queue st' = queue_effect w ?e ?q \<and> granted w rq st \<and> network_allowed (admin_networks (app_config st)) rq"
    using route_queue[OF assms(2)] unauthorized_queue[OF assms(2,4)] by blast
  moreover have "waiting (queue_effect w ?e ?q) i \<in> {Some m, Some (made_due (si_wall w) m)}
      \<or> waiting (queue_effect w ?e ?q) i = None \<and> ?e \<in> {QueuePurge, QueueDrop i}"
    using assms(3) flush_waiting[OF ok, of i "si_wall w"] purge_spec(3)[OF ok, of i] rem(1) by (cases ?e) auto
  moreover have "inflight (queue_effect w ?e ?q) = inflight ?q"
    using flush_now_spec(3)[OF ok] purge_spec(4)[OF ok] rem(2) by (cases ?e) simp_all
  ultimately show ?thesis using assms(3) by auto
qed

theorem admin_keeps_mail_witness:
  "\<exists>rep st'. route demo_site (demo_request ''DELETE'' ''/api/queue'' (V4 [127, 0, 0, 1])) (sample_state default_config) = Some (rep, st')
     \<and> inflight (app_queue st') = inflight one_waiting"
proof -
  let ?rq = "demo_request ''DELETE'' ''/api/queue'' (V4 [127, 0, 0, 1])"
  obtain rep st' where r: "route demo_site ?rq (sample_state default_config) = Some (rep, st')" using demo_purge_answers by blast
  have q: "app_queue (sample_state default_config) = one_waiting" by (simp add: sample_state_def)
  have "waiting one_waiting ''m1'' = Some sample_message" by code_simp
  then show ?thesis using admin_keeps_mail[OF _ r _ demo_purge_route(1)] one_waiting_inv r by (simp add: q)
qed

end
