(* ===== verification/ApiFaults.thy ===== *)
theory ApiFaults
  imports ApiSafety
begin

text \<open>How the endpoints that change something behave: switching a relay, importing a list, saving,
  and the cases in which the answer and the state afterwards disagree.\<close>

section \<open>Switching\<close>

lemma activation_response_frame:
  "index (app_pool (snd (activation_response w ch p st))) = index (app_pool st)"
  "app_config (snd (activation_response w ch p st)) = app_config st"
  "map chosen (relays (app_pool (snd (activation_response w ch p st)))) = map chosen (relays (app_pool st))"
proof -
  let ?p1 = "snd (eligible_count (si_clock w) (app_pool st))"
  have 1: "?p1 = (app_pool st)\<lparr>relays := relays ?p1\<rparr>" "map chosen (relays ?p1) = map chosen (relays (app_pool st))"
    by (rule eligible_count_pool)+
  have 2: "snd (pool_snapshot (si_clock w) ?p1) = ?p1\<lparr>relays := relays (snd (pool_snapshot (si_clock w) ?p1))\<rparr>"
    "map chosen (relays (snd (pool_snapshot (si_clock w) ?p1))) = map chosen (relays ?p1)"
    by (rule pool_snapshot_pool)+
  have i: "index (snd (pool_snapshot (si_clock w) ?p1)) = index (app_pool st)"
    using arg_cong[OF 2(1), of index] arg_cong[OF 1(1), of index] by simp
  have s: "snd (activation_response w ch p st) = st\<lparr>app_pool := snd (pool_snapshot (si_clock w) ?p1)\<rparr>"
    by (simp add: activation_response_def split_beta Let_def)
  show "index (app_pool (snd (activation_response w ch p st))) = index (app_pool st)"
    "app_config (snd (activation_response w ch p st)) = app_config st"
    "map chosen (relays (app_pool (snd (activation_response w ch p st)))) = map chosen (relays (app_pool st))"
    using i 1(2) 2(2) by (simp_all add: s)
qed

lemma publish_activation_frame [simp]:
  "app_pool (publish_activation w ch on st) = app_pool st" "app_config (publish_activation w ch on st) = app_config st"
  by (simp_all add: publish_activation_def)

lemma finish_activation_frame:
  "index (app_pool (snd (finish_activation w rq ch on st))) = index (app_pool st)"
  "map chosen (relays (app_pool (snd (finish_activation w rq ch on st)))) = map chosen (relays (app_pool st))"
  "app_config (snd (finish_activation w rq ch on st)) =
     (if ch \<noteq> [] \<and> should_persist rq st
      then fold (\<lambda>(i, on) c. c\<lparr>config.relays := set_enabled i on (config.relays c)\<rparr>) (map (\<lambda>i. (i, on)) ch) (app_config st)
      else app_config st)"
  by (auto simp: finish_activation_def persist_activation_def split_beta Let_def activation_response_frame)

lemma set_activation_effect:
  assumes "relay_at i st = Some n"
  defines "r \<equiv> relays (app_pool st) ! n"
  shows "index (app_pool (snd (set_activation w rq i (Some a) st))) = index (app_pool st)"
    "map chosen (relays (app_pool (snd (set_activation w rq i (Some a) st)))) = map chosen ((relays (app_pool st))[n := snd (set_active a r)])"
    "app_config (snd (set_activation w rq i (Some a) st)) =
       (if fst (set_active a r) \<and> should_persist rq st
        then (app_config st)\<lparr>config.relays := set_enabled i a (config.relays (app_config st))\<rparr> else app_config st)"
  using assms by (simp_all add: set_activation_def finish_activation_frame split_beta Let_def update_at_def should_persist_def)

lemma relay_at_get: "relay_at i st = Some n \<longleftrightarrow> index (app_pool st) i = Some n \<and> n < length (relays (app_pool st))"
  by (auto simp: relay_at_def Pool.position_of_def split: option.splits)

lemma get_at: "relay_at i st = Some n \<Longrightarrow> get i (app_pool st) = Some (relays (app_pool st) ! n)"
  by (auto simp: relay_at_get get_def)

text \<open>The relays of a pool that was rebuilt.\<close>

lemma build_relays_map: "build_relays te t cs = Inr rs \<Longrightarrow> rs = map new_relay cs"
  by (induction cs arbitrary: rs) (auto split: option.splits sum.splits)

definition carried :: "pool \<Rightarrow> relay_config \<Rightarrow> relay_runtime" where
  "carried previous cfg = (case get (r_id cfg) previous of
     None \<Rightarrow> new_relay cfg
   | Some old \<Rightarrow> carry_over_from old (r_enabled (rcfg old) = r_enabled cfg) (new_relay cfg))"

lemma new_relay_id [simp]: "id_of (new_relay cfg) = r_id cfg" "rcfg (new_relay cfg) = cfg"
  by (simp_all add: id_of_def new_relay_def)

lemma rebuild_relays: "rebuild_from te previous c = Inr p \<Longrightarrow> relays p = map (carried previous) (config.relays c)"
  by (auto simp: rebuild_from_def build_def carried_def dest!: build_relays_map split: sum.splits option.split)

lemma apply_config_pool:
  "apply_config te now c st = (Inr ch, st') \<Longrightarrow> relays (app_pool st') = map (carried (app_pool st)) (config.relays c) \<and> app_config st' = c"
  by (auto simp: apply_config_def Let_def dest: rebuild_relays split: option.splits sum.splits)

lemma edited_pool:
  "edited w rq change st = (Inr ch, st') \<Longrightarrow> relays (app_pool st') = map (carried (app_pool st)) (config.relays (change (app_config st)))
     \<and> app_config st' = change (app_config st)"
  by (auto simp: edited_def edit_config_def dest: apply_config_pool split: prod.splits sum.splits option.splits if_splits)

lemma set_enabled_has:
  "relay i c \<noteq> None \<Longrightarrow> \<exists>cfg\<in>set (set_enabled i on (config.relays c)). r_id cfg = i \<and> r_enabled cfg = on"
proof -
  have "List.find (\<lambda>r. r_id r = i) rs \<noteq> None \<Longrightarrow> \<exists>cfg\<in>set (set_enabled i on rs). r_id cfg = i \<and> r_enabled cfg = on" for rs
    by (induction rs) auto
  then show "relay i c \<noteq> None \<Longrightarrow> ?thesis" by (simp add: relay_def)
qed

section \<open>Properties\<close>

text \<open>A switch thrown by hand is undone by an unrelated change: a relay that was off when the pool was built is
  switched on and the switch saved, then switched off for this run only; a later change of the routing turns it
  on again - active, and at the same time marked as switched off by hand.\<close>

theorem unrelated_edit_undoes_switch:
  assumes "relay_at i st = Some n" "\<not> active (relays (app_pool st) ! n)" "\<not> r_enabled (rcfg (relays (app_pool st) ! n))"
    and "relay i (app_config st) \<noteq> None" "should_persist rq\<^sub>1 st" "query_param ''persist'' rq\<^sub>2 = Some ''0''"
    and "update_routing w\<^sub>3 rq\<^sub>3 (snd (set_activation w\<^sub>2 rq\<^sub>2 i (Some False) (snd (set_activation w\<^sub>1 rq\<^sub>1 i (Some True) st)))) = (rs, st')"
    and "rs_status rs = 200"
  shows "\<exists>r\<in>set (relays (app_pool st')). id_of r = i \<and> active r \<and> manually_disabled (circuit r)"
proof -
  let ?r = "relays (app_pool st) ! n" and ?c = "app_config st"
  define st1 where "st1 = snd (set_activation w\<^sub>1 rq\<^sub>1 i (Some True) st)"
  define st2 where "st2 = snd (set_activation w\<^sub>2 rq\<^sub>2 i (Some False) st1)"
  have n: "n < length (relays (app_pool st))" using assms(1) by (simp add: relay_at_get)
  note e1 = set_activation_effect[OF assms(1), of w\<^sub>1 rq\<^sub>1 True, folded st1_def]
  have l1: "length (relays (app_pool st1)) = length (relays (app_pool st))" using arg_cong[OF e1(2), of length] by simp
  then have a1: "relay_at i st1 = Some n" using e1(1) assms(1) by (simp add: relay_at_get)
  have c1: "app_config st1 = ?c\<lparr>config.relays := set_enabled i True (config.relays ?c)\<rparr>"
    using e1(3) assms(2,5) by (simp add: set_active_def activate_def Let_def)
  have r1: "chosen (relays (app_pool st1) ! n) = chosen (snd (activate ?r))"
    using arg_cong[OF e1(2), of "\<lambda>xs. xs ! n"] n l1 by (simp add: set_active_def)
  note e2 = set_activation_effect[OF a1, of w\<^sub>2 rq\<^sub>2 False, folded st2_def]
  have l2: "length (relays (app_pool st2)) = length (relays (app_pool st))" using arg_cong[OF e2(2), of length] l1 by simp
  then have a2: "relay_at i st2 = Some n" using e2(1) a1 n by (simp add: relay_at_get)
  have c2: "app_config st2 = app_config st1" using e2(3) assms(6) by (simp add: should_persist_def)
  have r2: "chosen (relays (app_pool st2) ! n) = chosen (snd (deactivate (relays (app_pool st1) ! n)))"
    using arg_cong[OF e2(2), of "\<lambda>xs. xs ! n"] n l1 l2 by (simp add: set_active_def)
  let ?old = "relays (app_pool st2) ! n"
  have old: "rcfg ?old = rcfg ?r" "manually_disabled (circuit ?old)"
    using r1 r2 by (simp_all add: chosen_def activate_def deactivate_def Let_def)
  have "update_routing w\<^sub>3 rq\<^sub>3 st2 = (rs, st')" using assms(7) by (simp add: st1_def st2_def)
  then obtain change ch st3 where ed: "edited w\<^sub>3 rq\<^sub>3 change st2 = (Inr ch, st3)" "app_pool st' = app_pool st3"
    and keeps: "\<And>c. config.relays (change c) = config.relays c"
  proof -
    assume u: "update_routing w\<^sub>3 rq\<^sub>3 st2 = (rs, st')"
      and that: "\<And>change ch st3. edited w\<^sub>3 rq\<^sub>3 change st2 = (Inr ch, st3) \<Longrightarrow> app_pool st' = app_pool st3 \<Longrightarrow>
        (\<And>c. config.relays (change c) = config.relays c) \<Longrightarrow> thesis"
    have bad: "rs_status (error_response k m) = k" for k m by (simp add: error_response_def json_value_def with_header_def respond_def)
    obtain v where v: "body_json (si_routing w\<^sub>3) rq\<^sub>3 = Inr v"
      using u assms(8) bad by (cases "body_json (si_routing w\<^sub>3) rq\<^sub>3") (auto simp: update_routing_def)
    let ?change = "\<lambda>c. c\<lparr>config.routing := reroute (Option.bind (ru_strategy v) parse_strategy) (Option.bind (ru_sticky v) parse_sticky)
      (ru_fallback_on_failure v) (ru_max_attempts v) (config.routing c)\<rparr>"
    obtain x st3 where x: "edited w\<^sub>3 rq\<^sub>3 ?change st2 = (x, st3)" by (rule prod.exhaust)
    obtain ch where "x = Inr ch" "app_pool st' = app_pool st3"
      using u assms(8) bad v x by (cases x) (auto simp: update_routing_def Let_def split: if_splits)
    then show thesis using that[of ?change ch st3] x by simp
  qed
  obtain cfg where cfg: "cfg \<in> set (config.relays (app_config st2))" "r_id cfg = i" "r_enabled cfg"
    using set_enabled_has[OF assms(4), of True] by (auto simp: c1 c2)
  have "carried (app_pool st2) cfg \<in> set (relays (app_pool st'))" using edited_pool[OF ed(1)] ed(2) keeps cfg(1) by simp
  moreover have "carried (app_pool st2) cfg = carry_over_from ?old False (new_relay cfg)"
    using get_at[OF a2] cfg(2,3) old(1) assms(3) by (simp add: carried_def)
  moreover have "id_of (carry_over_from ?old False (new_relay cfg)) = i" "active (carry_over_from ?old False (new_relay cfg))"
    "manually_disabled (circuit (carry_over_from ?old False (new_relay cfg)))"
    using cfg(2,3) old(2) by (simp_all add: carry_over_from_def new_relay_def id_of_def Let_def)
  ultimately show ?thesis by metis
qed

text \<open>A provider \<open>a\<close> that is switched off in the configuration, and its pool.\<close>

definition off_at_start :: config where
  "off_at_start = sample_config\<lparr>config.relays := set_enabled ''a'' False (config.relays sample_config)\<rparr>"

definition off_state :: app_state where
  "off_state = (sample_state off_at_start)\<lparr>app_pool := \<lparr>relays = map new_relay (config.relays off_at_start),
     index = build_index (map new_relay (config.relays off_at_start)), routing = config.routing off_at_start,
     smtp_details = config.smtp_details off_at_start, cursor = 0, smooth_weights = [0, 0]\<rparr>\<rparr>"

definition routing_site :: "(unit, unit) api_site" where
  "routing_site = demo_site\<lparr>si_routing := \<lambda>_. Inr \<lparr>ru_strategy = None, ru_sticky = None, ru_fallback_on_failure = None,
     ru_max_attempts = None\<rparr>\<rparr>"

lemma build_relays_total: "build_relays (\<lambda>_ _. None) t cs = Inr (map new_relay cs)"
  by (induction cs) auto

lemma rebuild_total: "\<exists>p. rebuild_from (\<lambda>_ _. None) previous c = Inr p"
  by (simp add: rebuild_from_def build_def build_relays_total)

lemma rerouting_succeeds:
  assumes "validate (app_config st) = None" "rq_body rq \<noteq> []"
  shows "rs_status (fst (update_routing routing_site rq st)) = 200"
proof -
  have "(app_config st)\<lparr>config.routing := reroute None None None None (config.routing (app_config st))\<rparr> = app_config st"
    by (simp add: reroute_def)
  then show ?thesis using assms rebuild_total[of "app_pool st" "app_config st"]
    by (auto simp: update_routing_def body_json_def routing_site_def demo_site_def edited_def edit_config_def apply_config_def
        routing_view_def json_value_def with_header_def respond_def Let_def)
qed

lemma off_state_facts:
  "relay_at ''a'' off_state = Some 0" "\<not> active (relays (app_pool off_state) ! 0)"
  "\<not> r_enabled (rcfg (relays (app_pool off_state) ! 0))" "relay ''a'' (app_config off_state) \<noteq> None"
  "set_enabled ''a'' True (config.relays off_at_start) = config.relays sample_config" "app_config off_state = off_at_start"
  "allow_config_write (config.admin off_at_start)"
  by (simp_all add: off_state_def off_at_start_def sample_config_def default_config_def default_admin_def sample_state_def relay_at_def
      Pool.position_of_def build_index_def relay_def new_relay_def id_of_def default_relay_def)

definition off_request :: "str \<Rightarrow> request" where
  "off_request p = (demo_request ''POST'' p (V4 [127, 0, 0, 1]))\<lparr>rq_query := [(''persist'', ''0'')]\<rparr>"

definition switched :: app_state where
  "switched = snd (set_activation routing_site (off_request ''/api/relays/a/deactivate'') ''a'' (Some False)
     (snd (set_activation routing_site (demo_request ''POST'' ''/api/relays/a/activate'' (V4 [127, 0, 0, 1])) ''a'' (Some True) off_state)))"

theorem unrelated_edit_undoes_switch_witness:
  "\<exists>r\<in>set (relays (app_pool (snd (update_routing routing_site (demo_request ''PATCH'' ''/api/routing'' (V4 [127, 0, 0, 1])) switched)))).
    id_of r = ''a'' \<and> active r \<and> manually_disabled (circuit r)"
proof -
  let ?rq1 = "demo_request ''POST'' ''/api/relays/a/activate'' (V4 [127, 0, 0, 1])" and ?rq2 = "off_request ''/api/relays/a/deactivate''"
    and ?rq3 = "demo_request ''PATCH'' ''/api/routing'' (V4 [127, 0, 0, 1])"
  define st1 where "st1 = snd (set_activation routing_site ?rq1 ''a'' (Some True) off_state)"
  define st2 where "st2 = snd (set_activation routing_site ?rq2 ''a'' (Some False) st1)"
  have q: "query_param ''persist'' ?rq2 = Some ''0''" "query_param ''persist'' ?rq1 = None" "rq_body ?rq3 \<noteq> []"
    by (simp_all add: query_param_def demo_request_def off_request_def)
  have p: "should_persist ?rq1 off_state" using q off_state_facts(6,7) by (simp add: should_persist_def)
  note e1 = set_activation_effect[OF off_state_facts(1), of routing_site ?rq1 True, folded st1_def]
  have "app_config st1 = off_at_start\<lparr>config.relays := config.relays sample_config\<rparr>"
    using e1(3) p off_state_facts(2,5,6) by (simp add: set_active_def activate_def Let_def)
  then have c1: "app_config st1 = sample_config" by (simp add: off_at_start_def)
  have "relay_at ''a'' st1 = Some 0"
    using e1(1) arg_cong[OF e1(2), of length] off_state_facts(1) by (simp add: relay_at_get)
  then have "app_config st2 = sample_config"
    using set_activation_effect(3)[of "''a''" st1 0 routing_site ?rq2 False, folded st2_def] c1 q(1) by (simp add: should_persist_def)
  then have "rs_status (fst (update_routing routing_site ?rq3 st2)) = 200"
    using rerouting_succeeds q(3) sample_config_accepted(1) by simp
  then show ?thesis
    using unrelated_edit_undoes_switch[OF off_state_facts(1,2,3,4) p q(1) surjective_pairing[of "update_routing routing_site ?rq3 st2", unfolded st2_def st1_def]]
    by (simp add: st1_def st2_def switched_def)
qed

text \<open>A request that sets the relays exclusively to a mistyped id is answered 404, but every relay has been
  switched off by then - in memory only, with no event: the configuration still has them on.\<close>

theorem mistyped_exclusive_stops_mail:
  assumes "body_json (si_bulk w) rq = Inr b" "to_lower (br_action b) = ''exclusive''" "br_ids b = [i]"
    and "index (app_pool st) i = None" "\<forall>r\<in>set (relays (app_pool st)). id_of r \<noteq> i" "bulk w rq st = (rs, st')"
  shows "rs_status rs = 404 \<and> list_all (\<lambda>r. \<not> active r \<and> manually_disabled (circuit r)) (relays (app_pool st'))
    \<and> st' = st\<lparr>app_pool := app_pool st'\<rparr>"
proof -
  have off: "\<forall>r\<in>set rs. id_of r \<noteq> i \<Longrightarrow>
      list_all (\<lambda>r. \<not> active r \<and> manually_disabled (circuit r)) (snd (each (\<lambda>r. set_active (id_of r = i) r) rs))" for rs
    by (induction rs) (auto simp: set_active_def deactivate_def split_beta)
  show ?thesis using assms off[OF assms(5)]
    by (auto simp: bulk_def set_exclusive_def Let_def split_beta error_response_def json_value_def with_header_def respond_def)
qed

definition bulk_site :: "(unit, unit) api_site" where
  "bulk_site = demo_site\<lparr>si_bulk := \<lambda>_. Inr \<lparr>br_action = ''exclusive'', br_ids = [''typo'']\<rparr>\<rparr>"

theorem mistyped_exclusive_stops_mail_witness:
  "(let (rs, st') = bulk bulk_site (demo_request ''POST'' ''/api/relays/bulk'' (V4 [127, 0, 0, 1])) off_state
    in rs_status rs = 404 \<and> list_all (\<lambda>r. \<not> active r \<and> manually_disabled (circuit r)) (relays (app_pool st'))
      \<and> length (relays (app_pool st')) = 2)"
proof -
  let ?rq = "demo_request ''POST'' ''/api/relays/bulk'' (V4 [127, 0, 0, 1])"
  obtain rs st' where r: "bulk bulk_site ?rq off_state = (rs, st')" by (rule prod.exhaust)
  have b: "body_json (si_bulk bulk_site) ?rq = Inr \<lparr>br_action = ''exclusive'', br_ids = [''typo'']\<rparr>"
    by (simp add: body_json_def bulk_site_def demo_request_def)
  have l: "to_lower (br_action \<lparr>br_action = ''exclusive'', br_ids = [''typo'']\<rparr>) = ''exclusive''" by code_simp
  have p: "index (app_pool off_state) ''typo'' = None" "\<forall>r\<in>set (relays (app_pool off_state)). id_of r \<noteq> ''typo''"
    "length (relays (app_pool off_state)) = 2"
    by (simp_all add: off_state_def off_at_start_def sample_config_def sample_state_def build_index_def new_relay_def id_of_def default_relay_def)
  have n: "length (snd (each f xs)) = length xs" for f and xs :: "relay_runtime list"
    by (induction xs) (auto simp: split_beta)
  have "length (relays (app_pool st')) = 2" using r b l p
    by (auto simp: bulk_def set_exclusive_def Let_def split_beta n)
  then show ?thesis using mistyped_exclusive_stops_mail[OF b l _ p(1,2) r] r by simp
qed

text \<open>A change whose file cannot be written is answered as an error although it is in force: configuration and
  pool are the new ones.\<close>

theorem failed_save_is_live:
  assumes "edit_config transport now save True change st = (Inl e, st')" "validate (change (app_config st)) = None"
    and "rebuild_from transport (app_pool st) (change (app_config st)) = Inr p"
  shows "app_config st' = change (app_config st) \<and> app_pool st' = p \<and> save (app_config st') = Some e"
  using assms by (auto simp: edit_config_def apply_config_def Let_def split: option.splits)

theorem failed_save_is_live_witness:
  "\<exists>e st'. edit_config (\<lambda>_ _. None) 0 (\<lambda>_. Some ''disk full'') True (\<lambda>_. sample_config) off_state = (Inl e, st')
     \<and> app_config st' = sample_config"
proof -
  obtain p where p: "rebuild_from (\<lambda>_ _. None) (app_pool off_state) sample_config = Inr p" using rebuild_total by blast
  obtain st' where r: "edit_config (\<lambda>_ _. None) 0 (\<lambda>_. Some ''disk full'') True (\<lambda>_. sample_config) off_state = (Inl ''disk full'', st')"
    using p sample_config_accepted(1) by (simp add: edit_config_def apply_config_def Let_def)
  show ?thesis using failed_save_is_live[OF r _ p] r sample_config_accepted(1) by simp
qed

section \<open>The import\<close>

fun is_entry :: "nat \<times> str \<Rightarrow> bool" where
  "is_entry (n, txt) = (trim txt \<noteq> [] \<and> \<not> starts_with ''#'' (trim txt))"

text \<open>The import of a list accounts for every line that is neither empty nor a comment, as accepted or as
  refused, and the ids it gives are new and different from each other.\<close>

theorem import_accounts_for_lines:
  "case import_lines verify ls taken of (acc, bad) \<Rightarrow>
     length acc + length bad = length (filter is_entry ls) \<and> distinct (map r_id acc) \<and> set (map r_id acc) \<inter> set taken = {}"
proof (induction verify ls taken rule: import_lines.induct)
  case (2 verify n s ls taken)
  show ?case
  proof (cases "is_entry (n, s)")
    case False
    then show ?thesis using 2(1)[OF refl] by (auto simp: Let_def)
  next
    case True
    show ?thesis
    proof (cases "parse_smtp_import_line (trim s)")
      case (Inl e)
      then show ?thesis using True 2(2)[OF refl _ Inl] by (auto simp: Let_def split: prod.splits)
    next
      case (Inr r)
      obtain i taken' where u: "unique_relay_id taken (case r_auth r of Some a \<Rightarrow> username a | None \<Rightarrow> []) (host r) = (i, taken')"
        by (rule prod.exhaust)
      then have f: "i \<notin> set taken" "taken' = i # taken" using unique_relay_id_fresh by blast+
      show ?thesis using True Inr u 2(3)[OF refl _ Inr u[symmetric] refl refl] f
        by (auto simp: Let_def split: prod.splits sum.splits)
    qed
  qed
qed simp

end
