(* ===== verification/Spec2Isabelle.thy ===== *)
theory Spec2Isabelle
  imports Startup ApiFaults
begin

text \<open>
  A model of the SMTP relay daemon in src/src/: it accepts mail from applications by SMTP, picks one of
  several upstream relays for every message, rewrites the message for that relay, hands it over, and
  keeps what could not be delivered in a queue on disk. The model is executable HOL, one theory for each
  part of the program.

  \<^bold>\<open>Parts and theories.\<close> The order is the order of the imports.

  \<^item> Prelude: byte strings and the parts of the standard library the program uses - UTF-8 decoding
    (lossy and strict), trimming and splitting, decimal printing and parsing, saturating arithmetic,
    ordered maps as sorted association lists, filters that thread a state.
  \<^item> Util (util.rs, and \<^verbatim>\<open>is_allowed\<close> of smtp/server.rs): networks in CIDR notation over octets, queue
    ids, mailbox printing, constant-time comparison.
  \<^item> Lines (smtp/lines.rs): the bounded line reader. Its buffer, position and growth are those of the
    code; a socket is the list of what its reads do. \<open>spec_line\<close> is the abstract reader on the bytes
    that are still to come, and the code refines it.
  \<^item> Command (smtp/command.rs): the grammar of the commands of a client, with the exact error replies.
  \<^item> Config (config.rs): every section of the configuration document, its defaults, redaction, restoring
    of redacted secrets, validation, and the retry delay with 64 bit floats as rounded rationals.
  \<^item> Delivery (error.rs, relay/sender.rs): classification of failures and the outbound client.
  \<^item> Pool (relay/pool.rs): a relay at run time - breaker, quota windows, slots, counters - and the pool
    with smooth weighted round-robin. \<open>relay_step\<close> is the step relation of the operations on a relay.
  \<^item> Selector (relay/selector.rs): which relay gets a message.
  \<^item> Queue (queue.rs): the schedule, the index by id, the ids in flight, the spool and its recovery;
    \<open>queue_step\<close> is the step relation of its operations.
  \<^item> Headers (message/headers.rs), Rotation (message/mod.rs, message/rotation.rs) and Rewrite
    (message/rewrite.rs): parsing and printing of messages, encoded words, content templates, and the
    rewriting of the identity for a relay.
  \<^item> Metrics (metrics.rs) and Events (events.rs): counters, series, histogram, activity log, Prometheus
    text, and the event bus of the dashboard.
  \<^item> AppState (state.rs): the shared state - \<open>app_state\<close> is \<^verbatim>\<open>AppState\<close> - with its sessions, login
    brake, rotation cursors and the replacement of the configuration.
  \<^item> Validation (validation.rs): the check of recipients before the first attempt.
  \<^item> Dispatch (dispatch.rs): \<open>submit\<close>, \<open>attempt_delivery\<close> and one turn of the queue worker, composed of
    the operations above as the code composes them.
  \<^item> Session (smtp/session.rs): the whole SMTP session over the line reader - greeting, commands, AUTH, the
    envelope, DATA and the hand-over to \<open>submit\<close>. A client is a list of reads.
  \<^item> Http (admin/http.rs): the HTTP server of the dashboard - request line, headers, body, percent-decoding,
    responses, and \<open>serve_connection\<close>, the loop over the requests of a connection, for any handler.
  \<^item> Health (relay/health.rs, and the snapshots of relay/pool.rs): one probe, a round of probes, a turn of
    the background loop.
  \<^item> Access (\<^verbatim>\<open>authorize\<close>, \<^verbatim>\<open>login\<close> and sessions of admin/routes.rs), Import (names and the one-line form of
    a provider), RelayApi (the endpoints of the relays), SettingsApi (SMTP details, routing, the document,
    rotation, validation) and Api (status, queue, messages, and \<open>route\<close>, from method and path to endpoint).
  \<^item> ConfigFile (the file part of config.rs): paths, formats, loading, and the save by backup, temporary file and
    rename, with every access to the disk able to fail. Startup (main.rs, and \<^verbatim>\<open>build_transport\<close> of
    relay/sender.rs): the command line, the phases of \<^verbatim>\<open>main\<close>, the start on a spool, the wait for a signal, the
    end, the report of --probe, and the transport of a relay.
  \<^item> ApiSafety and ApiFaults hold the properties of the whole administration API: what a request without
    authority, and what any connection, can change; and where an answer and the state disagree.

  \<^bold>\<open>State and effects.\<close> A structure of the code is a record, an enumeration a datatype, an operation on
  shared state a function that returns the new state. Errors are the left of a sum or \<^const>\<open>None\<close>. A panic is
  \<^const>\<open>None\<close> where a panic is possible: in content rotation and what calls it. Counters of the metrics are
  64 bit words and wrap around; the cursors of rotation saturate. Instants are nanoseconds, wall clock
  times of the queue milliseconds, quota windows whole seconds since the epoch.

  \<^bold>\<open>Libraries.\<close> What the program calls and does not contain is an argument: the base64 codec, the hash of the
  standard library, \<^verbatim>\<open>powf\<close>, the printing of floats, address parsing, envelopes and sending by the SMTP
  library, the HTTP client, JSON parsing and printing, the construction of TLS transports, and the results
  of writing files. Dispatch gathers them in the record \<open>world\<close>, one answer for every round of an attempt;
  the endpoints in the records \<open>site\<close>, \<open>relay_site\<close>, \<open>settings_site\<close> and \<open>api_site\<close>, each extending the
  one before: the clock, the outcome of every call to the outside, and the decoders of the bodies. Where a
  handler serves several requests, the outside is a function of the request and the state.

  \<^bold>\<open>Bounds and fuel.\<close> No definition uses fuel. Loops are structural recursion or terminate by a measure: the
  bytes that are still to come (\<open>to_come\<close>) for the reader, the session, the headers of a request and the
  requests of a connection, the rest of a text, the number of rounds left, the taken names above a counter,
  the size of a JSON value.

  \<^bold>\<open>Interfaces.\<close> \<open>quota_window\<close> (Pool) is interpreted for the minute, the hour and the day; \<open>observer\<close>
  (Selector) says that looking at a relay does not change what is seen; \<open>delivery_queue\<close> (Queue) is what a
  worker needs of the queue; \<open>line_source\<close> is what a session needs of the reader; \<open>session_law\<close> (Session),
  a property that every command keeps, is interpreted as \<open>progress\<close> and as \<open>honest\<close>; \<open>request_handler\<close>
  (Http), a property that every request keeps, is interpreted on \<open>route\<close> as \<open>outsider\<close> and as \<open>mail\<close>.

  \<^bold>\<open>What the lemmas show.\<close> The reader is independent of the segmentation of the stream and bounded in memory.
  Commands round-trip and addresses are well-formed. A session hands over only messages whose envelope and
  authentication it accepted. A worker neither loses nor doubles a message, and its attempts end. Quotas hold
  in every window, the breaker opens at its threshold and excludes the relay, weighted round-robin is exact.
  Redaction hides every secret and saving restores it. Selection is sound, total and isolates dedicated
  relays. The queue keeps its index, its schedule and its spool in agreement and recovers after a crash what
  it held. Rewriting leaves alone what it does not own and always presents the identity of the relay. A
  configuration is replaced as a whole, the login brake bounds guessing, rotation is fair. Requests are framed
  by their announced length; without authority they change nothing that matters, from a foreign network
  nothing at all, and only an authorised DELETE loses mail. Probes never undo a choice of the operator. A
  configuration that was accepted can be started, its file is replaced as a whole or not at all, an existing file
  is overwritten only by force, and a shutdown ends. The theorems on late releases, reloads, redacted passwords, weight 0, empty first lines, links at the end of a
  text, escaped encoded words, percent signs before a character, switches that an edit undoes, mistyped ids
  and failed saves record where the code departs from what it says.

  \<^bold>\<open>Not modelled.\<close> The accept loops, the tasks, locks, channels and timers of the runtime (the model is one
  task running alone; the heartbeat of the event stream is one of the timers), signal handlers, the logging
  set-up (logging.rs), the serde formats of the configuration and of the bodies of requests, the clock behind
  dates, random tokens, \<^verbatim>\<open>human_bytes\<close> and the other figures printed from floats, and the files of the activity
  log beyond the records they hold: all of it is input and output or a library's.
\<close>

end
